(* ===== verification/Prelude.thy ===== *)
theory Prelude
  imports Main "HOL-Library.Word" "HOL-Library.AList" "HOL-Library.Code_Target_Nat"
begin

text \<open>
  Shared vocabulary of the development: the Python values the adapters pass around
  (strings as lists of code points, byte strings as lists of 8-bit words), the Python
  exceptions the code raises or catches as one datatype, results as a sum type, and
  insertion-ordered dictionaries with the laws every component relies on.
\<close>

section \<open>Strings and byte strings\<close>

text \<open>
  A Python \<open>str\<close> is a sequence of code points, so that surrogates and characters
  beyond one byte keep their identity; a Python \<open>bytes\<close> is a sequence of octets.
  \<open>py ''abc''\<close> is the literal \<open>"abc"\<close>.
\<close>

type_synonym pystr = "nat list"
type_synonym bytes = "8 word list"

definition py :: "string \<Rightarrow> pystr" where
  "py s = map of_char s"

lemma py_inject [simp]: "py s = py t \<longleftrightarrow> s = t"
  by (simp add: py_def inj_map_eq_map inj_on_def)

lemma py_Nil [simp]: "py [] = []"
  by (simp add: py_def)

lemma py_eq_Nil [simp]: "py s = [] \<longleftrightarrow> s = []" "[] = py s \<longleftrightarrow> s = []"
  by (auto simp: py_def)

lemma py_append: "py (s @ t) = py s @ py t"
  by (simp add: py_def)

lemma length_py [simp]: "length (py s) = length s"
  by (simp add: py_def)

section \<open>Exceptions and results\<close>

text \<open>
  The exceptions that the modelled code raises, catches or lets through. The payload of
  an exception (its message) is left out: no handler inspects one.
\<close>

datatype exn =
    JSONDecodeError
  | UnicodeDecodeError
  | UnicodeEncodeError
  | BinasciiError
  | ValueErr
  | KeyErr
  | TypeErr
  | MalformedPayloadError
  | PathTraversalError
  | CredsParseError
  | ValidationError
  | OSErr
  | FileNotFoundError
  | RuntimeErr
  | TimeoutErr
  | CancelledErr
  | DecryptError
  | SignatureVerificationError
  | NoKeysError
  | KeyNotFoundError
  | DBAPIError
  | RequestError
  | HTTPStatusError
  | HTTPException nat
  | ConnectionErr
  | NatsTimeoutError
  | RecipientError
  | IdentityError
  | BadSignatureError
  | LibraryErr nat
  | Blocked
  | FuelExhausted

text \<open>
  \<open>isinstance(e, ValueError)\<close> and \<open>isinstance(e, OSError)\<close>: the subclasses among the
  exceptions above. JSON and Unicode decoding errors, \<open>binascii.Error\<close>, pydantic's
  \<open>ValidationError\<close> and the repository's own \<open>MalformedPayloadError\<close>,
  \<open>PathTraversalError\<close> and \<open>CredsParseError\<close> all derive from \<open>ValueError\<close>.
\<close>

definition is_value_error :: "exn \<Rightarrow> bool" where
  "is_value_error e \<longleftrightarrow> e \<in> {JSONDecodeError, UnicodeDecodeError, UnicodeEncodeError,
     BinasciiError, ValueErr, MalformedPayloadError, PathTraversalError, CredsParseError,
     ValidationError}"

definition is_os_error :: "exn \<Rightarrow> bool" where
  "is_os_error e \<longleftrightarrow> e \<in> {OSErr, FileNotFoundError, TimeoutErr, NatsTimeoutError, ConnectionErr}"

text \<open>
  \<open>isinstance(e, TimeoutError)\<close> and \<open>isinstance(e, Exception)\<close>: the cancellation of a task is
  a \<open>BaseException\<close> only.
\<close>

definition is_timeout_error :: "exn \<Rightarrow> bool" where
  "is_timeout_error e \<longleftrightarrow> e \<in> {TimeoutErr, NatsTimeoutError}"

definition is_exception :: "exn \<Rightarrow> bool" where
  "is_exception e \<longleftrightarrow> e \<notin> {CancelledErr, Blocked, FuelExhausted}"

type_synonym 'a res = "exn + 'a"

fun rbind :: "'e + 'a \<Rightarrow> ('a \<Rightarrow> 'e + 'b) \<Rightarrow> 'e + 'b" where
  "rbind (Inl e) f = Inl e"
| "rbind (Inr a) f = f a"

definition rmap :: "('a \<Rightarrow> 'b) \<Rightarrow> 'e + 'a \<Rightarrow> 'e + 'b" where
  "rmap f r = rbind r (\<lambda>a. Inr (f a))"

lemma rmap_simps [simp]: "rmap f (Inl e) = Inl e" "rmap f (Inr a) = Inr (f a)"
  by (simp_all add: rmap_def)

lemma rbind_Inr_iff: "rbind r f = Inr b \<longleftrightarrow> (\<exists>a. r = Inr a \<and> f a = Inr b)"
  by (cases r) auto

lemma rbind_Inl_iff: "rbind r f = Inl e \<longleftrightarrow> r = Inl e \<or> (\<exists>a. r = Inr a \<and> f a = Inl e)"
  by (cases r) auto

lemma rmap_Inr_iff: "rmap f r = Inr b \<longleftrightarrow> (\<exists>a. r = Inr a \<and> b = f a)"
  by (cases r) auto

text \<open>
  An \<open>except\<close> clause that turns the exceptions of a class into another one and lets the
  rest through.
\<close>

definition catch_as :: "(exn \<Rightarrow> bool) \<Rightarrow> exn \<Rightarrow> 'a res \<Rightarrow> 'a res" where
  "catch_as p e' r = (case r of Inl e \<Rightarrow> if p e then Inl e' else Inl e | Inr a \<Rightarrow> Inr a)"

lemma catch_as_simps [simp]:
  "catch_as p e' (Inr a) = Inr a" "catch_as p e' (Inl e) = Inl (if p e then e' else e)"
  by (simp_all add: catch_as_def)

lemma catch_as_Inr_iff [simp]: "catch_as p e' r = Inr a \<longleftrightarrow> r = Inr a"
  by (simp add: catch_as_def split: sum.splits)

lemma catch_as_Inl_iff: "catch_as p e' r = Inl x \<longleftrightarrow> (\<exists>e. r = Inl e \<and> x = (if p e then e' else e))"
  by (auto simp: catch_as_def split: sum.splits)

text \<open>\<open>raises_only E r\<close>: if \<open>r\<close> is an exception, it is one of \<open>E\<close>.\<close>

definition raises_only :: "exn set \<Rightarrow> 'a res \<Rightarrow> bool" where
  "raises_only E r \<longleftrightarrow> (\<forall>e. r = Inl e \<longrightarrow> e \<in> E)"

named_theorems raises_intros \<open>rules for the exceptions of a result\<close>

lemma raises_only_Inr [raises_intros]: "raises_only E (Inr a)"
  by (simp add: raises_only_def)

lemma raises_only_Inl [raises_intros]: "e \<in> E \<Longrightarrow> raises_only E (Inl e)"
  by (simp add: raises_only_def)

lemma raises_only_bind [raises_intros]:
  "raises_only E r \<Longrightarrow> (\<And>a. r = Inr a \<Longrightarrow> raises_only E (f a)) \<Longrightarrow> raises_only E (rbind r f)"
  by (cases r) (simp_all add: raises_only_def)

lemma raises_only_map [raises_intros]: "raises_only E r \<Longrightarrow> raises_only E (rmap f r)"
  by (cases r) (simp_all add: raises_only_def)

lemma raises_only_if [raises_intros]:
  "raises_only E r \<Longrightarrow> raises_only E s \<Longrightarrow> raises_only E (if b then r else s)"
  by simp

lemma raises_only_option [raises_intros]:
  "raises_only E r \<Longrightarrow> (\<And>a. v = Some a \<Longrightarrow> raises_only E (f a)) \<Longrightarrow>
   raises_only E (case v of None \<Rightarrow> r | Some a \<Rightarrow> f a)"
  by (cases v) simp_all

lemma raises_only_mono: "raises_only E r \<Longrightarrow> E \<subseteq> F \<Longrightarrow> raises_only F r"
  by (auto simp: raises_only_def)

lemma raises_onlyD: "raises_only E r \<Longrightarrow> r = Inl e \<Longrightarrow> e \<in> E"
  by (simp add: raises_only_def)

section \<open>Computations over a state\<close>

text \<open>
  A coroutine of the code is a function from the state of its world to a result and the
  new state. The state of everything done before an exception is kept, as it is in Python.
\<close>

type_synonym ('w, 'a) comp = "'w \<Rightarrow> 'a res \<times> 'w"

definition ret :: "'a \<Rightarrow> ('w, 'a) comp" where
  "ret a w = (Inr a, w)"

definition raise :: "exn \<Rightarrow> ('w, 'a) comp" where
  "raise e w = (Inl e, w)"

definition seq :: "('w, 'a) comp \<Rightarrow> ('a \<Rightarrow> ('w, 'b) comp) \<Rightarrow> ('w, 'b) comp" where
  "seq m f w = (case m w of (Inl e, w') \<Rightarrow> (Inl e, w') | (Inr a, w') \<Rightarrow> f a w')"

text \<open>\<open>for x in xs: f(x)\<close>\<close>

primrec for_each :: "('a \<Rightarrow> ('w, unit) comp) \<Rightarrow> 'a list \<Rightarrow> ('w, unit) comp" where
  "for_each f [] w = (Inr (), w)"
| "for_each f (x # xs) w = (case f x w of (Inl e, w') \<Rightarrow> (Inl e, w') | (Inr _, w') \<Rightarrow> for_each f xs w')"

named_theorems comp_simps \<open>unfolding rules of computations\<close>

lemmas [comp_simps] = ret_def raise_def seq_def

section \<open>Dictionaries\<close>

text \<open>
  A Python \<open>dict\<close> keeps its keys in order of first insertion: an association list with
  distinct keys. \<open>d[k] = v\<close> replaces in place or appends, \<open>d.pop(k, None)\<close> removes,
  \<open>d.get(k)\<close> looks up, \<open>d.values()\<close> lists the values in key order.
\<close>

type_synonym ('k, 'v) pydict = "('k \<times> 'v) list"

definition dict_empty :: "('k, 'v) pydict" where
  "dict_empty = []"

definition dict_set :: "'k \<Rightarrow> 'v \<Rightarrow> ('k, 'v) pydict \<Rightarrow> ('k, 'v) pydict" where
  "dict_set k v d = AList.update k v d"

definition dict_pop :: "'k \<Rightarrow> ('k, 'v) pydict \<Rightarrow> ('k, 'v) pydict" where
  "dict_pop k d = AList.delete k d"

definition dict_get :: "('k, 'v) pydict \<Rightarrow> 'k \<Rightarrow> 'v option" where
  "dict_get d k = map_of d k"

definition dict_values :: "('k, 'v) pydict \<Rightarrow> 'v list" where
  "dict_values d = map snd d"

definition dict_ok :: "('k, 'v) pydict \<Rightarrow> bool" where
  "dict_ok d \<longleftrightarrow> distinct (map fst d)"

text \<open>\<open>dict(pairs)\<close>: later pairs overwrite earlier ones in place.\<close>

definition dict_of_pairs :: "('k \<times> 'v) list \<Rightarrow> ('k, 'v) pydict" where
  "dict_of_pairs ps = fold (\<lambda>(k, v). dict_set k v) ps dict_empty"

named_theorems dict_simps \<open>rewrite rules of the dictionary operations\<close>

lemma dict_get_empty [simp, dict_simps]: "dict_get dict_empty k = None"
  by (simp add: dict_get_def dict_empty_def)

lemma dict_get_set [dict_simps]: "dict_get (dict_set k v d) = (dict_get d)(k \<mapsto> v)"
  by (auto simp: dict_get_def dict_set_def fun_eq_iff update_conv')

lemma dict_get_pop [dict_simps]: "dict_get (dict_pop k d) = (dict_get d)(k := None)"
  by (auto simp: dict_get_def dict_pop_def fun_eq_iff delete_conv')

lemma dict_ok_empty [simp]: "dict_ok dict_empty"
  by (simp add: dict_ok_def dict_empty_def)

lemma dict_ok_set [intro, simp]: "dict_ok d \<Longrightarrow> dict_ok (dict_set k v d)"
  by (simp add: dict_ok_def dict_set_def distinct_update)

lemma dict_ok_pop [intro, simp]: "dict_ok d \<Longrightarrow> dict_ok (dict_pop k d)"
  by (simp add: dict_ok_def dict_pop_def distinct_delete)

lemma dict_get_mem: "dict_ok d \<Longrightarrow> dict_get d k = Some v \<longleftrightarrow> (k, v) \<in> set d"
  by (simp add: dict_ok_def dict_get_def)

lemma dict_values_set: "dict_ok d \<Longrightarrow> set (dict_values d) = ran (dict_get d)"
  by (force simp: dict_values_def ran_def dict_get_mem)

lemma dict_of_pairs_snoc:
  "dict_of_pairs (ps @ [(k, v)]) = dict_set k v (dict_of_pairs ps)"
  by (simp add: dict_of_pairs_def)

lemma dict_ok_of_pairs [simp]: "dict_ok (dict_of_pairs ps)"
proof (induction ps rule: rev_induct)
  case Nil
  show ?case by (simp add: dict_of_pairs_def)
next
  case (snoc p ps)
  then show ?case by (cases p) (simp add: dict_of_pairs_snoc)
qed

lemma dict_of_pairs_distinct:
  assumes "distinct (map fst ps)"
  shows "dict_of_pairs ps = ps"
  using assms
proof (induction ps rule: rev_induct)
  case Nil
  show ?case by (simp add: dict_of_pairs_def dict_empty_def)
next
  case (snoc p ps)
  obtain k v where p: "p = (k, v)" by (cases p)
  have "AList.update k v qs = qs @ [(k, v)]" if "k \<notin> fst ` set qs" for qs
    using that by (induction qs) auto
  with snoc p show ?case
    by (simp add: dict_of_pairs_snoc dict_set_def)
qed

section \<open>Codecs\<close>

text \<open>
  The interface every encoding of the code has: \<open>enc\<close> is total, \<open>dec\<close> may fail, and
  decoding an encoded value of the domain returns it.
\<close>

locale codec =
  fixes enc :: "'a \<Rightarrow> 'b" and dec :: "'b \<Rightarrow> 'a res" and dom_ok :: "'a \<Rightarrow> bool"
  assumes dec_enc: "dom_ok x \<Longrightarrow> dec (enc x) = Inr x"
begin

lemma enc_inj: "dom_ok x \<Longrightarrow> dom_ok y \<Longrightarrow> enc x = enc y \<longleftrightarrow> x = y"
  using dec_enc by (metis sum.inject(2))

lemma dec_unique: "dom_ok x \<Longrightarrow> dec (enc x) = Inr y \<Longrightarrow> y = x"
  by (simp add: dec_enc)

lemma dec_total_on_range: "dom_ok x \<Longrightarrow> dec (enc x) \<noteq> Inl e"
  by (simp add: dec_enc)

end

section \<open>Lists\<close>

text \<open>\<open>s.split(sep)\<close> for a one-character separator.\<close>

fun split_on :: "'a \<Rightarrow> 'a list \<Rightarrow> 'a list list" where
  "split_on c [] = [[]]"
| "split_on c (x # xs) =
     (if x = c then [] # split_on c xs
      else case split_on c xs of [] \<Rightarrow> [[x]] | w # ws \<Rightarrow> (x # w) # ws)"

text \<open>\<open>sep.join(parts)\<close> for a one-character separator.\<close>

fun join_on :: "'a \<Rightarrow> 'a list list \<Rightarrow> 'a list" where
  "join_on c [] = []"
| "join_on c [w] = w"
| "join_on c (w # ws) = w @ c # join_on c ws"

lemma split_on_nonempty [simp]: "split_on c xs \<noteq> []"
  by (induction xs) (auto split: list.splits)

lemma split_on_no_sep: "w \<in> set (split_on c xs) \<Longrightarrow> c \<notin> set w"
proof (induction xs arbitrary: w)
  case (Cons x xs)
  then show ?case by (cases "split_on c xs") (auto split: if_splits)
qed simp

lemma split_on_word: "c \<notin> set w \<Longrightarrow> split_on c w = [w]"
  by (induction w) auto

lemma split_on_append:
  "c \<notin> set w \<Longrightarrow> split_on c (w @ c # xs) = w # split_on c xs"
  by (induction w) auto

lemma split_join:
  assumes "ws \<noteq> []" and "\<forall>w \<in> set ws. c \<notin> set w"
  shows "split_on c (join_on c ws) = ws"
  using assms
proof (induction c ws rule: join_on.induct)
  case (3 c w v vs)
  then show ?case by (simp add: split_on_append del: split_on.simps)
qed (auto simp: split_on_word)

lemma join_split: "join_on c (split_on c xs) = xs"
proof (induction xs)
  case (Cons x xs)
  obtain w ws where sp: "split_on c xs = w # ws"
    by (cases "split_on c xs") auto
  with Cons show ?case by (cases ws) auto
qed simp

text \<open>\<open>s.strip()\<close> over the code points in \<open>ws\<close>.\<close>

definition strip_by :: "('a \<Rightarrow> bool) \<Rightarrow> 'a list \<Rightarrow> 'a list" where
  "strip_by ws s = rev (dropWhile ws (rev (dropWhile ws s)))"

lemma strip_by_hd: "strip_by ws s \<noteq> [] \<Longrightarrow> \<not> ws (hd (strip_by ws s))"
proof -
  assume ne: "strip_by ws s \<noteq> []"
  obtain pre where pre: "dropWhile ws s = strip_by ws s @ pre"
    by (metis rev_append rev_rev_ident strip_by_def takeWhile_dropWhile_id)
  have "dropWhile ws s \<noteq> []"
    using ne pre by auto
  then have "\<not> ws (hd (dropWhile ws s))"
    by (rule hd_dropWhile)
  with ne pre show ?thesis by simp
qed

lemma strip_by_last: "strip_by ws s \<noteq> [] \<Longrightarrow> \<not> ws (last (strip_by ws s))"
  unfolding strip_by_def by (simp add: last_rev hd_dropWhile)

lemma strip_by_id: "s = [] \<or> \<not> ws (hd s) \<and> \<not> ws (last s) \<Longrightarrow> strip_by ws s = s"
  by (cases s) (auto simp: strip_by_def hd_rev hd_append dropWhile_eq_self_iff split: if_splits)

lemma strip_by_idem: "strip_by ws (strip_by ws s) = strip_by ws s"
  using strip_by_hd strip_by_last strip_by_id by metis

lemma set_strip_by: "set (strip_by ws s) \<subseteq> set s"
proof -
  have "set (dropWhile ws xs) \<subseteq> set xs" for xs
    by (auto dest: set_dropWhileD)
  then show ?thesis
    unfolding strip_by_def set_rev by (metis dual_order.trans set_rev)
qed

end
