(* ===== verification/Py_Codec.thy ===== *)
theory Py_Codec
  imports Prelude
begin

text \<open>
  The byte codecs of the Python standard library that the code calls: \<open>str.encode\<close> and
  \<open>bytes.decode\<close> (UTF-8), \<open>base64.b64encode\<close> and \<open>base64.b64decode\<close> in its lenient and
  its \<open>validate=True\<close> form (the loop of \<open>binascii.a2b_base64\<close>, Python 3.12), and
  \<open>base64.b32decode\<close>.
\<close>

section \<open>UTF-8\<close>

definition is_surrogate :: "nat \<Rightarrow> bool" where
  "is_surrogate c \<longleftrightarrow> 0xD800 \<le> c \<and> c < 0xE000"

definition byte :: "nat \<Rightarrow> 8 word" where
  "byte n = of_nat n"

lemma unat_byte [simp]: "n < 256 \<Longrightarrow> unat (byte n) = n"
  by (simp add: byte_def unat_of_nat)

lemma byte_unat [simp]: "byte (unat b) = b"
  by (simp add: byte_def)

lemma unat_lt_256 [simp]: "unat (b :: 8 word) < 256"
  using unsigned_less [of b] by simp

definition utf8_char :: "nat \<Rightarrow> bytes" where
  "utf8_char c =
     (if c < 0x80 then [byte c]
      else if c < 0x800 then [byte (0xC0 + c div 64), byte (0x80 + c mod 64)]
      else if c < 0x10000 then
        [byte (0xE0 + c div 4096), byte (0x80 + (c div 64) mod 64), byte (0x80 + c mod 64)]
      else [byte (0xF0 + c div 262144), byte (0x80 + (c div 4096) mod 64),
            byte (0x80 + (c div 64) mod 64), byte (0x80 + c mod 64)])"

text \<open>\<open>s.encode()\<close>: a lone surrogate has no UTF-8 form.\<close>

definition utf8_encode :: "pystr \<Rightarrow> bytes res" where
  "utf8_encode s =
     (if \<exists>c \<in> set s. is_surrogate c then Inl UnicodeEncodeError
      else Inr (concat (map utf8_char s)))"

definition cont :: "8 word \<Rightarrow> bool" where
  "cont b \<longleftrightarrow> 0x80 \<le> unat b \<and> unat b < 0xC0"

definition low6 :: "8 word \<Rightarrow> nat" where
  "low6 b = unat b mod 64"

text \<open>
  One character off the front of a byte string: \<open>None\<close> where the decoder raises. With
  \<open>pass\<close> (the error handler \<open>surrogatepass\<close>) a three-byte surrogate is let through.
\<close>

definition utf8_head :: "bool \<Rightarrow> bytes \<Rightarrow> (nat \<times> bytes) option" where
  "utf8_head pass bs = (case bs of
     [] \<Rightarrow> None
   | b # r \<Rightarrow>
       (if unat b < 0x80 then Some (unat b, r)
        else if 0xC2 \<le> unat b \<and> unat b < 0xE0 then
          (case r of c1 # r1 \<Rightarrow>
             if cont c1 then Some ((unat b - 0xC0) * 64 + low6 c1, r1) else None
           | _ \<Rightarrow> None)
        else if 0xE0 \<le> unat b \<and> unat b < 0xF0 then
          (case r of c1 # c2 # r2 \<Rightarrow>
             let c = (unat b - 0xE0) * 4096 + low6 c1 * 64 + low6 c2 in
             if cont c1 \<and> cont c2 \<and> 0x800 \<le> c \<and> (pass \<or> \<not> is_surrogate c)
             then Some (c, r2) else None
           | _ \<Rightarrow> None)
        else if 0xF0 \<le> unat b \<and> unat b < 0xF5 then
          (case r of c1 # c2 # c3 # r3 \<Rightarrow>
             let c = (unat b - 0xF0) * 262144 + low6 c1 * 4096 + low6 c2 * 64 + low6 c3 in
             if cont c1 \<and> cont c2 \<and> cont c3 \<and> 0x10000 \<le> c \<and> c < 0x110000
             then Some (c, r3) else None
           | _ \<Rightarrow> None)
        else None))"

lemma utf8_head_shorter: "utf8_head pass bs = Some (c, r) \<Longrightarrow> length r < length bs"
  by (auto simp: utf8_head_def Let_def split: list.splits if_splits)

function utf8_decode :: "bool \<Rightarrow> bytes \<Rightarrow> pystr res" where
  "utf8_decode pass bs =
     (if bs = [] then Inr []
      else case utf8_head pass bs of
        None \<Rightarrow> Inl UnicodeDecodeError
      | Some (c, r) \<Rightarrow> rmap (\<lambda>s. c # s) (utf8_decode pass r))"
  by pat_completeness auto
termination
  by (relation "measure (\<lambda>(p, bs). length bs)") (auto dest: utf8_head_shorter)

declare utf8_decode.simps [simp del]

lemma utf8_decode_Nil [simp]: "utf8_decode pass [] = Inr []"
  by (simp add: utf8_decode.simps)

definition code_point :: "nat \<Rightarrow> bool" where
  "code_point c \<longleftrightarrow> c < 0x110000"

lemma utf8_char_nonempty [simp]: "utf8_char c \<noteq> []"
  by (simp add: utf8_char_def)

lemma cont_byte [simp]: "n < 64 \<Longrightarrow> cont (byte (128 + n))"
  by (simp add: cont_def)

lemma low6_byte [simp]: "n < 64 \<Longrightarrow> low6 (byte (128 + n)) = n"
  by (simp add: low6_def mod_add_eq [symmetric, of 128])

lemma utf8_head2:
  "2 \<le> a \<Longrightarrow> a < 32 \<Longrightarrow> b < 64 \<Longrightarrow>
   utf8_head pass (byte (192 + a) # byte (128 + b) # r) = Some (a * 64 + b, r)"
  by (simp add: utf8_head_def)

lemma utf8_head3:
  "a < 16 \<Longrightarrow> b < 64 \<Longrightarrow> c < 64 \<Longrightarrow> 0x800 \<le> a * 4096 + b * 64 + c \<Longrightarrow>
   pass \<or> \<not> is_surrogate (a * 4096 + b * 64 + c) \<Longrightarrow>
   utf8_head pass (byte (224 + a) # byte (128 + b) # byte (128 + c) # r)
     = Some (a * 4096 + b * 64 + c, r)"
  by (simp add: utf8_head_def Let_def)

lemma utf8_head4:
  "a < 5 \<Longrightarrow> b < 64 \<Longrightarrow> c < 64 \<Longrightarrow> d < 64 \<Longrightarrow>
   0x10000 \<le> a * 262144 + b * 4096 + c * 64 + d \<Longrightarrow>
   a * 262144 + b * 4096 + c * 64 + d < 0x110000 \<Longrightarrow>
   utf8_head pass (byte (240 + a) # byte (128 + b) # byte (128 + c) # byte (128 + d) # r)
     = Some (a * 262144 + b * 4096 + c * 64 + d, r)"
  by (simp add: utf8_head_def Let_def)

lemma utf8_head_char:
  assumes cp: "code_point c" and sg: "pass \<or> \<not> is_surrogate c"
  shows "utf8_head pass (utf8_char c @ r) = Some (c, r)"
proof -
  have d2: "c div 64 * 64 + c mod 64 = c" by simp
  have e1: "c div 64 = c div 4096 * 64 + c div 64 mod 64"
    using div_mult2_eq [of c 64 64] div_mult_mod_eq [of "c div 64" 64] by simp
  have e2: "c div 4096 = c div 262144 * 64 + c div 4096 mod 64"
    using div_mult2_eq [of c 4096 64] div_mult_mod_eq [of "c div 4096" 64] by simp
  have d3: "c div 4096 * 4096 + c div 64 mod 64 * 64 + c mod 64 = c"
    using d2 e1 by linarith
  have d4: "c div 262144 * 262144 + c div 4096 mod 64 * 4096 + c div 64 mod 64 * 64 + c mod 64 = c"
    using d3 e2 by linarith
  consider "c < 0x80" | "0x80 \<le> c" "c < 0x800" | "0x800 \<le> c" "c < 0x10000" | "0x10000 \<le> c"
    by linarith
  then show ?thesis
  proof cases
    case 1
    then show ?thesis by (simp add: utf8_char_def utf8_head_def)
  next
    case 2
    then have "c div 64 < 32" "2 \<le> c div 64"
      using div_le_mono [of 128 c 64] by (simp_all add: less_mult_imp_div_less)
    from utf8_head2 [OF this(2,1), of "c mod 64" pass r] 2 d2 show ?thesis
      by (simp add: utf8_char_def)
  next
    case 3
    then have "c div 4096 < 16" by (simp add: less_mult_imp_div_less)
    from utf8_head3 [OF this, of "c div 64 mod 64" "c mod 64" pass r] 3 sg
    show ?thesis unfolding d3 by (simp add: utf8_char_def)
  next
    case 4
    with cp have "c div 262144 < 5" by (simp add: code_point_def less_mult_imp_div_less)
    from utf8_head4 [OF this, of "c div 4096 mod 64" "c div 64 mod 64" "c mod 64" pass r] 4 cp
    show ?thesis unfolding d4 by (simp add: utf8_char_def code_point_def)
  qed
qed

lemma utf8_decode_char:
  assumes "code_point c" and "pass \<or> \<not> is_surrogate c"
  shows "utf8_decode pass (utf8_char c @ r) = rmap (\<lambda>s. c # s) (utf8_decode pass r)"
  using utf8_head_char [OF assms] by (simp add: utf8_decode.simps [of pass "utf8_char c @ r"])

lemma utf8_decode_concat:
  "\<forall>c \<in> set s. code_point c \<and> \<not> is_surrogate c \<Longrightarrow>
   utf8_decode pass (concat (map utf8_char s)) = Inr s"
  by (induction s) (auto simp: utf8_decode_char)

text \<open>Strings of Unicode scalar values: what UTF-8 can carry.\<close>

definition scalar_str :: "pystr \<Rightarrow> bool" where
  "scalar_str s \<longleftrightarrow> (\<forall>c \<in> set s. code_point c \<and> \<not> is_surrogate c)"

definition utf8_bytes :: "pystr \<Rightarrow> bytes" where
  "utf8_bytes s = concat (map utf8_char s)"

lemma utf8_encode_scalar: "scalar_str s \<Longrightarrow> utf8_encode s = Inr (utf8_bytes s)"
  by (simp add: utf8_encode_def scalar_str_def utf8_bytes_def)

interpretation utf8: codec utf8_bytes "utf8_decode pass" scalar_str for pass
  by unfold_locales (simp add: utf8_bytes_def scalar_str_def utf8_decode_concat)

lemma scalar_Nil [simp]: "scalar_str []"
  by (simp add: scalar_str_def)

lemma scalar_str_ascii: "\<forall>c \<in> set s. c < 128 \<Longrightarrow> scalar_str s"
  by (force simp: scalar_str_def code_point_def is_surrogate_def)

lemma utf8_bytes_ascii: "\<forall>c \<in> set s. c < 128 \<Longrightarrow> utf8_bytes s = map byte s"
  by (induction s) (auto simp: utf8_bytes_def utf8_char_def)

section \<open>Base64\<close>

definition b64_char :: "nat \<Rightarrow> nat" where
  "b64_char v =
     (if v < 26 then 65 + v else if v < 52 then 71 + v else if v < 62 then v - 4
      else if v = 62 then 43 else 47)"

definition b64_val :: "nat \<Rightarrow> nat option" where
  "b64_val ch =
     (if 65 \<le> ch \<and> ch \<le> 90 then Some (ch - 65)
      else if 97 \<le> ch \<and> ch \<le> 122 then Some (ch - 71)
      else if 48 \<le> ch \<and> ch \<le> 57 then Some (ch + 4)
      else if ch = 43 then Some 62 else if ch = 47 then Some 63 else None)"

lemma b64_val_char [simp]: "v < 64 \<Longrightarrow> b64_val (b64_char v) = Some v"
  by (auto simp: b64_val_def b64_char_def)

lemma b64_char_not_pad [simp]: "v < 64 \<Longrightarrow> b64_char v \<noteq> 61"
  by (auto simp: b64_char_def)

lemma b64_char_ascii: "v < 64 \<Longrightarrow> b64_char v < 128"
  by (auto simp: b64_char_def)

text \<open>\<open>base64.b64encode(b).decode()\<close>: three octets to four characters, padded with \<open>=\<close>.\<close>

fun b64encode :: "bytes \<Rightarrow> pystr" where
  "b64encode [] = []"
| "b64encode [a] = [b64_char (unat a div 4), b64_char (unat a mod 4 * 16), 61, 61]"
| "b64encode [a, b] =
     [b64_char (unat a div 4), b64_char (unat a mod 4 * 16 + unat b div 16),
      b64_char (unat b mod 16 * 4), 61]"
| "b64encode (a # b # c # r) =
     b64_char (unat a div 4) # b64_char (unat a mod 4 * 16 + unat b div 16)
     # b64_char (unat b mod 16 * 4 + unat c div 64) # b64_char (unat c mod 64) # b64encode r"

text \<open>
  The decoding loop: \<open>qp\<close> is the position in the current group of four, \<open>lc\<close> the bits
  left over from the last character, \<open>pads\<close> the pad characters counted so far, \<open>ps\<close>
  whether padding has started. In strict mode a character outside the alphabet, data
  after the padding and discontinuous or leading padding are errors; otherwise they are
  skipped.
\<close>

fun a2b_loop :: "bool \<Rightarrow> nat \<Rightarrow> nat \<Rightarrow> nat \<Rightarrow> bool \<Rightarrow> pystr \<Rightarrow> bytes res" where
  "a2b_loop strict qp lc pads ps [] = (if qp \<noteq> 0 then Inl BinasciiError else Inr [])"
| "a2b_loop strict qp lc pads ps (ch # rest) =
     (if ch = 61 then
        (if qp \<ge> 2 \<and> qp + Suc pads \<ge> 4 then
           (if strict \<and> rest \<noteq> [] then Inl BinasciiError else Inr [])
         else a2b_loop strict qp lc (if qp \<ge> 2 then Suc pads else pads) True rest)
      else case b64_val ch of
        None \<Rightarrow> (if strict then Inl BinasciiError else a2b_loop strict qp lc pads ps rest)
      | Some v \<Rightarrow>
          (if strict \<and> ps then Inl BinasciiError
           else if qp = 0 then a2b_loop strict 1 v 0 ps rest
           else if qp = 1 then
             rmap (\<lambda>bs. byte (lc * 4 + v div 16) # bs) (a2b_loop strict 2 (v mod 16) 0 ps rest)
           else if qp = 2 then
             rmap (\<lambda>bs. byte (lc * 16 + v div 4) # bs) (a2b_loop strict 3 (v mod 4) 0 ps rest)
           else rmap (\<lambda>bs. byte (lc * 64 + v) # bs) (a2b_loop strict 0 0 0 ps rest)))"

text \<open>
  \<open>base64.b64decode(s, validate=strict)\<close> on a \<open>str\<close>: a non-ASCII character is a
  \<open>ValueError\<close> before anything is decoded.
\<close>

definition b64decode :: "bool \<Rightarrow> pystr \<Rightarrow> bytes res" where
  "b64decode strict s =
     (if \<exists>c \<in> set s. 128 \<le> c then Inl ValueErr
      else if strict \<and> s \<noteq> [] \<and> hd s = 61 then Inl BinasciiError
      else a2b_loop strict 0 0 0 False s)"

lemma b64_div [simp]:
  "unat (a :: 8 word) div 4 < 64" "unat (b :: 8 word) div 16 < 16" "unat (c :: 8 word) div 64 < 4"
  by (simp_all add: less_mult_imp_div_less)

lemma b64_div_div [simp]:
  "unat (b :: 8 word) div 16 div 16 = 0" "unat (b :: 8 word) div 16 mod 16 = unat b div 16"
  "unat (c :: 8 word) div 64 div 4 = 0" "unat (c :: 8 word) div 64 mod 4 = unat c div 64"
  by simp_all

lemma digit_lt: "(x :: nat) < m \<Longrightarrow> y < d \<Longrightarrow> k = m * d \<Longrightarrow> x * d + y < k"
proof -
  assume x: "x < m" and y: "y < d" and k: "k = m * d"
  have "x * d + y < Suc x * d" using y by simp
  also have "\<dots> \<le> m * d" using x by (intro mult_le_mono1) simp
  finally show "x * d + y < k" using k by simp
qed

lemma b64_six [simp]:
  "unat (a :: 8 word) mod 4 * 16 + unat (b :: 8 word) div 16 < 64"
  "unat b mod 16 * 4 + unat (c :: 8 word) div 64 < 64"
  "unat a mod 4 * 16 < 64" "unat b mod 16 * 4 < 64"
  using digit_lt [of "unat a mod 4" 4 0 16 64] digit_lt [of "unat b mod 16" 16 0 4 64]
  by (simp_all add: digit_lt [of "unat a mod 4" 4 _ 16 64] digit_lt [of "unat b mod 16" 16 _ 4 64])

lemma a2b_loop_b64encode: "a2b_loop strict 0 0 0 False (b64encode bs) = Inr bs"
  by (induction bs rule: b64encode.induct) simp_all

lemma b64encode_ascii: "c \<in> set (b64encode bs) \<Longrightarrow> c < 128"
  by (induction bs rule: b64encode.induct) (auto simp: b64_char_ascii)

lemma hd_b64encode: "b64encode bs \<noteq> [] \<Longrightarrow> hd (b64encode bs) \<noteq> 61"
  by (induction bs rule: b64encode.induct) auto

lemma b64decode_b64encode: "b64decode strict (b64encode bs) = Inr bs"
proof -
  have "\<not> (\<exists>c \<in> set (b64encode bs). 128 \<le> c)"
    using b64encode_ascii by (fastforce simp: linorder_not_le)
  then show ?thesis
    using hd_b64encode [of bs] by (auto simp: b64decode_def a2b_loop_b64encode)
qed

interpretation b64: codec b64encode "b64decode strict" "\<lambda>_. True" for strict
  by unfold_locales (rule b64decode_b64encode)

lemma scalar_py [simp]: "scalar_str (py s)"
proof -
  have "(of_char c :: nat) < 256" for c by (rule nat_of_char_less_256)
  then have "c < 256" if "c \<in> set (py s)" for c using that by (auto simp: py_def)
  then show ?thesis by (force simp: scalar_str_def code_point_def is_surrogate_def)
qed

lemma scalar_b64encode [simp]: "scalar_str (b64encode bs)"
  by (rule scalar_str_ascii) (auto dest: b64encode_ascii)

text \<open>Every failure of \<open>b64decode\<close> is a \<open>ValueError\<close>, so the code's handlers see it.\<close>

lemma a2b_loop_error: "a2b_loop strict qp lc pads ps s = Inl e \<Longrightarrow> e = BinasciiError"
  by (induction strict qp lc pads ps s rule: a2b_loop.induct)
     (auto simp: rmap_def rbind_Inl_iff split: if_splits option.splits)

lemma b64decode_error: "b64decode strict s = Inl e \<Longrightarrow> is_value_error e"
  by (auto simp: b64decode_def is_value_error_def dest: a2b_loop_error split: if_splits)

end
