(* ===== verification/Py_Json.thy ===== *)
theory Py_Json
  imports Py_Codec
begin

text \<open>
  \<open>json.loads\<close> and \<open>json.dumps\<close> of the Python standard library, at the level of bytes and
  code points: the encoding detection of \<open>json.loads\<close> on bytes, the strict string
  scanner, the number scanner, dictionaries whose later duplicate keys win, the default
  \<open>ensure_ascii\<close> printer, and the round trip of the two. Numbers with a fraction or an
  exponent keep their lexeme, since no code here computes with one; the limit of 4300
  digits on integer conversion is Python's default.
\<close>

section \<open>Values\<close>

datatype json =
    JNull
  | JBool bool
  | JInt int
  | JFloat pystr
  | JStr pystr
  | JList "json list"
  | JDict "(pystr \<times> json) list"

section \<open>Printing\<close>

definition hex_digit :: "nat \<Rightarrow> nat" where
  "hex_digit v = (if v < 10 then 48 + v else 87 + v)"

definition u_escape :: "nat \<Rightarrow> pystr" where
  "u_escape c = [92, 117, hex_digit (c div 4096 mod 16), hex_digit (c div 256 mod 16),
     hex_digit (c div 16 mod 16), hex_digit (c mod 16)]"

definition esc_char :: "nat \<Rightarrow> pystr" where
  "esc_char c =
     (if c = 34 then [92, 34] else if c = 92 then [92, 92]
      else if c = 10 then [92, 110] else if c = 13 then [92, 114]
      else if c = 9 then [92, 116] else if c = 12 then [92, 102] else if c = 8 then [92, 98]
      else if 32 \<le> c \<and> c \<le> 126 then [c]
      else if c < 0x10000 then u_escape c
      else u_escape (0xD800 + (c - 0x10000) div 1024) @ u_escape (0xDC00 + (c - 0x10000) mod 1024))"

definition quote_str :: "pystr \<Rightarrow> pystr" where
  "quote_str s = 34 # concat (map esc_char s) @ [34]"

fun nat_str :: "nat \<Rightarrow> pystr" where
  "nat_str n = (if n < 10 then [48 + n] else nat_str (n div 10) @ [48 + n mod 10])"

declare nat_str.simps [simp del]

definition int_str :: "int \<Rightarrow> pystr" where
  "int_str i = (if i < 0 then 45 # nat_str (nat (- i)) else nat_str (nat i))"

fun comma_sep :: "pystr list \<Rightarrow> pystr" where
  "comma_sep [] = []"
| "comma_sep [x] = x"
| "comma_sep (x # xs) = x @ [44, 32] @ comma_sep xs"

fun json_dumps :: "json \<Rightarrow> pystr" where
  "json_dumps JNull = py ''null''"
| "json_dumps (JBool b) = (if b then py ''true'' else py ''false'')"
| "json_dumps (JInt i) = int_str i"
| "json_dumps (JFloat s) = s"
| "json_dumps (JStr s) = quote_str s"
| "json_dumps (JList js) = 91 # comma_sep (map json_dumps js) @ [93]"
| "json_dumps (JDict ps) =
     123 # comma_sep (map (\<lambda>(k, v). quote_str k @ [58, 32] @ json_dumps v) ps) @ [125]"

text \<open>\<open>json.dumps(v).encode()\<close>: the printed text is ASCII, so encoding it cannot fail.\<close>

definition json_bytes :: "json \<Rightarrow> bytes" where
  "json_bytes j = utf8_bytes (json_dumps j)"

section \<open>Scanning\<close>

definition is_ws :: "nat \<Rightarrow> bool" where
  "is_ws c \<longleftrightarrow> c = 32 \<or> c = 9 \<or> c = 10 \<or> c = 13"

definition skip_ws :: "pystr \<Rightarrow> pystr" where
  "skip_ws s = dropWhile is_ws s"

definition first_is :: "nat \<Rightarrow> pystr \<Rightarrow> bool" where
  "first_is c s \<longleftrightarrow> s \<noteq> [] \<and> hd s = c"

lemma first_is_iff: "first_is c s \<longleftrightarrow> (\<exists>r. s = c # r)"
  by (cases s) (auto simp: first_is_def)

definition is_digit :: "nat \<Rightarrow> bool" where
  "is_digit c \<longleftrightarrow> 48 \<le> c \<and> c \<le> 57"

definition hex_val :: "nat \<Rightarrow> nat option" where
  "hex_val c = (if is_digit c then Some (c - 48)
     else if 97 \<le> c \<and> c \<le> 102 then Some (c - 87)
     else if 65 \<le> c \<and> c \<le> 70 then Some (c - 55) else None)"

definition hex4 :: "pystr \<Rightarrow> (nat \<times> pystr) option" where
  "hex4 s = (case s of a # b # c # d # r \<Rightarrow>
       (case (hex_val a, hex_val b, hex_val c, hex_val d) of
          (Some a, Some b, Some c, Some d) \<Rightarrow> Some (a * 4096 + b * 256 + c * 16 + d, r)
        | _ \<Rightarrow> None)
     | _ \<Rightarrow> None)"

definition unescape :: "nat \<Rightarrow> nat option" where
  "unescape e = map_of [(34, 34), (92, 92), (47, 47), (98, 8), (102, 12), (110, 10),
     (114, 13), (116, 9)] e"

definition is_high :: "nat \<Rightarrow> bool" where
  "is_high u \<longleftrightarrow> 0xD800 \<le> u \<and> u < 0xDC00"

definition is_low :: "nat \<Rightarrow> bool" where
  "is_low u \<longleftrightarrow> 0xDC00 \<le> u \<and> u < 0xE000"

text \<open>
  The character that starts after a backslash, and the text that follows it. A high
  surrogate escape directly followed by a low one is joined to one character.
\<close>

definition scan_escape :: "pystr \<Rightarrow> (nat \<times> pystr) option" where
  "scan_escape r = (case r of
     [] \<Rightarrow> None
   | e # r2 \<Rightarrow>
       (if e \<noteq> 117 then map_option (\<lambda>c. (c, r2)) (unescape e)
        else case hex4 r2 of
          None \<Rightarrow> None
        | Some (u, r3) \<Rightarrow>
            (if is_high u \<and> take 2 r3 = [92, 117] then
               (case hex4 (drop 2 r3) of
                  None \<Rightarrow> None
                | Some (u2, r5) \<Rightarrow>
                    (if is_low u2 then Some (0x10000 + (u - 0xD800) * 1024 + (u2 - 0xDC00), r5)
                     else Some (u, r3)))
             else Some (u, r3))))"

lemma hex4_shorter: "hex4 s = Some (u, r) \<Longrightarrow> length r < length s"
  by (auto simp: hex4_def split: list.splits option.splits)

lemma scan_escape_shorter: "scan_escape s = Some (u, r) \<Longrightarrow> length r < length s"
  by (auto simp: scan_escape_def split: list.splits option.splits if_splits prod.splits
      dest!: hex4_shorter)

function scanstring :: "pystr \<Rightarrow> (pystr \<times> pystr) res" where
  "scanstring s = (case s of
     [] \<Rightarrow> Inl JSONDecodeError
   | c # r \<Rightarrow>
       (if c = 34 then Inr ([], r)
        else if c < 32 then Inl JSONDecodeError
        else if c \<noteq> 92 then rmap (\<lambda>(t, r'). (c # t, r')) (scanstring r)
        else case scan_escape r of
          None \<Rightarrow> Inl JSONDecodeError
        | Some (u, r2) \<Rightarrow> rmap (\<lambda>(t, r'). (u # t, r')) (scanstring r2)))"
  by pat_completeness auto
termination
  by (relation "measure length") (auto dest: scan_escape_shorter)

declare scanstring.simps [simp del]

definition int_part :: "pystr \<Rightarrow> (pystr \<times> pystr) option" where
  "int_part s = (case s of
     [] \<Rightarrow> None
   | d # r \<Rightarrow> (if d = 48 then Some ([48], r)
       else if is_digit d then Some (takeWhile is_digit s, dropWhile is_digit s) else None))"

definition frac_part :: "pystr \<Rightarrow> pystr \<times> pystr" where
  "frac_part s = (case s of
     c # r \<Rightarrow> (if c = 46 \<and> takeWhile is_digit r \<noteq> []
                then (46 # takeWhile is_digit r, dropWhile is_digit r) else ([], s))
   | [] \<Rightarrow> ([], s))"

definition exp_part :: "pystr \<Rightarrow> pystr \<times> pystr" where
  "exp_part s = (case s of
     c # r \<Rightarrow>
       (let (sg, r2) = (case r of x # r' \<Rightarrow> if x = 43 \<or> x = 45 then ([x], r') else ([], r)
                                | [] \<Rightarrow> ([], r))
        in if (c = 101 \<or> c = 69) \<and> takeWhile is_digit r2 \<noteq> []
           then (c # sg @ takeWhile is_digit r2, dropWhile is_digit r2) else ([], s))
   | [] \<Rightarrow> ([], s))"

definition digits_val :: "pystr \<Rightarrow> nat" where
  "digits_val ds = foldl (\<lambda>a d. a * 10 + (d - 48)) 0 ds"

definition MAX_INT_DIGITS :: nat where
  "MAX_INT_DIGITS = 4300"

text \<open>A number at the head of the text; \<open>None\<close> where no number starts.\<close>

definition scan_number :: "pystr \<Rightarrow> (json \<times> pystr) res option" where
  "scan_number s =
     (let (sg, s1) = (case s of c # r \<Rightarrow> if c = 45 then ([45], r) else ([], s) | [] \<Rightarrow> ([], s))
      in case int_part s1 of
        None \<Rightarrow> None
      | Some (ds, r1) \<Rightarrow>
          (let (fr, r2) = frac_part r1; (ex, r3) = exp_part r2
           in if fr = [] \<and> ex = [] then
                (if length ds > MAX_INT_DIGITS then Some (Inl ValueErr)
                 else Some (Inr (JInt (if sg = [] then int (digits_val ds)
                                       else - int (digits_val ds)), r3)))
              else Some (Inr (JFloat (sg @ ds @ fr @ ex), r3))))"

definition strip_lit :: "string \<Rightarrow> pystr \<Rightarrow> pystr option" where
  "strip_lit w s = (if take (length w) s = py w then Some (drop (length w) s) else None)"

definition scan_const :: "pystr \<Rightarrow> (json \<times> pystr) option" where
  "scan_const s =
     (case strip_lit ''null'' s of Some r \<Rightarrow> Some (JNull, r) | None \<Rightarrow>
      case strip_lit ''true'' s of Some r \<Rightarrow> Some (JBool True, r) | None \<Rightarrow>
      case strip_lit ''false'' s of Some r \<Rightarrow> Some (JBool False, r) | None \<Rightarrow> None)"

definition scan_special :: "pystr \<Rightarrow> (json \<times> pystr) option" where
  "scan_special s =
     (case strip_lit ''NaN'' s of Some r \<Rightarrow> Some (JFloat (py ''NaN''), r) | None \<Rightarrow>
      case strip_lit ''Infinity'' s of Some r \<Rightarrow> Some (JFloat (py ''Infinity''), r) | None \<Rightarrow>
      case strip_lit ''-Infinity'' s of Some r \<Rightarrow> Some (JFloat (py ''-Infinity''), r)
      | None \<Rightarrow> None)"

definition scan_atom :: "pystr \<Rightarrow> (json \<times> pystr) res" where
  "scan_atom s = (case scan_const s of Some x \<Rightarrow> Inr x | None \<Rightarrow>
     case scan_number s of Some res \<Rightarrow> res | None \<Rightarrow>
     case scan_special s of Some x \<Rightarrow> Inr x | None \<Rightarrow> Inl JSONDecodeError)"

text \<open>
  \<open>scan_once\<close>, the items of an array and the members of an object. The first argument
  bounds the nesting of calls; \<open>scan_fuel\<close> below shows how much is enough.
\<close>

fun scan_once :: "nat \<Rightarrow> pystr \<Rightarrow> (json \<times> pystr) res"
and scan_items :: "nat \<Rightarrow> pystr \<Rightarrow> (json list \<times> pystr) res"
and scan_members :: "nat \<Rightarrow> pystr \<Rightarrow> ((pystr \<times> json) list \<times> pystr) res" where
  "scan_once 0 s = Inl FuelExhausted"
| "scan_once (Suc n) s = (case s of
     [] \<Rightarrow> Inl JSONDecodeError
   | c # r \<Rightarrow>
       (if c = 34 then rmap (\<lambda>(t, r'). (JStr t, r')) (scanstring r)
        else if c = 123 then
          (if first_is 125 (skip_ws r) then Inr (JDict [], tl (skip_ws r))
           else rmap (\<lambda>(ps, r'). (JDict (dict_of_pairs ps), r')) (scan_members n (skip_ws r)))
        else if c = 91 then
          (if first_is 93 (skip_ws r) then Inr (JList [], tl (skip_ws r))
           else rmap (\<lambda>(vs, r'). (JList vs, r')) (scan_items n (skip_ws r)))
        else scan_atom s))"
| "scan_items 0 s = Inl FuelExhausted"
| "scan_items (Suc n) s = rbind (scan_once n s) (\<lambda>(v, r).
     case skip_ws r of
       [] \<Rightarrow> Inl JSONDecodeError
     | c # r' \<Rightarrow>
         (if c = 93 then Inr ([v], r')
          else if c = 44 then rmap (\<lambda>(vs, r''). (v # vs, r'')) (scan_items n (skip_ws r'))
          else Inl JSONDecodeError))"
| "scan_members 0 s = Inl FuelExhausted"
| "scan_members (Suc n) s = (case s of
     [] \<Rightarrow> Inl JSONDecodeError
   | c # r \<Rightarrow>
       (if c \<noteq> 34 then Inl JSONDecodeError
        else rbind (scanstring r) (\<lambda>(k, r1).
          if \<not> first_is 58 (skip_ws r1) then Inl JSONDecodeError
          else rbind (scan_once n (skip_ws (tl (skip_ws r1)))) (\<lambda>(v, r3).
            case skip_ws r3 of
              [] \<Rightarrow> Inl JSONDecodeError
            | c' # r' \<Rightarrow>
                (if c' = 125 then Inr ([(k, v)], r')
                 else if c' = 44 then
                   rmap (\<lambda>(ps, r''). ((k, v) # ps, r'')) (scan_members n (skip_ws r'))
                 else Inl JSONDecodeError)))))"

definition scan_fuel :: "pystr \<Rightarrow> nat" where
  "scan_fuel s = 2 * length s + 2"

definition json_loads_str :: "pystr \<Rightarrow> json res" where
  "json_loads_str s = rbind (scan_once (scan_fuel (skip_ws s)) (skip_ws s))
     (\<lambda>(v, r). if skip_ws r = [] then Inr v else Inl JSONDecodeError)"

section \<open>Bytes to text\<close>

datatype encoding = Utf8 | Utf8Sig | Utf16 | Utf16BE | Utf16LE | Utf32 | Utf32BE | Utf32LE

definition starts_bytes :: "nat list \<Rightarrow> bytes \<Rightarrow> bool" where
  "starts_bytes ns bs \<longleftrightarrow> take (length ns) (map unat bs) = ns"

text \<open>\<open>json.detect_encoding\<close>: the byte order mark, or the pattern of zero bytes.\<close>

definition detect_encoding :: "bytes \<Rightarrow> encoding" where
  "detect_encoding b =
     (if starts_bytes [0, 0, 0xFE, 0xFF] b \<or> starts_bytes [0xFF, 0xFE, 0, 0] b then Utf32
      else if starts_bytes [0xFE, 0xFF] b \<or> starts_bytes [0xFF, 0xFE] b then Utf16
      else if starts_bytes [0xEF, 0xBB, 0xBF] b then Utf8Sig
      else if length b \<ge> 4 then
        (if b ! 0 = 0 then (if b ! 1 \<noteq> 0 then Utf16BE else Utf32BE)
         else if b ! 1 = 0 then (if b ! 2 \<noteq> 0 \<or> b ! 3 \<noteq> 0 then Utf16LE else Utf32LE)
         else Utf8)
      else if length b = 2 then
        (if b ! 0 = 0 then Utf16BE else if b ! 1 = 0 then Utf16LE else Utf8)
      else Utf8)"

fun units16 :: "bool \<Rightarrow> bytes \<Rightarrow> pystr res" where
  "units16 be [] = Inr []"
| "units16 be [x] = Inl UnicodeDecodeError"
| "units16 be (x # y # r) = rmap (\<lambda>us. (if be then unat x * 256 + unat y
     else unat y * 256 + unat x) # us) (units16 be r)"

fun join16 :: "pystr \<Rightarrow> pystr" where
  "join16 (h # l # r) = (if is_high h \<and> is_low l
     then (0x10000 + (h - 0xD800) * 1024 + (l - 0xDC00)) # join16 r else h # join16 (l # r))"
| "join16 us = us"

definition utf16_decode :: "bool \<Rightarrow> bytes \<Rightarrow> pystr res" where
  "utf16_decode be bs = rmap join16 (units16 be bs)"

fun utf32_decode :: "bool \<Rightarrow> bytes \<Rightarrow> pystr res" where
  "utf32_decode be [] = Inr []"
| "utf32_decode be (a # b # c # d # r) =
     (let u = (if be then unat a * 16777216 + unat b * 65536 + unat c * 256 + unat d
               else unat d * 16777216 + unat c * 65536 + unat b * 256 + unat a)
      in if u < 0x110000 then rmap (\<lambda>us. u # us) (utf32_decode be r)
         else Inl UnicodeDecodeError)"
| "utf32_decode be bs = Inl UnicodeDecodeError"

text \<open>\<open>b.decode(detect_encoding(b), 'surrogatepass')\<close>.\<close>

definition decode_text :: "bytes \<Rightarrow> pystr res" where
  "decode_text b = (case detect_encoding b of
     Utf8 \<Rightarrow> utf8_decode True b
   | Utf8Sig \<Rightarrow> utf8_decode True (drop 3 b)
   | Utf16 \<Rightarrow> utf16_decode (starts_bytes [0xFE, 0xFF] b) (drop 2 b)
   | Utf16BE \<Rightarrow> utf16_decode True b
   | Utf16LE \<Rightarrow> utf16_decode False b
   | Utf32 \<Rightarrow> utf32_decode (starts_bytes [0, 0, 0xFE, 0xFF] b) (drop 4 b)
   | Utf32BE \<Rightarrow> utf32_decode True b
   | Utf32LE \<Rightarrow> utf32_decode False b)"

definition json_loads :: "bytes \<Rightarrow> json res" where
  "json_loads b = rbind (decode_text b) json_loads_str"

section \<open>Enough fuel\<close>

lemma skip_ws_length: "length (skip_ws s) \<le> length s"
  by (simp add: skip_ws_def length_dropWhile_le)

lemma drop_digits_length: "length (dropWhile is_digit r) \<le> length r"
  by (rule length_dropWhile_le)

lemma scanstring_Nil [simp]: "scanstring [] = Inl JSONDecodeError"
  by (subst scanstring.simps) simp

lemma scanstring_Cons [simp]: "scanstring (c # r) =
    (if c = 34 then Inr ([], r)
     else if c < 32 then Inl JSONDecodeError
     else if c \<noteq> 92 then rmap (\<lambda>(t, r'). (c # t, r')) (scanstring r)
     else case scan_escape r of
       None \<Rightarrow> Inl JSONDecodeError
     | Some (u, r2) \<Rightarrow> rmap (\<lambda>(t, r'). (u # t, r')) (scanstring r2))"
  by (subst scanstring.simps) simp

lemma scanstring_induct [case_names Nil Cons]:
  assumes "P []"
    and "\<And>c r. (\<And>s. length s \<le> length r \<Longrightarrow> P s) \<Longrightarrow> P (c # r)"
  shows "P s"
proof (induction s rule: length_induct)
  case (1 s)
  with assms show ?case by (cases s) (auto simp: less_Suc_eq_le)
qed

lemma scanstring_shorter: "scanstring s = Inr (t, r) \<Longrightarrow> length r < length s"
proof (induction s arbitrary: t rule: scanstring_induct)
  case (Cons c cs)
  have IH: "length r < length x" if "scanstring x = Inr (t', r)" "length x \<le> length cs" for x t'
    using Cons.IH that by blast
  show ?case
  proof (cases "c = 92")
    case True
    with Cons.prems obtain u x t' where "scan_escape cs = Some (u, x)" "scanstring x = Inr (t', r)"
      by (auto simp: rmap_Inr_iff split: option.splits)
    with IH [of x t'] show ?thesis by (auto dest: scan_escape_shorter)
  next
    case False
    with Cons.prems IH [of cs] show ?thesis
      by (auto simp: rmap_Inr_iff less_Suc_eq split: if_splits)
  qed
qed simp

lemma scanstring_error: "scanstring s = Inl e \<Longrightarrow> e = JSONDecodeError"
proof (induction s rule: scanstring_induct)
  case (Cons c cs)
  have IH: "e = JSONDecodeError" if "scanstring x = Inl e" "length x \<le> length cs" for x
    using Cons.IH that by blast
  show ?case
  proof (cases "c = 92")
    case True
    with Cons.prems have "e = JSONDecodeError \<or>
        (\<exists>u x. scan_escape cs = Some (u, x) \<and> scanstring x = Inl e)"
      by (auto simp: rmap_def rbind_Inl_iff split: option.splits)
    then show ?thesis by (auto dest: IH scan_escape_shorter less_imp_le)
  next
    case False
    with Cons.prems IH [of cs] show ?thesis
      by (auto simp: rmap_def rbind_Inl_iff split: if_splits)
  qed
qed simp

lemma int_part_shorter: "int_part s = Some (ds, r) \<Longrightarrow> length r < length s"
  by (auto simp: int_part_def drop_digits_length le_imp_less_Suc split: list.splits if_splits)

lemma frac_part_length: "length (snd (frac_part s)) \<le> length s"
  by (cases s) (simp_all add: frac_part_def drop_digits_length le_SucI)

lemma exp_part_length: "length (snd (exp_part s)) \<le> length s"
proof (cases s)
  case (Cons c r)
  show ?thesis
  proof (cases r)
    case Nil
    with Cons show ?thesis by (simp add: exp_part_def)
  next
    case (Cons d r')
    with \<open>s = c # r\<close> show ?thesis
      using drop_digits_length [of r'] drop_digits_length [of "d # r'"]
      by (simp add: exp_part_def)
  qed
qed (simp add: exp_part_def)

lemma scan_number_shorter:
  assumes "scan_number s = Some (Inr (v, r))"
  shows "length r < length s"
proof -
  define s1 where "s1 = snd (case s of c # r \<Rightarrow> if c = 45 then ([45 :: nat], r) else ([], s) | [] \<Rightarrow> ([], s))"
  have l1: "length s1 \<le> length s"
    by (cases s) (simp_all add: s1_def)
  obtain ds r1 where ip: "int_part s1 = Some (ds, r1)" and "r = snd (exp_part (snd (frac_part r1)))"
    using assms unfolding scan_number_def s1_def
    by (auto simp: Let_def split: option.splits prod.splits if_splits)
  with int_part_shorter [OF ip] frac_part_length [of r1] exp_part_length [of "snd (frac_part r1)"] l1
  show ?thesis by simp
qed

lemma strip_lit_shorter: "strip_lit w s = Some r \<Longrightarrow> w \<noteq> [] \<Longrightarrow> length r < length s"
  by (cases s; cases w) (auto simp: strip_lit_def split: if_splits)

lemma scan_atom_shorter: "scan_atom s = Inr (v, r) \<Longrightarrow> length r < length s"
  by (auto simp: scan_atom_def scan_const_def scan_special_def
      split: option.splits dest: strip_lit_shorter scan_number_shorter)

lemma scan_atom_error: "scan_atom s = Inl e \<Longrightarrow> e = JSONDecodeError \<or> e = ValueErr"
  by (auto simp: scan_atom_def scan_number_def Let_def
      split: option.splits if_splits prod.splits)
lemma skip_ws_le: "skip_ws s = c # r \<Longrightarrow> length r < length s"
  using skip_ws_length [of s] by simp

lemma scan_members_InrE:
  assumes f: "scan_members (Suc n) s = Inr (ps, r)"
  obtains cs k r1 r2 v r3 c' r' where "s = 34 # cs" "scanstring cs = Inr (k, r1)"
    "skip_ws r1 = 58 # r2" "scan_once n (skip_ws r2) = Inr (v, r3)" "skip_ws r3 = c' # r'"
    "c' = 125 \<and> r = r' \<and> ps = [(k, v)] \<or>
     c' = 44 \<and> (\<exists>ps'. scan_members n (skip_ws r') = Inr (ps', r) \<and> ps = (k, v) # ps')"
proof -
  obtain cs where s: "s = 34 # cs"
    using f by (auto split: list.splits if_splits)
  obtain k r1 where k: "scanstring cs = Inr (k, r1)"
    using f s by (cases "scanstring cs") auto
  obtain r2 where r2: "skip_ws r1 = 58 # r2"
    using f s k by (auto simp: first_is_iff split: if_splits)
  obtain v r3 where v: "scan_once n (skip_ws r2) = Inr (v, r3)"
    using f s k r2 by (cases "scan_once n (skip_ws r2)") (auto simp: first_is_def)
  obtain c' r' where r': "skip_ws r3 = c' # r'"
    using f s k r2 v by (cases "skip_ws r3") (auto simp: first_is_def)
  have "c' = 125 \<and> r = r' \<and> ps = [(k, v)] \<or>
     c' = 44 \<and> (\<exists>ps'. scan_members n (skip_ws r') = Inr (ps', r) \<and> ps = (k, v) # ps')"
    using f s k r2 v r' by (auto simp: first_is_def rmap_Inr_iff split: if_splits)
  with s k r2 v r' show thesis by (rule that)
qed

lemma scan_shorter:
  "scan_once n s = Inr (v, r) \<Longrightarrow> length r < length s"
  "scan_items n s = Inr (vs, r) \<Longrightarrow> length r < length s"
  "scan_members n s = Inr (ps, r) \<Longrightarrow> length r < length s"
proof (induction n s and n s and n s arbitrary: v r and vs r and ps r
    rule: scan_once_scan_items_scan_members.induct)
  case (2 n s)
  show ?case
  proof (cases s)
    case (Cons c cs)
    have "length r < Suc (length cs)" if "length r < length (skip_ws cs)"
      using that skip_ws_length [of cs] by simp
    moreover have "length (tl (skip_ws cs)) < Suc (length cs)"
      using skip_ws_length [of cs] by simp
    ultimately show ?thesis using 2 Cons
      by (auto simp: rmap_Inr_iff less_SucI split: if_splits
          dest: scanstring_shorter scan_atom_shorter skip_ws_le)
  qed (use 2 in simp)
next
  case (4 n s)
  from "4.prems" obtain v1 r1 where a: "scan_once n s = Inr (v1, r1)"
    and b: "(case skip_ws r1 of [] \<Rightarrow> Inl JSONDecodeError
       | c # r' \<Rightarrow> if c = 93 then Inr ([v1], r')
          else if c = 44 then rmap (\<lambda>(vs, r''). (v1 # vs, r'')) (scan_items n (skip_ws r'))
          else Inl JSONDecodeError) = Inr (vs, r)"
    by (auto simp: rbind_Inr_iff)
  from "4.IH"(1) [OF a] have l1: "length r1 < length s" .
  from b obtain c r' where c: "skip_ws r1 = c # r'" by (auto split: list.splits)
  then have l2: "length r' < length r1" by (rule skip_ws_le)
  show ?case
  proof (cases "c = 93")
    case True
    with b c l1 l2 show ?thesis by auto
  next
    case False
    with b c obtain vs' where "scan_items n (skip_ws r') = Inr (vs', r)" "c = 44"
      by (auto simp: rmap_Inr_iff split: if_splits)
    then have "length r < length (skip_ws r')"
      using "4.IH"(2) [where xa = r1] c False by simp
    with skip_ws_length [of r'] l1 l2 show ?thesis by simp
  qed
next
  case (6 n s)
  from "6.prems" obtain cs k r1 r2 v r3 c' r' where s: "s = 34 # cs"
    and k: "scanstring cs = Inr (k, r1)" and r2: "skip_ws r1 = 58 # r2"
    and v: "scan_once n (skip_ws r2) = Inr (v, r3)" and r': "skip_ws r3 = c' # r'"
    and c': "c' = 125 \<and> r = r' \<and> ps = [(k, v)] \<or>
     c' = 44 \<and> (\<exists>ps'. scan_members n (skip_ws r') = Inr (ps', r) \<and> ps = (k, v) # ps')"
    by (rule scan_members_InrE)
  have "length r1 < length cs" using k by (rule scanstring_shorter)
  moreover have "length r2 < length r1" using r2 by (rule skip_ws_le)
  moreover have "length r3 < length (skip_ws r2)" 
    using "6.IH"(1) [where xa = r1] s r2 v by (simp add: first_is_def)
  moreover have "length r' < length r3" using r' by (rule skip_ws_le)
  moreover have "length r \<le> length r'"
  proof (cases "c' = 125")
    case False
    with c' obtain ps' where m: "scan_members n (skip_ws r') = Inr (ps', r)" and c44: "c' = 44"
      by blast
    have "length r < length (skip_ws r')"
      using "6.IH"(2) [where xa = r1 and xab = r3] s r2 r' m c44 by (simp add: first_is_def)
    then show ?thesis using skip_ws_length [of r'] by simp
  qed (use c' in simp)
  ultimately show ?case using s skip_ws_length [of r2] by simp
qed (simp_all)

lemma scan_enough:
  "2 * length s + 1 \<le> n \<Longrightarrow> scan_once n s \<noteq> Inl FuelExhausted"
  "2 * length s + 2 \<le> n \<Longrightarrow> scan_items n s \<noteq> Inl FuelExhausted"
  "2 * length s + 2 \<le> n \<Longrightarrow> scan_members n s \<noteq> Inl FuelExhausted"
proof (induction n s and n s and n s rule: scan_once_scan_items_scan_members.induct)
  case (2 n s)
  show ?case
  proof (cases s)
    case (Cons c cs)
    with "2.prems" have "2 * length (skip_ws cs) + 2 \<le> n"
      using skip_ws_length [of cs] by simp
    with 2 Cons show ?thesis
      by (auto simp: rmap_def rbind_Inl_iff split: if_splits
          dest: scanstring_error scan_atom_error)
  qed simp
next
  case (4 n s)
  have "scan_items n (skip_ws r') \<noteq> Inl FuelExhausted"
    if "scan_once n s = Inr (v, r)" "skip_ws r = 44 # r'" for v r r'
  proof -
    have "2 * length (skip_ws r') + 2 \<le> n"
      using "4.prems" scan_shorter(1) [OF that(1)] skip_ws_le [OF that(2)] skip_ws_length [of r']
      by simp
    with "4.IH"(2) that show ?thesis by force
  qed
  moreover have "scan_once n s \<noteq> Inl FuelExhausted"
    using "4.IH"(1) "4.prems" by simp
  ultimately show ?case
    by (auto simp: rmap_def rbind_Inl_iff split: if_splits list.splits)
next
  case (6 n s)
  show ?case
  proof
    assume "scan_members (Suc n) s = Inl FuelExhausted"
    note f = this
    obtain cs where s: "s = 34 # cs"
      using f by (auto split: list.splits if_splits)
    obtain k r1 where k: "scanstring cs = Inr (k, r1)"
      using f s by (cases "scanstring cs") (auto dest: scanstring_error)
    obtain r2 where r2: "skip_ws r1 = 58 # r2"
      using f s k by (auto simp: first_is_iff split: if_splits)
    have len: "length (skip_ws r2) + 2 \<le> length s"
      using s scanstring_shorter [OF k] skip_ws_le [OF r2] skip_ws_length [of r2] by simp
    have "scan_once n (skip_ws r2) \<noteq> Inl FuelExhausted"
      using "6.IH"(1) [where xa = r1] "6.prems" s r2 len by (simp add: first_is_def)
    then obtain v r3 where v: "scan_once n (skip_ws r2) = Inr (v, r3)"
      using f s k r2 by (cases "scan_once n (skip_ws r2)") (auto simp: first_is_def)
    obtain c' r' where r': "skip_ws r3 = c' # r'"
      using f s k r2 v by (cases "skip_ws r3") (auto simp: first_is_def)
    have c': "c' = 44"
      using f s k r2 v r' by (auto simp: first_is_def split: if_splits)
    have m: "scan_members n (skip_ws r') = Inl FuelExhausted"
      using f s k r2 v r' c' by (auto simp: first_is_def rmap_def rbind_Inl_iff)
    have "length (skip_ws r') + 2 \<le> length s"
      using len scan_shorter(1) [OF v] skip_ws_le [OF r'] skip_ws_length [of r'] by simp
    then have "scan_members n (skip_ws r') \<noteq> Inl FuelExhausted"
      using "6.prems" "6.IH"(2) [where xa = r1 and xab = r3] s r2 r' c' by (simp add: first_is_def)
    with m show False by simp
  qed
qed simp_all

lemma rmap_Inl_iff [simp]: "rmap f x = Inl e \<longleftrightarrow> x = Inl e"
  by (cases x) auto

lemma scan_Suc:
  "(scan_once n s \<noteq> Inl FuelExhausted \<longrightarrow> scan_once (Suc n) s = scan_once n s) \<and>
   (scan_items n s \<noteq> Inl FuelExhausted \<longrightarrow> scan_items (Suc n) s = scan_items n s) \<and>
   (scan_members n s \<noteq> Inl FuelExhausted \<longrightarrow> scan_members (Suc n) s = scan_members n s)"
proof (induction n arbitrary: s)
  case 0
  show ?case by simp
next
  case (Suc n)
  have o: "scan_once n x \<noteq> Inl FuelExhausted \<Longrightarrow> scan_once (Suc n) x = scan_once n x" for x
    using Suc by blast
  have i: "scan_items n x \<noteq> Inl FuelExhausted \<Longrightarrow> scan_items (Suc n) x = scan_items n x" for x
    using Suc by blast
  have m: "scan_members n x \<noteq> Inl FuelExhausted \<Longrightarrow> scan_members (Suc n) x = scan_members n x" for x
    using Suc by blast
  note once = scan_once.simps(2) [of "Suc n" s] scan_once.simps(2) [of n s]
    and items = scan_items.simps(2) [of "Suc n" s] scan_items.simps(2) [of n s]
    and members = scan_members.simps(2) [of "Suc n" s] scan_members.simps(2) [of n s]
  have "scan_once (Suc n) s \<noteq> Inl FuelExhausted \<longrightarrow> scan_once (Suc (Suc n)) s = scan_once (Suc n) s"
    unfolding once by (cases s) (auto simp: i m simp del: scan_items.simps scan_members.simps)
  moreover have "scan_items (Suc n) s \<noteq> Inl FuelExhausted \<longrightarrow>
      scan_items (Suc (Suc n)) s = scan_items (Suc n) s"
  proof
    assume a: "scan_items (Suc n) s \<noteq> Inl FuelExhausted"
    then have "scan_once n s \<noteq> Inl FuelExhausted" by auto
    with a show "scan_items (Suc (Suc n)) s = scan_items (Suc n) s"
      unfolding items
      by (cases "scan_once n s") (auto simp: o i split: list.splits
          simp del: scan_items.simps scan_once.simps)
  qed
  moreover have "scan_members (Suc n) s \<noteq> Inl FuelExhausted \<longrightarrow>
      scan_members (Suc (Suc n)) s = scan_members (Suc n) s"
  proof
    assume a: "scan_members (Suc n) s \<noteq> Inl FuelExhausted"
    show "scan_members (Suc (Suc n)) s = scan_members (Suc n) s"
    proof (cases s)
      case (Cons c cs)
      show ?thesis
      proof (cases "scanstring cs")
        case (Inr kr)
        obtain k r1 where kr: "kr = (k, r1)" by (cases kr)
        show ?thesis
        proof (cases "c = 34 \<and> first_is 58 (skip_ws r1)")
          case True
          let ?x = "skip_ws (tl (skip_ws r1))"
          have "scan_once n ?x \<noteq> Inl FuelExhausted"
            using a Cons Inr kr True by auto
          with a Cons Inr kr True show ?thesis
            unfolding members
            by (cases "scan_once n ?x") (auto simp: o m split: list.splits
                simp del: scan_members.simps scan_once.simps)
        qed (use Cons Inr kr in auto)
      qed (use Cons in simp)
    qed simp
  qed
  ultimately show ?case by blast
qed

lemma scan_once_mono:
  "scan_once n s = x \<Longrightarrow> x \<noteq> Inl FuelExhausted \<Longrightarrow> n \<le> m \<Longrightarrow> scan_once m s = x"
proof (induction m)
  case (Suc m)
  then show ?case using scan_Suc [of m s] by (cases "n = Suc m") auto
qed simp

lemma scan_items_mono:
  "scan_items n s = x \<Longrightarrow> x \<noteq> Inl FuelExhausted \<Longrightarrow> n \<le> m \<Longrightarrow> scan_items m s = x"
proof (induction m)
  case (Suc m)
  then show ?case using scan_Suc [of m s] by (cases "n = Suc m") auto
qed simp

lemma scan_members_mono:
  "scan_members n s = x \<Longrightarrow> x \<noteq> Inl FuelExhausted \<Longrightarrow> n \<le> m \<Longrightarrow> scan_members m s = x"
proof (induction m)
  case (Suc m)
  then show ?case using scan_Suc [of m s] by (cases "n = Suc m") auto
qed simp

lemma scan_fuel_enough:
  assumes "scan_once n s = Inr x"
  shows "scan_once (scan_fuel s) s = Inr x"
proof -
  have "scan_once (scan_fuel s) s \<noteq> Inl FuelExhausted"
    by (rule scan_enough) (simp add: scan_fuel_def)
  then have "scan_once (max n (scan_fuel s)) s = scan_once (scan_fuel s) s"
    using scan_once_mono [of "scan_fuel s" s _ "max n (scan_fuel s)"] by simp
  moreover have "scan_once (max n (scan_fuel s)) s = Inr x"
    using scan_once_mono [OF assms] by simp
  ultimately show ?thesis by simp
qed

lemma scan_items_InlD:
  "scan_items (Suc n) s = Inl e \<Longrightarrow>
   e = JSONDecodeError \<or> scan_once n s = Inl e \<or> (\<exists>x. scan_items n x = Inl e)"
  by (cases "scan_once n s") (auto split: list.splits if_splits)

lemma scan_members_InlD:
  assumes f: "scan_members (Suc n) s = Inl e"
  shows "e = JSONDecodeError \<or> (\<exists>x. scan_once n x = Inl e) \<or> (\<exists>x. scan_members n x = Inl e)"
proof (cases s)
  case (Cons c cs)
  show ?thesis
  proof (cases "scanstring cs")
    case (Inl a)
    with f Cons show ?thesis by (auto dest: scanstring_error split: if_splits)
  next
    case (Inr kr)
    obtain k r1 where kr: "kr = (k, r1)" by (cases kr)
    show ?thesis
    proof (cases "scan_once n (skip_ws (tl (skip_ws r1)))")
      case (Inl a)
      with f Cons Inr kr show ?thesis by (auto split: if_splits)
    next
      case (Inr vr)
      with f Cons \<open>scanstring cs = Inr kr\<close> kr show ?thesis
        by (auto split: if_splits list.splits prod.splits)
    qed
  qed
qed (use f in simp)

lemma scan_errors_all:
  "(\<forall>s e. scan_once n s = Inl e \<longrightarrow> e \<in> {JSONDecodeError, ValueErr, FuelExhausted}) \<and>
   (\<forall>s e. scan_items n s = Inl e \<longrightarrow> e \<in> {JSONDecodeError, ValueErr, FuelExhausted}) \<and>
   (\<forall>s e. scan_members n s = Inl e \<longrightarrow> e \<in> {JSONDecodeError, ValueErr, FuelExhausted})"
proof (induction n)
  case (Suc n)
  have "e \<in> {JSONDecodeError, ValueErr, FuelExhausted}" if "scan_once (Suc n) s = Inl e" for s e
    using that Suc
    by (cases s) (auto split: if_splits dest!: scanstring_error scan_atom_error
        simp del: scan_items.simps scan_members.simps)
  moreover have "e \<in> {JSONDecodeError, ValueErr, FuelExhausted}" if "scan_items (Suc n) s = Inl e" for s e
    using scan_items_InlD [OF that] Suc by blast
  moreover have "e \<in> {JSONDecodeError, ValueErr, FuelExhausted}" if "scan_members (Suc n) s = Inl e" for s e
    using scan_members_InlD [OF that] Suc by blast
  ultimately show ?case by blast
qed simp

lemmas scan_errors = scan_errors_all [THEN conjunct1, rule_format]

lemma utf8_decode_error: "utf8_decode p b = Inl e \<Longrightarrow> e = UnicodeDecodeError"
proof (induction p b rule: utf8_decode.induct)
  case (1 p b)
  then show ?case
    by (auto simp: utf8_decode.simps [of p b] split: if_splits option.splits)
qed

lemma units16_error: "units16 be b = Inl e \<Longrightarrow> e = UnicodeDecodeError"
  by (induction be b rule: units16.induct) auto

lemma utf32_decode_error: "utf32_decode be b = Inl e \<Longrightarrow> e = UnicodeDecodeError"
  by (induction be b rule: utf32_decode.induct) (auto simp: Let_def split: if_splits)

lemma decode_text_error: "decode_text b = Inl e \<Longrightarrow> e = UnicodeDecodeError"
  by (auto simp: decode_text_def utf16_decode_def split: encoding.splits
      dest: utf8_decode_error units16_error utf32_decode_error)

lemma json_loads_str_error: "json_loads_str s = Inl e \<Longrightarrow> e = JSONDecodeError \<or> e = ValueErr"
  using scan_enough(1) [of "skip_ws s" "scan_fuel (skip_ws s)"]
    scan_errors [of "scan_fuel (skip_ws s)" "skip_ws s" e]
  by (auto simp: json_loads_str_def rbind_Inl_iff scan_fuel_def split: if_splits
      simp del: scan_once.simps)

text \<open>Every failure of \<open>json.loads\<close> is one of three \<open>ValueError\<close>s.\<close>

lemma json_loads_error:
  "json_loads b = Inl e \<Longrightarrow> e = JSONDecodeError \<or> e = ValueErr \<or> e = UnicodeDecodeError"
  by (auto simp: json_loads_def rbind_Inl_iff dest: decode_text_error json_loads_str_error)

section \<open>Round trip\<close>

text \<open>
  The values whose printed form reads back: no floats, strings of Unicode scalar values,
  distinct keys, integers within the conversion limit. Every payload the code builds is one.
\<close>

fun json_ok :: "json \<Rightarrow> bool" where
  "json_ok JNull = True"
| "json_ok (JBool b) = True"
| "json_ok (JInt i) = (length (nat_str (nat \<bar>i\<bar>)) \<le> MAX_INT_DIGITS)"
| "json_ok (JFloat s) = False"
| "json_ok (JStr s) = scalar_str s"
| "json_ok (JList js) = (\<forall>j \<in> set js. json_ok j)"
| "json_ok (JDict ps) = (distinct (map fst ps) \<and> (\<forall>p \<in> set ps. scalar_str (fst p) \<and> json_ok (snd p)))"

lemma hex_val_digit [simp]: "v < 16 \<Longrightarrow> hex_val (hex_digit v) = Some v"
  by (auto simp: hex_val_def hex_digit_def is_digit_def)

lemma hex4_u_escape:
  assumes "c < 0x10000"
  shows "hex4 (hex_digit (c div 4096 mod 16) # hex_digit (c div 256 mod 16)
     # hex_digit (c div 16 mod 16) # hex_digit (c mod 16) # r) = Some (c, r)"
proof -
  have e1: "c div 16 * 16 + c mod 16 = c" by simp
  have e2: "c div 16 = c div 256 * 16 + c div 16 mod 16"
    using div_mult2_eq [of c 16 16] div_mult_mod_eq [of "c div 16" 16] by simp
  have e3: "c div 256 = c div 4096 * 16 + c div 256 mod 16"
    using div_mult2_eq [of c 256 16] div_mult_mod_eq [of "c div 256" 16] by simp
  have e4: "c div 4096 mod 16 = c div 4096"
    using assms by (simp add: less_mult_imp_div_less)
  have "c div 4096 * 4096 + c div 256 mod 16 * 256 + c div 16 mod 16 * 16 + c mod 16 = c"
    using e1 e2 e3 by linarith
  moreover have "c div 4096 < 16" using assms by (simp add: less_mult_imp_div_less)
  ultimately show ?thesis by (simp add: hex4_def e4)
qed

lemma scan_escape_u:
  assumes "c < 0x10000" and "\<not> is_high c"
  shows "scan_escape (tl (u_escape c) @ r) = Some (c, r)"
  using assms hex4_u_escape [of c r] by (simp add: scan_escape_def u_escape_def)

lemma scan_escape_pair:
  assumes "0x10000 \<le> c" and "code_point c"
  shows "scan_escape (tl (u_escape (0xD800 + (c - 0x10000) div 1024))
      @ u_escape (0xDC00 + (c - 0x10000) mod 1024) @ r) = Some (c, r)"
proof -
  define v where "v = c - 0x10000"
  have v: "v < 0x100000" using assms by (simp add: v_def code_point_def)
  then have q: "v div 1024 < 1024" by (simp add: less_mult_imp_div_less)
  have c: "c = 0x10000 + v" using assms by (simp add: v_def)
  have m: "v mod 1024 < 1024" by simp
  have vv: "v div 1024 * 1024 + v mod 1024 = v" by simp
  have hi: "0xD800 + v div 1024 < 0x10000" "is_high (0xD800 + v div 1024)"
    using q by (simp_all add: is_high_def)
  have lo: "0xDC00 + v mod 1024 < 0x10000" "is_low (0xDC00 + v mod 1024)"
    using m by (simp_all add: is_low_def)
  have "scan_escape (tl (u_escape (0xD800 + v div 1024)) @ u_escape (0xDC00 + v mod 1024) @ r)
      = Some (0x10000 + v div 1024 * 1024 + v mod 1024, r)"
    using hi lo
    by (simp add: scan_escape_def u_escape_def
        hex4_u_escape [of "0xD800 + v div 1024", simplified]
        hex4_u_escape [of "0xDC00 + v mod 1024", simplified])
  then show ?thesis unfolding v_def [symmetric] using vv c by simp
qed

lemma scanstring_esc:
  assumes "code_point c" and "\<not> is_surrogate c"
  shows "scanstring (esc_char c @ r) = rmap (\<lambda>(t, r'). (c # t, r')) (scanstring r)"
proof -
  have nh: "\<not> is_high c" using assms(2) by (auto simp: is_high_def is_surrogate_def)
  consider "c \<in> {34, 92, 10, 13, 9, 12, 8}" | "c \<notin> {34, 92, 10, 13, 9, 12, 8}" "32 \<le> c \<and> c \<le> 126"
    | "c \<notin> {34, 92, 10, 13, 9, 12, 8}" "\<not> (32 \<le> c \<and> c \<le> 126)" "c < 0x10000"
    | "0x10000 \<le> c"
    by linarith
  then show ?thesis
  proof cases
    case 1
    then show ?thesis by (auto simp: esc_char_def scan_escape_def unescape_def)
  next
    case 2
    then show ?thesis by (simp add: esc_char_def)
  next
    case 3
    have eq: "esc_char c @ r = 92 # (tl (u_escape c) @ r)"
      using 3 by (auto simp: esc_char_def u_escape_def)
    show ?thesis
      unfolding eq using scan_escape_u [OF 3(3) nh, of r]
      by (simp del: append.simps)
  next
    case 4
    let ?h = "u_escape (0xD800 + (c - 0x10000) div 1024)"
    let ?l = "u_escape (0xDC00 + (c - 0x10000) mod 1024)"
    have eq: "esc_char c @ r = 92 # (tl ?h @ ?l @ r)"
      using 4 by (simp add: esc_char_def u_escape_def)
    show ?thesis
      unfolding eq using scan_escape_pair [OF 4 assms(1), of r]
      by (simp del: append.simps)
  qed
qed

lemma scanstring_quote:
  "scalar_str s \<Longrightarrow> scanstring (concat (map esc_char s) @ 34 # r) = Inr (s, r)"
proof (induction s)
  case (Cons c s)
  then show ?case
    using scanstring_esc [of c "concat (map esc_char s) @ 34 # r"]
    by (simp add: scalar_str_def)
qed simp

lemma is_digit_nat_str: "d \<in> set (nat_str n) \<Longrightarrow> is_digit d"
proof (induction n rule: nat_str.induct)
  case (1 n)
  have "n mod 10 < 10" by simp
  with 1 show ?case
    by (subst (asm) nat_str.simps) (auto simp: is_digit_def split: if_splits)
qed

lemma nat_str_nonempty [simp]: "nat_str n \<noteq> []"
  by (subst nat_str.simps) simp

lemma nat_str_hd: "0 < n \<Longrightarrow> hd (nat_str n) \<noteq> 48"
proof (induction n rule: nat_str.induct)
  case (1 n)
  then show ?case by (subst nat_str.simps) auto
qed

lemma digits_val_snoc: "digits_val (ds @ [d]) = digits_val ds * 10 + (d - 48)"
  by (simp add: digits_val_def)

lemma digits_val_nat_str: "digits_val (nat_str n) = n"
proof (induction n rule: nat_str.induct)
  case (1 n)
  then show ?case
    by (subst nat_str.simps) (auto simp: digits_val_snoc, simp add: digits_val_def)
qed

definition delim :: "pystr \<Rightarrow> bool" where
  "delim r \<longleftrightarrow> r = [] \<or> hd r \<in> {44, 93, 125, 32, 9, 10, 13}"

lemma delim_parts: "delim r \<Longrightarrow> frac_part r = ([], r) \<and> exp_part r = ([], r)"
  by (cases r) (auto simp: delim_def frac_part_def exp_part_def Let_def split: list.splits)

lemma delim_digits: "delim r \<Longrightarrow> takeWhile is_digit r = [] \<and> dropWhile is_digit r = r"
  by (cases r) (auto simp: delim_def is_digit_def)

lemma int_part_nat_str: "delim r \<Longrightarrow> int_part (nat_str n @ r) = Some (nat_str n, r)"
proof (cases "n = 0")
  case True
  then show ?thesis by (simp add: int_part_def nat_str.simps [of 0])
next
  case False
  assume d: "delim r"
  obtain c cs where c: "nat_str n = c # cs" by (cases "nat_str n") auto
  with False nat_str_hd [of n] is_digit_nat_str [of c n]
  have "c \<noteq> 48" "is_digit c" by auto
  moreover have "takeWhile is_digit (nat_str n @ r) = nat_str n"
    "dropWhile is_digit (nat_str n @ r) = r"
    using is_digit_nat_str delim_digits [OF d] by (simp_all add: takeWhile_append2 dropWhile_append2)
  ultimately show ?thesis using c by (simp add: int_part_def)
qed

lemma scan_number_int_str:
  assumes "delim r" and "json_ok (JInt i)"
  shows "scan_number (int_str i @ r) = Some (Inr (JInt i, r))"
proof (cases "i < 0")
  case True
  with assms int_part_nat_str [OF assms(1), of "nat (- i)"] delim_parts [OF assms(1)] show ?thesis
    by (simp add: scan_number_def int_str_def digits_val_nat_str)
next
  case False
  obtain c cs where c: "nat_str (nat i) = c # cs" by (cases "nat_str (nat i)") auto
  then have "c \<noteq> 45" using is_digit_nat_str [of c "nat i"] by (auto simp: is_digit_def)
  with False assms int_part_nat_str [OF assms(1), of "nat i"] delim_parts [OF assms(1)] c
  show ?thesis
    by (simp add: scan_number_def int_str_def digits_val_nat_str [of "nat i", unfolded c])
qed

lemma strip_lit_py: "strip_lit w (py w @ r) = Some r"
  by (simp add: strip_lit_def)

lemma strip_lit_hd: "w \<noteq> [] \<Longrightarrow> s \<noteq> [] \<Longrightarrow> hd s \<noteq> of_char (hd w) \<Longrightarrow> strip_lit w s = None"
  by (cases s; cases w) (auto simp: strip_lit_def py_def)

lemma int_str_head: "\<exists>c cs. int_str i = c # cs \<and> (c = 45 \<or> is_digit c)"
proof -
  obtain c cs where "nat_str (nat i) = c # cs" by (cases "nat_str (nat i)") auto
  with is_digit_nat_str [of c "nat i"] show ?thesis by (auto simp: int_str_def)
qed

lemma scan_atom_int_str:
  assumes "delim r" and "json_ok (JInt i)"
  shows "scan_atom (int_str i @ r) = Inr (JInt i, r)"
proof -
  obtain c cs where c: "int_str i = c # cs" "c = 45 \<or> is_digit c"
    using int_str_head by blast
  then have "scan_const (int_str i @ r) = None"
    by (auto simp: scan_const_def strip_lit_hd is_digit_def)
  with scan_number_int_str [OF assms] show ?thesis by (simp add: scan_atom_def)
qed

lemma scan_const_words:
  "scan_const (py ''null'' @ r) = Some (JNull, r)"
  "scan_const (py ''true'' @ r) = Some (JBool True, r)"
  "scan_const (py ''false'' @ r) = Some (JBool False, r)"
  unfolding scan_const_def strip_lit_py
  by (simp_all add: strip_lit_hd py_def)


lemma esc_char_nonempty: "\<exists>x xs. esc_char c = x # xs"
  by (simp add: esc_char_def u_escape_def)

lemma py_hd: "py (ch # s) = of_char ch # py s"
  by (simp add: py_def)

lemma json_dumps_head:
  "json_ok j \<Longrightarrow> \<exists>c cs. json_dumps j = c # cs \<and> \<not> is_ws c \<and> c \<noteq> 93 \<and> c \<noteq> 125"
proof (cases j)
  case (JInt i)
  then show ?thesis using int_str_head [of i] by (auto simp: is_ws_def is_digit_def)
qed (auto simp: py_hd quote_str_def is_ws_def)

lemma skip_ws_dumps: "json_ok j \<Longrightarrow> skip_ws (json_dumps j @ r) = json_dumps j @ r"
  using json_dumps_head [of j] by (auto simp: skip_ws_def)

lemma skip_ws_quote: "skip_ws (quote_str k @ r) = quote_str k @ r"
  by (simp add: skip_ws_def quote_str_def is_ws_def)

lemma skip_ws_Cons [simp]:
  "skip_ws (32 # r) = skip_ws r" "skip_ws (44 # r) = 44 # r" "skip_ws (58 # r) = 58 # r"
  "skip_ws (93 # r) = 93 # r" "skip_ws (125 # r) = 125 # r" "skip_ws [] = []"
  by (simp_all add: skip_ws_def is_ws_def)

lemma delim_simps [simp]: "delim (44 # r)" "delim (93 # r)" "delim (125 # r)" "delim []"
  by (simp_all add: delim_def)

abbreviation reads_back :: "json \<Rightarrow> bool" where
  "reads_back j \<equiv> \<forall>r. delim r \<longrightarrow> (\<exists>n. scan_once n (json_dumps j @ r) = Inr (j, r))"

lemma scan_items_dumps:
  assumes "\<forall>j \<in> set js. json_ok j \<and> reads_back j" and "js \<noteq> []"
  shows "\<exists>n. scan_items n (comma_sep (map json_dumps js) @ 93 # r) = Inr (js, r)"
  using assms
proof (induction js)
  case (Cons j js)
  show ?case
  proof (cases js)
    case Nil
    from Cons.prems obtain n where "scan_once n (json_dumps j @ 93 # r) = Inr (j, 93 # r)"
      by (auto dest: spec [of _ "93 # r"])
    with Nil have "scan_items (Suc n) (comma_sep (map json_dumps (j # js)) @ 93 # r) = Inr (j # js, r)"
      by simp
    then show ?thesis ..
  next
    case (Cons k ks)
    let ?rest = "comma_sep (map json_dumps js) @ 93 # r"
    from Cons.IH Cons.prems Cons obtain m where m: "scan_items m ?rest = Inr (js, r)"
      by auto
    from Cons.prems obtain n where n: "scan_once n (json_dumps j @ 44 # 32 # ?rest) = Inr (j, 44 # 32 # ?rest)"
      by (auto dest: spec [of _ "44 # 32 # ?rest"])
    let ?m = "max m n"
    have "scan_once ?m (json_dumps j @ 44 # 32 # ?rest) = Inr (j, 44 # 32 # ?rest)"
      by (rule scan_once_mono [OF n]) simp_all
    moreover have "scan_items ?m ?rest = Inr (js, r)"
      by (rule scan_items_mono [OF m]) simp_all
    moreover have "skip_ws ?rest = ?rest"
      using Cons Cons.prems skip_ws_dumps [of k] by (cases ks) simp_all
    ultimately have "scan_items (Suc ?m) (comma_sep (map json_dumps (j # js)) @ 93 # r)
        = Inr (j # js, r)"
      using Cons by simp
    then show ?thesis ..
  qed
qed simp

definition dump_member :: "pystr \<times> json \<Rightarrow> pystr" where
  "dump_member p = quote_str (fst p) @ [58, 32] @ json_dumps (snd p)"

lemma json_dumps_JDict:
  "json_dumps (JDict ps) = 123 # comma_sep (map dump_member ps) @ [125]"
proof -
  have "(\<lambda>(k, v). quote_str k @ [58, 32] @ json_dumps v) = dump_member"
    by (auto simp: dump_member_def fun_eq_iff)
  then show ?thesis by simp
qed

lemma scan_members_step:
  assumes k: "scalar_str (fst p)" and ok: "json_ok (snd p)"
    and v: "scan_once n (json_dumps (snd p) @ r) = Inr (snd p, r)"
  shows "scan_members (Suc n) (dump_member p @ r) =
    (case skip_ws r of
       [] \<Rightarrow> Inl JSONDecodeError
     | c # r' \<Rightarrow> (if c = 125 then Inr ([p], r')
         else if c = 44 then rmap (\<lambda>(ps, r''). (p # ps, r'')) (scan_members n (skip_ws r'))
         else Inl JSONDecodeError))"
proof -
  have eq: "dump_member p @ r = 34 # concat (map esc_char (fst p)) @ 34 # 58 # 32 # json_dumps (snd p) @ r"
    by (simp add: dump_member_def quote_str_def)
  show ?thesis
    unfolding eq using scanstring_quote [OF k] v skip_ws_dumps [OF ok]
    by (simp add: first_is_def del: scanstring_Cons split: list.split)
qed

lemma scan_members_dumps:
  assumes "\<forall>p \<in> set ps. scalar_str (fst p) \<and> json_ok (snd p) \<and> reads_back (snd p)" and "ps \<noteq> []"
  shows "\<exists>n. scan_members n (comma_sep (map dump_member ps) @ 125 # r) = Inr (ps, r)"
  using assms
proof (induction ps)
  case (Cons p ps)
  then have p: "scalar_str (fst p)" "json_ok (snd p)" "reads_back (snd p)" by auto
  show ?case
  proof (cases ps)
    case Nil
    from p(3) obtain n where "scan_once n (json_dumps (snd p) @ 125 # r) = Inr (snd p, 125 # r)"
      by (auto dest: spec [of _ "125 # r"])
    from scan_members_step [OF p(1,2) this] Nil
    have "scan_members (Suc n) (comma_sep (map dump_member (p # ps)) @ 125 # r) = Inr (p # ps, r)"
      by simp
    then show ?thesis ..
  next
    case (Cons q qs)
    let ?rest = "comma_sep (map dump_member ps) @ 125 # r"
    from Cons.IH Cons.prems Cons obtain m where m: "scan_members m ?rest = Inr (ps, r)"
      by auto
    from p(3) obtain n where n: "scan_once n (json_dumps (snd p) @ 44 # 32 # ?rest) = Inr (snd p, 44 # 32 # ?rest)"
      by (auto dest: spec [of _ "44 # 32 # ?rest"])
    let ?m = "max m n"
    have o: "scan_once ?m (json_dumps (snd p) @ 44 # 32 # ?rest) = Inr (snd p, 44 # 32 # ?rest)"
      by (rule scan_once_mono [OF n]) simp_all
    moreover have "scan_members ?m ?rest = Inr (ps, r)"
      by (rule scan_members_mono [OF m]) simp_all
    moreover have "skip_ws ?rest = ?rest"
      using Cons skip_ws_quote [of "fst q"] by (cases qs) (simp_all add: dump_member_def)
    ultimately have "scan_members (Suc ?m) (comma_sep (map dump_member (p # ps)) @ 125 # r)
        = Inr (p # ps, r)"
      using Cons scan_members_step [OF p(1,2) o] by simp
    then show ?thesis ..
  qed
qed simp

lemma first_is_dumps:
  "json_ok j \<Longrightarrow> \<not> first_is 93 (json_dumps j @ r)"
  using json_dumps_head [of j] by (auto simp: first_is_def)

lemma dumps_reads_back: "json_ok j \<Longrightarrow> reads_back j"
proof (induction j)
  case JNull
  show ?case
  proof (intro allI impI exI)
    fix r
    show "scan_once 1 (json_dumps JNull @ r) = Inr (JNull, r)"
      using scan_const_words(1) [of r] by (simp add: scan_atom_def py_hd)
  qed
next
  case (JBool b)
  show ?case
  proof (intro allI impI exI)
    fix r
    show "scan_once 1 (json_dumps (JBool b) @ r) = Inr (JBool b, r)"
      using scan_const_words(2,3) [of r] by (simp add: scan_atom_def py_hd)
  qed
next
  case (JInt i)
  show ?case
  proof (intro allI impI exI)
    fix r assume "delim r"
    from scan_atom_int_str [OF this JInt] int_str_head [of i]
    show "scan_once 1 (json_dumps (JInt i) @ r) = Inr (JInt i, r)"
      by (auto simp: is_digit_def)
  qed
next
  case (JStr s)
  show ?case
  proof (intro allI impI exI)
    fix r
    show "scan_once 1 (json_dumps (JStr s) @ r) = Inr (JStr s, r)"
      using scanstring_quote [of s r] JStr by (simp add: quote_str_def)
  qed
next
  case (JList js)
  show ?case
  proof (intro allI impI)
    fix r
    show "\<exists>n. scan_once n (json_dumps (JList js) @ r) = Inr (JList js, r)"
    proof (cases js)
      case Nil
      have "scan_once 1 (json_dumps (JList js) @ r) = Inr (JList js, r)"
        by (simp add: Nil first_is_def)
      then show ?thesis ..
    next
      case (Cons k ks)
      let ?t = "comma_sep (map json_dumps js) @ 93 # r"
      from JList scan_items_dumps [of js r] Cons obtain n where n: "scan_items n ?t = Inr (js, r)"
        by auto
      have "skip_ws ?t = ?t" "\<not> first_is 93 ?t"
        using Cons JList.prems skip_ws_dumps [of k] first_is_dumps [of k]
        by (cases ks; simp)+
      with n have "scan_once (Suc n) (json_dumps (JList js) @ r) = Inr (JList js, r)"
        by simp
      then show ?thesis ..
    qed
  qed
next
  case (JDict ps)
  show ?case
  proof (intro allI impI)
    fix r
    show "\<exists>n. scan_once n (json_dumps (JDict ps) @ r) = Inr (JDict ps, r)"
    proof (cases ps)
      case Nil
      have "scan_once 1 (json_dumps (JDict ps) @ r) = Inr (JDict ps, r)"
        by (simp add: Nil first_is_def)
      then show ?thesis ..
    next
      case (Cons q qs)
      let ?t = "comma_sep (map dump_member ps) @ 125 # r"
      have "\<forall>p \<in> set ps. scalar_str (fst p) \<and> json_ok (snd p) \<and> reads_back (snd p)"
        using JDict by (metis json_ok.simps(7) prod.collapse snds.intros)
      with scan_members_dumps [of ps r] Cons obtain n where n: "scan_members n ?t = Inr (ps, r)"
        by auto
      have "skip_ws ?t = ?t" "\<not> first_is 125 ?t"
        using Cons skip_ws_quote [of "fst q"]
        by (cases qs; simp add: dump_member_def quote_str_def first_is_def)+
      with n dict_of_pairs_distinct [of ps] JDict.prems
      have "scan_once (Suc n) (json_dumps (JDict ps) @ r) = Inr (JDict ps, r)"
        unfolding json_dumps_JDict by simp
      then show ?thesis ..
    qed
  qed
qed simp

lemma json_loads_str_dumps: "json_ok j \<Longrightarrow> json_loads_str (json_dumps j) = Inr j"
proof -
  assume ok: "json_ok j"
  then obtain n where "scan_once n (json_dumps j @ []) = Inr (j, [])"
    using dumps_reads_back [of j] delim_simps(4) by blast
  from scan_fuel_enough [OF this] skip_ws_dumps [OF ok, of "[]"] show ?thesis
    by (simp add: json_loads_str_def)
qed


text \<open>The printed text is plain ASCII, so its bytes are detected as UTF-8 and decode to it.\<close>

definition plain_ascii :: "pystr \<Rightarrow> bool" where
  "plain_ascii s \<longleftrightarrow> (\<forall>c \<in> set s. 32 \<le> c \<and> c < 127)"

lemma plain_ascii_append [simp]: "plain_ascii (s @ t) \<longleftrightarrow> plain_ascii s \<and> plain_ascii t"
  by (auto simp: plain_ascii_def)

lemma plain_ascii_Cons [simp]: "plain_ascii (c # s) \<longleftrightarrow> 32 \<le> c \<and> c < 127 \<and> plain_ascii s"
  by (auto simp: plain_ascii_def)

lemma plain_ascii_Nil [simp]: "plain_ascii []"
  by (simp add: plain_ascii_def)

lemma hex_digit_ascii [simp]: "v < 16 \<Longrightarrow> 32 \<le> hex_digit v \<and> hex_digit v < 127"
  by (simp add: hex_digit_def)

lemma plain_ascii_esc: "plain_ascii (esc_char c)"
  by (simp add: esc_char_def u_escape_def)

lemma plain_ascii_quote: "plain_ascii (quote_str s)"
  by (induction s) (simp_all add: quote_str_def plain_ascii_esc)

lemma plain_ascii_nat_str: "plain_ascii (nat_str n)"
  using is_digit_nat_str [of _ n] by (force simp: plain_ascii_def is_digit_def)

lemma plain_ascii_comma_sep: "\<forall>x \<in> set xs. plain_ascii x \<Longrightarrow> plain_ascii (comma_sep xs)"
  by (induction xs rule: comma_sep.induct) auto

lemma plain_ascii_dumps: "json_ok j \<Longrightarrow> plain_ascii (json_dumps j)"
proof (induction j)
  case (JDict ps)
  have "plain_ascii (dump_member p)" if "p \<in> set ps" for p
  proof -
    have "snd p \<in> Basic_BNFs.snds p" by (simp add: snds.simps)
    with JDict that have "plain_ascii (json_dumps (snd p))" by auto
    then show ?thesis by (simp add: dump_member_def plain_ascii_quote)
  qed
  then show ?case unfolding json_dumps_JDict by (simp add: plain_ascii_comma_sep)
qed (auto simp: py_def int_str_def plain_ascii_nat_str plain_ascii_quote plain_ascii_comma_sep)

lemma detect_plain_ascii:
  assumes "plain_ascii s"
  shows "detect_encoding (map byte s) = Utf8"
proof -
  have b: "unat (map byte s ! i) = s ! i \<and> 32 \<le> s ! i \<and> s ! i < 127" if "i < length s" for i
  proof -
    have "32 \<le> s ! i \<and> s ! i < 127"
      using assms nth_mem [OF that] by (simp add: plain_ascii_def)
    with that show ?thesis by simp
  qed
  have z: "map byte s ! i \<noteq> 0" if "i < length s" for i
    using b [OF that] by auto
  have u: "map unat (map byte s) = s"
    unfolding map_map
  proof (rule map_idI)
    fix x assume "x \<in> set s"
    with assms have "x < 127" by (simp add: plain_ascii_def)
    then show "(unat \<circ> byte) x = x" by simp
  qed
  have "\<not> starts_bytes (n # ns) (map byte s)" if "n = 0 \<or> 127 \<le> n" for n ns
    unfolding starts_bytes_def u using assms that by (cases s) auto
  moreover have "map byte s ! 0 \<noteq> 0" "map byte s ! 1 \<noteq> 0" if "2 \<le> length s"
  proof -
    have "0 < length s" "1 < length s" using that by linarith+
    then show "map byte s ! 0 \<noteq> 0" "map byte s ! 1 \<noteq> 0" using z by blast+
  qed
  ultimately show ?thesis
    by (simp add: detect_encoding_def del: nth_map)
qed

lemma json_loads_dumps: "json_ok j \<Longrightarrow> json_loads (json_bytes j) = Inr j"
proof -
  assume ok: "json_ok j"
  have pa: "plain_ascii (json_dumps j)" by (rule plain_ascii_dumps [OF ok])
  then have lt: "\<forall>c \<in> set (json_dumps j). c < 128" by (force simp: plain_ascii_def)
  have "decode_text (json_bytes j) = Inr (json_dumps j)"
    using utf8.dec_enc [OF scalar_str_ascii [OF lt], of True] detect_plain_ascii [OF pa]
    by (simp add: decode_text_def json_bytes_def utf8_bytes_ascii [OF lt])
  with json_loads_str_dumps [OF ok] show ?thesis by (simp add: json_loads_def)
qed

interpretation json: codec json_bytes json_loads json_ok
  by unfold_locales (rule json_loads_dumps)

text \<open>Integers of ordinary size are within the conversion limit.\<close>

lemma length_nat_str: "0 < k \<Longrightarrow> n < 10 ^ k \<Longrightarrow> length (nat_str n) \<le> k"
proof (induction n arbitrary: k rule: nat_str.induct)
  case (1 n)
  show ?case
  proof (cases "n < 10")
    case True
    then show ?thesis using 1(2) by (subst nat_str.simps) simp
  next
    case False
    with 1(2,3) obtain j where k: "k = Suc j" and j: "0 < j"
      by (cases k; cases "k = 1") auto
    have "n div 10 < 10 ^ j"
      using 1(3) k by (simp add: less_mult_imp_div_less mult.commute)
    with 1(1) [OF False j] False show ?thesis
      by (subst nat_str.simps) (simp add: k)
  qed
qed

lemma json_ok_JInt: "\<bar>i\<bar> < 10 ^ 100 \<Longrightarrow> json_ok (JInt i)"
proof -
  assume "\<bar>i\<bar> < 10 ^ 100"
  then have "nat \<bar>i\<bar> < 10 ^ 100" by (simp add: nat_less_iff)
  then have "length (nat_str (nat \<bar>i\<bar>)) \<le> 100" by (intro length_nat_str) simp_all
  then show ?thesis by (simp add: MAX_INT_DIGITS_def)
qed

section \<open>Access\<close>

text \<open>
  \<open>data["key"]\<close> on a parsed value: a missing key is a \<open>KeyError\<close>; a list or a string
  indexed by a string, and a value that has no items at all, are a \<open>TypeError\<close>.
\<close>

fun json_item :: "json \<Rightarrow> pystr \<Rightarrow> json res" where
  "json_item (JDict ps) k = (case map_of ps k of None \<Rightarrow> Inl KeyErr | Some v \<Rightarrow> Inr v)"
| "json_item _ k = Inl TypeErr"

lemma json_item_error: "json_item j k = Inl e \<Longrightarrow> e = KeyErr \<or> e = TypeErr"
  by (cases j) (auto split: option.splits)

text \<open>\<open>base64.b64decode(v, validate=strict)\<close> on a parsed value: only a string is accepted.\<close>

fun json_b64decode :: "bool \<Rightarrow> json \<Rightarrow> bytes res" where
  "json_b64decode strict (JStr s) = b64decode strict s"
| "json_b64decode strict _ = Inl TypeErr"

lemma json_b64decode_error: "json_b64decode strict j = Inl e \<Longrightarrow> e = TypeErr \<or> is_value_error e"
  by (cases j) (auto dest: b64decode_error)

end
