(* ===== verification/Py_Time.thy ===== *)
theory Py_Time
  imports Py_Json
begin

text \<open>
  Time stamps. An aware \<open>datetime\<close> is its instant, in microseconds since
  \<open>0001-01-01T00:00Z\<close> (\<open>datetime.min\<close>), so \<open>astimezone(UTC)\<close> keeps it; \<open>isoformat\<close> goes
  through CPython's ordinal-to-date conversion. The result is proved to be plain ASCII
  that ends in \<open>Z\<close>, the form every result event of the adapters carries.
\<close>

type_synonym datetime = int

definition DAYS_BEFORE_MONTH :: "nat \<Rightarrow> int" where
  "DAYS_BEFORE_MONTH m = [0, 0, 31, 59, 90, 120, 151, 181, 212, 243, 273, 304, 334] ! m"

definition DAYS_IN_MONTH :: "nat \<Rightarrow> int" where
  "DAYS_IN_MONTH m = [0, 31, 28, 31, 30, 31, 30, 31, 31, 30, 31, 30, 31] ! m"

text \<open>\<open>_ord2ymd\<close> for a day number counted from 0 (\<open>0001-01-01\<close>).\<close>

definition ord2ymd :: "int \<Rightarrow> int \<times> int \<times> int" where
  "ord2ymd d =
     (let n400 = d div 146097; a = d mod 146097; n100 = a div 36524; b = a mod 36524;
          n4 = b div 1461; c = b mod 1461; n1 = c div 365; n = c mod 365;
          year = n400 * 400 + 1 + n100 * 100 + n4 * 4 + n1
      in if n1 = 4 \<or> n100 = 4 then (year - 1, 12, 31)
         else
           (let leap = (n1 = 3 \<and> (n4 \<noteq> 24 \<or> n100 = 3));
                m0 = nat ((n + 50) div 32);
                p0 = DAYS_BEFORE_MONTH m0 + (if m0 > 2 \<and> leap then 1 else 0)
            in if p0 > n then
                 (let m1 = m0 - 1; p1 = p0 - (DAYS_IN_MONTH m1 + (if m1 = 2 \<and> leap then 1 else 0))
                  in (year, int m1, n - p1 + 1))
               else (year, int m0, n - p0 + 1)))"

definition pad_int :: "nat \<Rightarrow> int \<Rightarrow> pystr" where
  "pad_int w i = replicate (w - length (nat_str (nat i))) 48 @ nat_str (nat i)"

text \<open>\<open>_iso(dt)\<close>: \<open>dt.astimezone(UTC).isoformat().replace("+00:00", "Z")\<close>.\<close>

definition iso_utc :: "datetime \<Rightarrow> pystr" where
  "iso_utc t =
     (let us = t mod 1000000; s = t div 1000000; sod = s mod 86400;
          (y, m, d) = ord2ymd (s div 86400)
      in pad_int 4 y @ py ''-'' @ pad_int 2 m @ py ''-'' @ pad_int 2 d @ py ''T''
         @ pad_int 2 (sod div 3600) @ py '':'' @ pad_int 2 (sod div 60 mod 60) @ py '':''
         @ pad_int 2 (sod mod 60) @ (if us = 0 then [] else py ''.'' @ pad_int 6 us) @ py ''Z'')"

lemma plain_ascii_pad_int [simp]: "plain_ascii (pad_int w i)"
  by (simp add: pad_int_def plain_ascii_nat_str) (simp add: plain_ascii_def)

lemma plain_ascii_iso_utc: "plain_ascii (iso_utc t)"
  by (simp add: iso_utc_def Let_def split_beta py_def)

lemma plain_ascii_scalar: "plain_ascii s \<Longrightarrow> scalar_str s"
  by (rule scalar_str_ascii) (force simp: plain_ascii_def)

lemma scalar_iso_utc [simp]: "scalar_str (iso_utc t)"
  by (rule plain_ascii_scalar [OF plain_ascii_iso_utc])

lemma iso_utc_ends_Z: "last (iso_utc t) = of_char (CHR ''Z'')"
  by (simp add: iso_utc_def Let_def split_beta py_def)

end
