(* ===== verification/Envelope.thy ===== *)
theory Envelope
  imports Py_Json Py_Time
begin

text \<open>
  \<open>jetcore/envelope.py\<close>: the event envelope as records, its wire form with the camelCase
  aliases, and its validation. Pydantic is not part of the repository: its JSON printer and
  parser and its \<open>datetime\<close> format are the parameter \<open>pydantic\<close>, constrained by
  \<open>pydantic_ok\<close>; which keys are looked up, which defaults apply and which values are
  accepted is spelled out here.
\<close>

section \<open>Models\<close>

record event_details =
  event_id :: pystr
  event_created :: datetime
  event_type :: pystr
  event_schema_version :: pystr
  source_service_id :: pystr
  correlation_id :: "pystr option"
  signature :: "pystr option"
  source_public_key :: "pystr option"

record encryption_metadata =
  algorithm :: pystr
  recipients :: "pystr list"

record event_envelope =
  ee_details :: event_details
  ee_encryption :: encryption_metadata
  ee_payload :: pystr

record event =
  ev_event :: event_envelope

text \<open>Pydantic: printing and parsing of JSON text, and of time stamps inside it.\<close>

record pydantic =
  pd_dump :: "json \<Rightarrow> bytes"
  pd_parse :: "bytes \<Rightarrow> json option"
  pd_print_datetime :: "datetime \<Rightarrow> pystr"
  pd_parse_datetime :: "json \<Rightarrow> datetime option"

section \<open>\<open>model_dump_json(by_alias=True)\<close>\<close>

fun opt_json :: "pystr option \<Rightarrow> json" where
  "opt_json None = JNull"
| "opt_json (Some s) = JStr s"

definition details_json :: "pydantic \<Rightarrow> event_details \<Rightarrow> json" where
  "details_json P d = JDict
     [(py ''eventId'', JStr (event_id d)),
      (py ''eventCreated'', JStr (pd_print_datetime P (event_created d))),
      (py ''eventType'', JStr (event_type d)),
      (py ''eventSchemaVersion'', JStr (event_schema_version d)),
      (py ''sourceServiceId'', JStr (source_service_id d)),
      (py ''correlationId'', opt_json (correlation_id d)),
      (py ''signature'', opt_json (signature d)),
      (py ''sourcePublicKey'', opt_json (source_public_key d))]"

definition encryption_json :: "encryption_metadata \<Rightarrow> json" where
  "encryption_json m = JDict
     [(py ''algorithm'', JStr (algorithm m)), (py ''recipients'', JList (map JStr (recipients m)))]"

definition envelope_json :: "pydantic \<Rightarrow> event_envelope \<Rightarrow> json" where
  "envelope_json P e = JDict
     [(py ''eventDetails'', details_json P (ee_details e)),
      (py ''encryption'', encryption_json (ee_encryption e)),
      (py ''eventPayload'', JStr (ee_payload e))]"

definition event_json :: "pydantic \<Rightarrow> event \<Rightarrow> json" where
  "event_json P e = JDict [(py ''event'', envelope_json P (ev_event e))]"

definition to_wire :: "pydantic \<Rightarrow> event \<Rightarrow> bytes" where
  "to_wire P e = pd_dump P (event_json P e)"

section \<open>\<open>model_validate_json\<close>\<close>

text \<open>
  A field is looked up under its alias and then, because of \<open>populate_by_name\<close>, under its
  name. Keys that belong to no field are ignored.
\<close>

definition field :: "json \<Rightarrow> string \<Rightarrow> string \<Rightarrow> json option res" where
  "field j alias name = (case j of
     JDict ps \<Rightarrow> Inr (case map_of ps (py alias) of Some v \<Rightarrow> Some v | None \<Rightarrow> map_of ps (py name))
   | _ \<Rightarrow> Inl ValidationError)"

fun as_str :: "json option \<Rightarrow> pystr res" where
  "as_str (Some (JStr s)) = Inr s"
| "as_str _ = Inl ValidationError"

fun as_opt_str :: "json option \<Rightarrow> pystr option res" where
  "as_opt_str None = Inr None"
| "as_opt_str (Some JNull) = Inr None"
| "as_opt_str (Some (JStr s)) = Inr (Some s)"
| "as_opt_str _ = Inl ValidationError"

fun as_strs :: "json list \<Rightarrow> pystr list res" where
  "as_strs [] = Inr []"
| "as_strs (JStr s # js) = rmap (Cons s) (as_strs js)"
| "as_strs _ = Inl ValidationError"

fun as_str_list :: "json option \<Rightarrow> pystr list res" where
  "as_str_list (Some (JList js)) = as_strs js"
| "as_str_list _ = Inl ValidationError"

definition as_datetime :: "pydantic \<Rightarrow> datetime \<Rightarrow> json option \<Rightarrow> datetime res" where
  "as_datetime P dflt v = (case v of
     None \<Rightarrow> Inr dflt
   | Some j \<Rightarrow> (case pd_parse_datetime P j of None \<Rightarrow> Inl ValidationError | Some t \<Rightarrow> Inr t))"

text \<open>The defaults of \<open>eventId\<close> and \<open>eventCreated\<close> are drawn fresh for every event.\<close>

definition details_of_json :: "pydantic \<Rightarrow> pystr \<Rightarrow> datetime \<Rightarrow> json \<Rightarrow> event_details res" where
  "details_of_json P fresh_id now j =
     rbind (field j ''eventId'' ''event_id'') (\<lambda>v1.
     rbind (case v1 of None \<Rightarrow> Inr fresh_id | Some _ \<Rightarrow> as_str v1) (\<lambda>ei.
     rbind (rbind (field j ''eventCreated'' ''event_created'') (as_datetime P now)) (\<lambda>ec.
     rbind (rbind (field j ''eventType'' ''event_type'') as_str) (\<lambda>et.
     rbind (rbind (field j ''eventSchemaVersion'' ''event_schema_version'') as_str) (\<lambda>sv.
     rbind (rbind (field j ''sourceServiceId'' ''source_service_id'') as_str) (\<lambda>si.
     rbind (rbind (field j ''correlationId'' ''correlation_id'') as_opt_str) (\<lambda>ci.
     rbind (rbind (field j ''signature'' ''signature'') as_opt_str) (\<lambda>sg.
     rbind (rbind (field j ''sourcePublicKey'' ''source_public_key'') as_opt_str) (\<lambda>pk.
     Inr \<lparr>event_id = ei, event_created = ec, event_type = et, event_schema_version = sv,
          source_service_id = si, correlation_id = ci, signature = sg, source_public_key = pk\<rparr>)))))))))"

definition encryption_of_json :: "json \<Rightarrow> encryption_metadata res" where
  "encryption_of_json j =
     rbind (rbind (field j ''algorithm'' ''algorithm'') as_str) (\<lambda>a.
     rbind (rbind (field j ''recipients'' ''recipients'') as_str_list) (\<lambda>rs.
     Inr \<lparr>algorithm = a, recipients = rs\<rparr>))"

definition required :: "json option \<Rightarrow> json res" where
  "required v = (case v of None \<Rightarrow> Inl ValidationError | Some j \<Rightarrow> Inr j)"

definition envelope_of_json :: "pydantic \<Rightarrow> pystr \<Rightarrow> datetime \<Rightarrow> json \<Rightarrow> event_envelope res" where
  "envelope_of_json P fresh_id now j =
     rbind (rbind (rbind (field j ''eventDetails'' ''event_details'') required)
              (details_of_json P fresh_id now)) (\<lambda>d.
     rbind (rbind (rbind (field j ''encryption'' ''encryption'') required) encryption_of_json) (\<lambda>m.
     rbind (rbind (field j ''eventPayload'' ''event_payload'') as_str) (\<lambda>p.
     Inr \<lparr>ee_details = d, ee_encryption = m, ee_payload = p\<rparr>)))"

definition event_of_json :: "pydantic \<Rightarrow> pystr \<Rightarrow> datetime \<Rightarrow> json \<Rightarrow> event res" where
  "event_of_json P fresh_id now j =
     rbind (rbind (rbind (field j ''event'' ''event'') required) (envelope_of_json P fresh_id now))
       (\<lambda>e. Inr \<lparr>ev_event = e\<rparr>)"

definition from_wire :: "pydantic \<Rightarrow> pystr \<Rightarrow> datetime \<Rightarrow> bytes \<Rightarrow> event res" where
  "from_wire P fresh_id now data = (case pd_parse P data of
     None \<Rightarrow> Inl ValidationError
   | Some j \<Rightarrow> event_of_json P fresh_id now j)"

section \<open>Round trip\<close>

text \<open>
  What the code relies on in pydantic: text it prints from a value without lone surrogates
  parses back to that value, and so does a time stamp.
\<close>

definition pydantic_ok :: "pydantic \<Rightarrow> bool" where
  "pydantic_ok P \<longleftrightarrow>
     (\<forall>j. json_ok j \<longrightarrow> pd_parse P (pd_dump P j) = Some j) \<and>
     (\<forall>t. pd_parse_datetime P (JStr (pd_print_datetime P t)) = Some t
          \<and> scalar_str (pd_print_datetime P t))"

definition opt_scalar :: "pystr option \<Rightarrow> bool" where
  "opt_scalar s = (case s of None \<Rightarrow> True | Some t \<Rightarrow> scalar_str t)"

definition event_scalar :: "event \<Rightarrow> bool" where
  "event_scalar e \<longleftrightarrow>
     (let v = ev_event e; d = ee_details v in
      scalar_str (event_id d) \<and> scalar_str (event_type d) \<and> scalar_str (event_schema_version d)
      \<and> scalar_str (source_service_id d) \<and> opt_scalar (correlation_id d) \<and> opt_scalar (signature d)
      \<and> opt_scalar (source_public_key d) \<and> scalar_str (algorithm (ee_encryption v))
      \<and> (\<forall>r \<in> set (recipients (ee_encryption v)). scalar_str r) \<and> scalar_str (ee_payload v))"

lemma as_opt_str_json [simp]: "as_opt_str (Some (opt_json s)) = Inr s"
  by (cases s) simp_all

lemma as_strs_map [simp]: "as_strs (map JStr ss) = Inr ss"
  by (induction ss) simp_all

lemma json_ok_opt [simp]: "json_ok (opt_json s) = opt_scalar s"
  by (cases s) (simp_all add: opt_scalar_def)

lemma field_JDict [simp]:
  "field (JDict ps) a n = Inr (case map_of ps (py a) of Some v \<Rightarrow> Some v | None \<Rightarrow> map_of ps (py n))"
  by (simp add: field_def)

lemma details_of_json_json:
  "pydantic_ok P \<Longrightarrow> details_of_json P fid now (details_json P d) = Inr d"
  by (simp add: details_of_json_def details_json_def as_datetime_def pydantic_ok_def)

lemma encryption_of_json_json [simp]: "encryption_of_json (encryption_json m) = Inr m"
  by (simp add: encryption_of_json_def encryption_json_def)

lemma event_of_json_json: "pydantic_ok P \<Longrightarrow> event_of_json P fid now (event_json P e) = Inr e"
  by (simp add: event_of_json_def event_json_def envelope_of_json_def envelope_json_def
      required_def details_of_json_json)

lemma json_ok_event: "pydantic_ok P \<Longrightarrow> event_scalar e \<Longrightarrow> json_ok (event_json P e)"
  by (simp add: event_scalar_def Let_def event_json_def envelope_json_def details_json_def
      encryption_json_def pydantic_ok_def)

lemma from_wire_to_wire:
  assumes "pydantic_ok P" and "event_scalar e"
  shows "from_wire P fid now (to_wire P e) = Inr e"
proof -
  have "pd_parse P (to_wire P e) = Some (event_json P e)"
    using assms json_ok_event [OF assms] by (simp add: to_wire_def pydantic_ok_def)
  then show ?thesis
    using event_of_json_json [OF assms(1)] by (simp add: from_wire_def)
qed

section \<open>Rejection\<close>

lemma as_str_raises [raises_intros]: "raises_only {ValidationError} (as_str v)"
  by (cases v rule: as_str.cases) (simp_all add: raises_only_def)

lemma as_opt_str_raises [raises_intros]: "raises_only {ValidationError} (as_opt_str v)"
  by (cases v rule: as_opt_str.cases) (simp_all add: raises_only_def)

lemma as_strs_raises [raises_intros]: "raises_only {ValidationError} (as_strs js)"
  by (induction js rule: as_strs.induct) (simp_all add: raises_intros)

lemma as_str_list_raises [raises_intros]: "raises_only {ValidationError} (as_str_list v)"
  by (cases v rule: as_str_list.cases) (simp_all add: raises_intros)

lemma as_datetime_raises [raises_intros]: "raises_only {ValidationError} (as_datetime P t v)"
  unfolding as_datetime_def by (intro raises_intros) simp_all

lemma field_raises [raises_intros]: "raises_only {ValidationError} (field j a n)"
  by (cases j) (simp_all add: field_def raises_intros)

lemma required_raises [raises_intros]: "raises_only {ValidationError} (required v)"
  unfolding required_def by (intro raises_intros) simp_all

lemma details_of_json_raises [raises_intros]: "raises_only {ValidationError} (details_of_json P fid now j)"
  unfolding details_of_json_def by (intro raises_intros)

lemma encryption_of_json_raises [raises_intros]: "raises_only {ValidationError} (encryption_of_json j)"
  unfolding encryption_of_json_def by (intro raises_intros)

lemma envelope_of_json_raises [raises_intros]: "raises_only {ValidationError} (envelope_of_json P fid now j)"
  unfolding envelope_of_json_def by (intro raises_intros)

lemma from_wire_raises: "raises_only {ValidationError} (from_wire P fid now data)"
  unfolding from_wire_def event_of_json_def by (intro raises_intros) simp_all

lemma from_wire_error: "from_wire P fid now data = Inl e \<Longrightarrow> e = ValidationError"
  using raises_onlyD [OF from_wire_raises] by blast

section \<open>A pydantic that satisfies the contract\<close>

text \<open>The standard library's JSON and a decimal count of microseconds.\<close>

definition plain_pydantic :: pydantic where
  "plain_pydantic = \<lparr>
     pd_dump = json_bytes,
     pd_parse = (\<lambda>b. case json_loads b of Inl _ \<Rightarrow> None | Inr j \<Rightarrow> Some j),
     pd_print_datetime = (\<lambda>t. int_str t),
     pd_parse_datetime = (\<lambda>j. case j of
        JStr (c # s) \<Rightarrow> Some (if c = 45 then - int (digits_val s) else int (digits_val (c # s)))
      | _ \<Rightarrow> None)\<rparr>"

lemma plain_pydantic_datetime:
  "pd_parse_datetime plain_pydantic (JStr (int_str t)) = Some t"
proof (cases "t < 0")
  case True
  then show ?thesis
    by (simp add: plain_pydantic_def int_str_def digits_val_nat_str)
next
  case False
  obtain c cs where c: "nat_str (nat t) = c # cs" by (cases "nat_str (nat t)") simp_all
  then have "is_digit c" using is_digit_nat_str [of c "nat t"] by simp
  then have "c \<noteq> 45" by (auto simp: is_digit_def)
  with False c show ?thesis
    using digits_val_nat_str [of "nat t"] by (simp add: plain_pydantic_def int_str_def)
qed

lemma plain_pydantic_ok: "pydantic_ok plain_pydantic"
proof -
  have "plain_ascii (int_str t)" for t by (simp add: int_str_def plain_ascii_nat_str)
  then have "scalar_str (pd_print_datetime plain_pydantic t)" for t
    using plain_ascii_scalar by (simp add: plain_pydantic_def)
  moreover have "pd_parse_datetime plain_pydantic (JStr (pd_print_datetime plain_pydantic t)) = Some t" for t
    using plain_pydantic_datetime [of t] by (simp add: plain_pydantic_def)
  moreover have "json_ok j \<Longrightarrow> pd_parse plain_pydantic (pd_dump plain_pydantic j) = Some j" for j
    by (simp add: plain_pydantic_def json.dec_enc)
  ultimately show ?thesis by (simp add: pydantic_ok_def)
qed

end
