(* ===== verification/Bus_Iface.thy ===== *)
theory Bus_Iface
  imports Envelope
begin

text \<open>
  What every adapter sees of \<open>BusClient\<close>: received events, the calls an adapter makes, and
  the world a handler runs in. The client is a record of operations over a client state of
  any type, so that the handlers can be run over the model of \<open>bus_client.py\<close> or over any
  other client. Every call is kept with its outcome in the world's trace, on which the
  contract of a command handler is stated: a handler that returns has settled its event,
  once and last; a handler that raises has settled nothing.
\<close>

section \<open>Events and calls\<close>

record msg =
  msg_subject :: pystr
  msg_data :: bytes
  msg_num_delivered :: nat
  msg_token :: nat

text \<open>\<open>ReceivedEvent\<close>: the parsed event, the decrypted payload and the message to settle.\<close>

record received_event =
  re_event :: event
  re_payload :: bytes
  re_msg :: msg

definition details :: "received_event \<Rightarrow> event_details" where
  "details ev = ee_details (ev_event (re_event ev))"

record publish_args =
  pa_subject :: pystr
  pa_payload :: bytes
  pa_event_type :: pystr
  pa_correlation_id :: "pystr option"
  pa_msg_id :: "pystr option"

record 'c bus =
  bus_publish :: "publish_args \<Rightarrow> ('c, pystr) comp"
  bus_ack :: "msg \<Rightarrow> ('c, unit) comp"
  bus_nak :: "msg \<Rightarrow> ('c, unit) comp"
  bus_fetch :: "pystr \<Rightarrow> nat \<Rightarrow> ('c, received_event list) comp"
  bus_subscribe :: "pystr \<Rightarrow> pystr option \<Rightarrow> ('c, pystr) comp"

datatype bus_call =
    Published publish_args "pystr res"
  | Acked msg "unit res"
  | Naked msg "unit res"
  | Fetched pystr nat "received_event list res"
  | Subscribed pystr "pystr option" "pystr res"

section \<open>Worlds\<close>

text \<open>
  The clocks and the failures of the host are functions of a counter that every operation
  advances: \<open>utc_now_at\<close>, \<open>monotonic_at\<close>, and the operations that fail for a reason outside
  the model (a full disk, a permission, a lost connection).
\<close>

record host =
  utc_now_at :: "nat \<Rightarrow> datetime"
  monotonic_at :: "nat \<Rightarrow> int"
  os_fault_at :: "nat \<Rightarrow> bool"
  write_cut_at :: "nat \<Rightarrow> nat option"

record 'c world =
  w_client :: 'c
  w_calls :: "bus_call list"
  w_tick :: nat

definition via :: "('c, 'a) comp \<Rightarrow> ('a res \<Rightarrow> bus_call) \<Rightarrow> (('c, 'z) world_scheme, 'a) comp" where
  "via m label w = (case m (w_client w) of (r, c) \<Rightarrow>
     (r, w\<lparr>w_client := c, w_calls := w_calls w @ [label r]\<rparr>))"

definition b_publish :: "'c bus \<Rightarrow> publish_args \<Rightarrow> (('c, 'z) world_scheme, pystr) comp" where
  "b_publish B args = via (bus_publish B args) (Published args)"

definition b_ack :: "'c bus \<Rightarrow> received_event \<Rightarrow> (('c, 'z) world_scheme, unit) comp" where
  "b_ack B ev = via (bus_ack B (re_msg ev)) (Acked (re_msg ev))"

definition b_nak :: "'c bus \<Rightarrow> received_event \<Rightarrow> (('c, 'z) world_scheme, unit) comp" where
  "b_nak B ev = via (bus_nak B (re_msg ev)) (Naked (re_msg ev))"

definition b_fetch :: "'c bus \<Rightarrow> pystr \<Rightarrow> nat \<Rightarrow> (('c, 'z) world_scheme, received_event list) comp" where
  "b_fetch B durable batch = via (bus_fetch B durable batch) (Fetched durable batch)"

definition b_subscribe :: "'c bus \<Rightarrow> pystr \<Rightarrow> pystr option \<Rightarrow> (('c, 'z) world_scheme, pystr) comp" where
  "b_subscribe B subject durable = via (bus_subscribe B subject durable) (Subscribed subject durable)"

definition tick :: "(('c, 'z) world_scheme, nat) comp" where
  "tick w = (Inr (w_tick w), w\<lparr>w_tick := Suc (w_tick w)\<rparr>)"

definition utc_now :: "host \<Rightarrow> (('c, 'z) world_scheme, datetime) comp" where
  "utc_now H = seq tick (\<lambda>t. ret (utc_now_at H t))"

definition monotonic :: "host \<Rightarrow> (('c, 'z) world_scheme, int) comp" where
  "monotonic H = seq tick (\<lambda>t. ret (monotonic_at H t))"

text \<open>
  \<open>try: m / except p: h; return\<close> followed by \<open>k\<close> when \<open>m\<close> did not raise.
\<close>

definition try_else :: "(exn \<Rightarrow> bool) \<Rightarrow> ('w, 'a) comp \<Rightarrow> ('w, 'b) comp \<Rightarrow> ('a \<Rightarrow> ('w, 'b) comp) \<Rightarrow> ('w, 'b) comp" where
  "try_else p m h k w = (case m w of
     (Inl e, w') \<Rightarrow> if p e then h w' else (Inl e, w')
   | (Inr a, w') \<Rightarrow> k a w')"

text \<open>A pure computation that may raise, inside a handler.\<close>

definition lift_res :: "'a res \<Rightarrow> ('w, 'a) comp" where
  "lift_res r w = (r, w)"

text \<open>A payload stamped with the current time, published as a reply to \<open>ev\<close>.\<close>

definition publish_reply ::
  "'c bus \<Rightarrow> host \<Rightarrow> received_event \<Rightarrow> pystr \<Rightarrow> pystr \<Rightarrow> (datetime \<Rightarrow> bytes)
   \<Rightarrow> (('c, 'z) world_scheme, pystr) comp" where
  "publish_reply B H ev subject etype payload =
     seq (utc_now H) (\<lambda>now.
     b_publish B \<lparr>pa_subject = subject, pa_payload = payload now, pa_event_type = etype,
       pa_correlation_id = Some (event_id (details ev)), pa_msg_id = None\<rparr>)"

text \<open>A host on which nothing fails, and a bus that accepts every call.\<close>

definition calm_host :: host where
  "calm_host = \<lparr>utc_now_at = (\<lambda>t. int t), monotonic_at = (\<lambda>t. int t),
     os_fault_at = (\<lambda>_. False), write_cut_at = (\<lambda>_. None)\<rparr>"

definition calm_bus :: "unit bus" where
  "calm_bus = \<lparr>bus_publish = (\<lambda>_. ret []), bus_ack = (\<lambda>_. ret ()), bus_nak = (\<lambda>_. ret ()),
     bus_fetch = (\<lambda>_ _. ret []), bus_subscribe = (\<lambda>s _. ret s)\<rparr>"

text \<open>An event with a given payload, all other fields blank.\<close>

definition plain_event :: "bytes \<Rightarrow> received_event" where
  "plain_event raw = \<lparr>re_event = \<lparr>ev_event = \<lparr>ee_details =
       \<lparr>event_id = py ''id'', event_created = 0, event_type = [], event_schema_version = [],
        source_service_id = [], correlation_id = None, signature = None, source_public_key = None\<rparr>,
       ee_encryption = \<lparr>algorithm = [], recipients = []\<rparr>, ee_payload = []\<rparr>\<rparr>,
     re_payload = raw,
     re_msg = \<lparr>msg_subject = [], msg_data = [], msg_num_delivered = 1, msg_token = 0\<rparr>\<rparr>"

section \<open>The contract of a command handler\<close>

fun settled_msg :: "bus_call \<Rightarrow> msg list" where
  "settled_msg (Acked m (Inr _)) = [m]"
| "settled_msg (Naked m (Inr _)) = [m]"
| "settled_msg _ = []"

fun fetched_msg :: "bus_call \<Rightarrow> msg list" where
  "fetched_msg (Fetched _ _ (Inr evs)) = map re_msg evs"
| "fetched_msg _ = []"

definition settled :: "bus_call list \<Rightarrow> msg list" where
  "settled cs = concat (map settled_msg cs)"

definition fetched :: "bus_call list \<Rightarrow> msg list" where
  "fetched cs = concat (map fetched_msg cs)"

lemma settled_simps [simp]:
  "settled [] = []" "settled (c # cs) = settled_msg c @ settled cs"
  "settled (cs @ ds) = settled cs @ settled ds"
  by (simp_all add: settled_def)

lemma fetched_simps [simp]:
  "fetched [] = []" "fetched (c # cs) = fetched_msg c @ fetched cs"
  "fetched (cs @ ds) = fetched cs @ fetched ds"
  by (simp_all add: fetched_def)

fun is_publish :: "bus_call \<Rightarrow> bool" where
  "is_publish (Published _ _) = True"
| "is_publish _ = False"

text \<open>
  \<open>run_once\<close> of every handler class: fetch a batch, handle its events in order, return how
  many there were.
\<close>

definition run_once ::
  "'c bus \<Rightarrow> (received_event \<Rightarrow> (('c, 'z) world_scheme, unit) comp) \<Rightarrow> pystr \<Rightarrow> nat
   \<Rightarrow> (('c, 'z) world_scheme, nat) comp" where
  "run_once B handle durable_name batch =
     seq (b_fetch B durable_name batch) (\<lambda>events.
     seq (for_each handle events) (\<lambda>_. ret (length events)))"

text \<open>
  \<open>_run_command_loop\<close>: the list holds the readings of \<open>shutdown.is_set()\<close>. \<open>None\<close> says that
  the loop is still running after these readings.
\<close>

fun run_command_loop ::
  "'c bus \<Rightarrow> (received_event \<Rightarrow> (('c, 'z) world_scheme, unit) comp) \<Rightarrow> pystr \<Rightarrow> nat \<Rightarrow> bool list
   \<Rightarrow> ('c, 'z) world_scheme \<Rightarrow> unit res option \<times> ('c, 'z) world_scheme" where
  "run_command_loop B handle durable batch [] w = (None, w)"
| "run_command_loop B handle durable batch (True # rs) w = (Some (Inr ()), w)"
| "run_command_loop B handle durable batch (False # rs) w =
     (case run_once B handle durable batch w of
        (Inl e, w') \<Rightarrow> (Some (Inl e), w')
      | (Inr _, w') \<Rightarrow> run_command_loop B handle durable batch rs w')"

locale command_handler =
  fixes handle :: "received_event \<Rightarrow> (('c, 'z) world_scheme, unit) comp"
  assumes settles: "handle ev w = (Inr u, w') \<Longrightarrow>
      \<exists>pubs s. w_calls w' = w_calls w @ pubs @ [s] \<and> settled_msg s = [re_msg ev]
        \<and> (\<forall>c \<in> set pubs. is_publish c)"
    and unsettled: "handle ev w = (Inl e, w') \<Longrightarrow>
      \<exists>cs. w_calls w' = w_calls w @ cs \<and> settled cs = [] \<and> fetched cs = []"
begin

lemma publishes_settle_nothing: "\<forall>c \<in> set cs. is_publish c \<Longrightarrow> settled cs = [] \<and> fetched cs = []"
proof (induction cs)
  case (Cons c cs)
  then show ?case by (cases c) auto
qed simp

lemma handle_settled:
  "handle ev w = (Inr u, w') \<Longrightarrow>
     settled (w_calls w') = settled (w_calls w) @ [re_msg ev] \<and> fetched (w_calls w') = fetched (w_calls w)"
  by (drule settles) (auto dest!: publishes_settle_nothing elim!: settled_msg.elims)

lemma handle_unsettled:
  "handle ev w = (Inl e, w') \<Longrightarrow>
     settled (w_calls w') = settled (w_calls w) \<and> fetched (w_calls w') = fetched (w_calls w)"
  by (drule unsettled) auto

lemma for_each_settled:
  "for_each handle evs w = (Inr u, w') \<Longrightarrow>
     settled (w_calls w') = settled (w_calls w) @ map re_msg evs \<and> fetched (w_calls w') = fetched (w_calls w)"
proof (induction evs arbitrary: w)
  case (Cons ev evs)
  then obtain w1 where h: "handle ev w = (Inr (), w1)" and r: "for_each handle evs w1 = (Inr u, w')"
    by (auto split: prod.splits sum.splits)
  show ?case using Cons.IH [OF r] handle_settled [OF h] by simp
qed simp

lemma for_each_raised:
  "for_each handle evs w = (Inl e, w') \<Longrightarrow>
     \<exists>k < length evs. settled (w_calls w') = settled (w_calls w) @ map re_msg (take k evs)
       \<and> fetched (w_calls w') = fetched (w_calls w)"
proof (induction evs arbitrary: w)
  case (Cons ev evs)
  show ?case
  proof (cases "handle ev w")
    case (Pair r w1)
    show ?thesis
    proof (cases r)
      case (Inl e1)
      then have "settled (w_calls w') = settled (w_calls w) @ map re_msg (take 0 (ev # evs))
          \<and> fetched (w_calls w') = fetched (w_calls w)"
        using Cons.prems Pair handle_unsettled [of ev w e1 w1] by simp
      then show ?thesis by (intro exI [of _ 0]) simp
    next
      case (Inr u)
      then have "for_each handle evs w1 = (Inl e, w')" using Cons.prems Pair by simp
      from Cons.IH [OF this] obtain k where
        "k < length evs" "settled (w_calls w') = settled (w_calls w1) @ map re_msg (take k evs)"
        "fetched (w_calls w') = fetched (w_calls w1)" by blast
      with handle_settled [of ev w u w1] Pair Inr show ?thesis
        by (intro exI [of _ "Suc k"]) simp
    qed
  qed
qed simp

text \<open>A batch that was handled to the end: every message fetched was settled, in order.\<close>

lemma run_once_settles:
  assumes "run_once B handle durable batch w = (Inr n, w')"
  shows "\<exists>msgs. n = length msgs \<and> fetched (w_calls w') = fetched (w_calls w) @ msgs
           \<and> settled (w_calls w') = settled (w_calls w) @ msgs"
proof -
  obtain evs w1 u where f: "b_fetch B durable batch w = (Inr evs, w1)"
    and h: "for_each handle evs w1 = (Inr u, w')" and n: "n = length evs"
    using assms by (auto simp: run_once_def comp_simps split: prod.splits sum.splits)
  have "w_calls w1 = w_calls w @ [Fetched durable batch (Inr evs)]"
    using f by (auto simp: b_fetch_def via_def split: prod.splits)
  with for_each_settled [OF h] n show ?thesis by (intro exI [of _ "map re_msg evs"]) simp
qed

text \<open>An exception leaves a strict suffix of the batch unsettled, for redelivery.\<close>

lemma run_once_raised:
  assumes "run_once B handle durable batch w = (Inl e, w')"
  shows "\<exists>msgs k. fetched (w_calls w') = fetched (w_calls w) @ msgs \<and> k \<le> length msgs
           \<and> settled (w_calls w') = settled (w_calls w) @ take k msgs"
proof (cases "b_fetch B durable batch w")
  case (Pair r w1)
  have c: "w_calls w1 = w_calls w @ [Fetched durable batch r]"
    using Pair by (auto simp: b_fetch_def via_def split: prod.splits)
  show ?thesis
  proof (cases r)
    case (Inl e1)
    then have "w' = w1" using assms Pair by (simp add: run_once_def comp_simps)
    with c Inl show ?thesis by (intro exI [of _ "[]"]) simp
  next
    case (Inr evs)
    then have "for_each handle evs w1 = (Inl e, w')"
      using assms Pair by (auto simp: run_once_def comp_simps split: prod.splits sum.splits)
    from for_each_raised [OF this] obtain k where
      "k < length evs" "settled (w_calls w') = settled (w_calls w1) @ map re_msg (take k evs)"
      "fetched (w_calls w') = fetched (w_calls w1)" by blast
    with c Inr show ?thesis
      by (intro exI [of _ "map re_msg evs"] exI [of _ k]) (simp add: take_map)
  qed
qed

text \<open>The command loop: while it runs, and when it stops for a shutdown, nothing it fetched
  is left unsettled; when it raises, a suffix of the last batch is.\<close>

lemma loop_settles:
  "run_command_loop B handle durable batch rs w = (r, w') \<Longrightarrow>
   settled (w_calls w) = fetched (w_calls w) \<Longrightarrow> r = None \<or> r = Some (Inr ()) \<Longrightarrow>
   settled (w_calls w') = fetched (w_calls w')"
proof (induction rs arbitrary: w)
  case (Cons b rs)
  show ?case
  proof (cases b)
    case True
    then show ?thesis using Cons.prems by auto
  next
    case False
    then obtain n w1 where "run_once B handle durable batch w = (Inr n, w1)"
      and "run_command_loop B handle durable batch rs w1 = (r, w')"
      using Cons.prems by (auto split: prod.splits sum.splits)
    with Cons.IH Cons.prems run_once_settles show ?thesis by fastforce
  qed
qed auto

lemma loop_raised:
  "run_command_loop B handle durable batch rs w = (Some (Inl e), w') \<Longrightarrow>
   settled (w_calls w) = fetched (w_calls w) \<Longrightarrow>
   \<exists>rest. fetched (w_calls w') = settled (w_calls w') @ rest"
proof (induction rs arbitrary: w)
  case (Cons b rs)
  show ?case
  proof (cases b)
    case True
    then show ?thesis using Cons.prems by simp
  next
    case False
    show ?thesis
    proof (cases "run_once B handle durable batch w")
      case (Pair r w1)
      show ?thesis
      proof (cases r)
        case (Inl e1)
        with Pair False Cons.prems have "run_once B handle durable batch w = (Inl e, w')" by simp
        from run_once_raised [OF this] Cons.prems(2) show ?thesis
          by (metis append.assoc append_take_drop_id)
      next
        case (Inr n)
        with Pair False Cons.prems run_once_settles [of B durable batch w n w1]
        show ?thesis by (intro Cons.IH [of w1]) auto
      qed
    qed
  qed
qed simp

end

section \<open>Rules for showing the contract\<close>

lemma b_ack_calls: "b_ack B ev w = (r, w') \<Longrightarrow> w_calls w' = w_calls w @ [Acked (re_msg ev) r]"
  by (auto simp: b_ack_def via_def split: prod.splits)

lemma b_nak_calls: "b_nak B ev w = (r, w') \<Longrightarrow> w_calls w' = w_calls w @ [Naked (re_msg ev) r]"
  by (auto simp: b_nak_def via_def split: prod.splits)

lemma b_publish_calls: "b_publish B a w = (r, w') \<Longrightarrow> w_calls w' = w_calls w @ [Published a r]"
  by (auto simp: b_publish_def via_def split: prod.splits)

text \<open>
  \<open>settling ev m\<close>: run from any world, \<open>m\<close> behaves as the contract asks. The rules follow
  the shape of the handlers: a settling call; silent steps before it; a publish before it;
  a \<open>try\<close> whose handler and continuation both settle.
\<close>

definition outcome_ok :: "received_event \<Rightarrow> bus_call list \<Rightarrow> unit res \<Rightarrow> bus_call list \<Rightarrow> bool" where
  "outcome_ok ev cs r cs' \<longleftrightarrow> (case r of
     Inr u \<Rightarrow> \<exists>pubs s. cs' = cs @ pubs @ [s] \<and> settled_msg s = [re_msg ev] \<and> (\<forall>c \<in> set pubs. is_publish c)
   | Inl e \<Rightarrow> \<exists>ds. cs' = cs @ ds \<and> settled ds = [] \<and> fetched ds = [])"

definition settling :: "received_event \<Rightarrow> (('c, 'z) world_scheme, unit) comp \<Rightarrow> bool" where
  "settling ev m \<longleftrightarrow> (\<forall>w r w'. m w = (r, w') \<longrightarrow> outcome_ok ev (w_calls w) r (w_calls w'))"

text \<open>\<open>silent m\<close>: \<open>m\<close> makes no call.\<close>

definition silent :: "(('c, 'z) world_scheme, 'a) comp \<Rightarrow> bool" where
  "silent m \<longleftrightarrow> (\<forall>w r w'. m w = (r, w') \<longrightarrow> w_calls w' = w_calls w)"

named_theorems settling_intros \<open>rules that show the contract of a handler\<close>

lemma settlingD: "settling ev m \<Longrightarrow> m w = (r, w') \<Longrightarrow> outcome_ok ev (w_calls w) r (w_calls w')"
  by (simp add: settling_def)

lemma silentD: "silent m \<Longrightarrow> m w = (r, w') \<Longrightarrow> w_calls w' = w_calls w"
  by (simp add: silent_def)

lemma outcome_ok_nothing: "outcome_ok ev cs (Inl e) cs"
  by (simp add: outcome_ok_def)

lemma outcome_ok_publish: "is_publish c \<Longrightarrow> outcome_ok ev (cs @ [c]) r cs' \<Longrightarrow> outcome_ok ev cs r cs'"
proof (cases r)
  case (Inl e)
  assume "is_publish c" and "outcome_ok ev (cs @ [c]) r cs'"
  then obtain ds where "cs' = cs @ (c # ds)" "settled (c # ds) = []" "fetched (c # ds) = []"
    using Inl by (cases c) (auto simp: outcome_ok_def)
  with Inl show ?thesis unfolding outcome_ok_def by auto
next
  case (Inr u)
  assume "is_publish c" and "outcome_ok ev (cs @ [c]) r cs'"
  then obtain pubs s where "cs' = cs @ (c # pubs) @ [s]" "settled_msg s = [re_msg ev]"
    "\<forall>c \<in> set (c # pubs). is_publish c"
    using Inr by (auto simp: outcome_ok_def)
  then have "\<exists>pubs s. cs' = cs @ pubs @ [s] \<and> settled_msg s = [re_msg ev] \<and> (\<forall>c \<in> set pubs. is_publish c)"
    by blast
  with Inr show ?thesis by (simp add: outcome_ok_def)
qed

lemma settling_ack [settling_intros]: "settling ev (b_ack B ev)"
  unfolding settling_def
proof (intro allI impI)
  fix w :: "('a, 'b) world_scheme" and r w'
  assume "b_ack B ev w = (r, w')"
  from b_ack_calls [OF this] show "outcome_ok ev (w_calls w) r (w_calls w')"
    by (cases r) (auto simp: outcome_ok_def)
qed

lemma settling_nak [settling_intros]: "settling ev (b_nak B ev)"
  unfolding settling_def
proof (intro allI impI)
  fix w :: "('a, 'b) world_scheme" and r w'
  assume "b_nak B ev w = (r, w')"
  from b_nak_calls [OF this] show "outcome_ok ev (w_calls w) r (w_calls w')"
    by (cases r) (auto simp: outcome_ok_def)
qed

lemma settling_raise [settling_intros]: "settling ev (raise e)"
  by (simp add: settling_def raise_def outcome_ok_nothing)

lemma seq_cases:
  assumes "seq m k w = (r, w')"
  obtains e where "m w = (Inl e, w')" "r = Inl e"
  | a w1 where "m w = (Inr a, w1)" "k a w1 = (r, w')"
  using assms by (auto simp: seq_def split: prod.splits sum.splits)

lemma silent_seq [settling_intros]: "silent m \<Longrightarrow> (\<And>a. silent (k a)) \<Longrightarrow> silent (seq m k)"
  unfolding silent_def
proof (intro allI impI)
  fix w r w'
  assume m: "\<forall>w r w'. m w = (r, w') \<longrightarrow> w_calls w' = w_calls w"
    and k: "\<And>a. \<forall>w r w'. k a w = (r, w') \<longrightarrow> w_calls w' = w_calls w"
    and s: "seq m k w = (r, w')"
  from s show "w_calls w' = w_calls w"
    by (cases rule: seq_cases) (simp_all add: m [rule_format] k [rule_format])
qed

lemma silent_ret [settling_intros]: "silent (ret a)"
  by (simp add: silent_def ret_def)

lemma silent_lift_res [settling_intros]: "silent (lift_res r)"
  by (simp add: silent_def lift_res_def)

lemma silent_tick [settling_intros]: "silent tick"
  by (auto simp: silent_def tick_def)

lemma silent_utc_now [settling_intros]: "silent (utc_now H)"
  unfolding utc_now_def by (intro settling_intros)

lemma silent_monotonic [settling_intros]: "silent (monotonic H)"
  unfolding monotonic_def by (intro settling_intros)

lemma silent_if [settling_intros]: "silent m \<Longrightarrow> silent n \<Longrightarrow> silent (if b then m else n)"
  by simp

lemma settling_if [settling_intros]:
  "settling ev m \<Longrightarrow> settling ev n \<Longrightarrow> settling ev (if b then m else n)"
  by simp

lemma settling_silent [settling_intros]:
  assumes "silent m" and "\<And>a. settling ev (k a)"
  shows "settling ev (seq m k)"
  unfolding settling_def
proof (intro allI impI)
  fix w r w' assume s: "seq m k w = (r, w')"
  then show "outcome_ok ev (w_calls w) r (w_calls w')"
  proof (cases rule: seq_cases)
    case (1 e)
    then show ?thesis using silentD [OF assms(1) 1(1)] by (simp add: outcome_ok_nothing)
  next
    case (2 a w1)
    then show ?thesis
      using silentD [OF assms(1) 2(1)] settlingD [OF assms(2) 2(2)] by simp
  qed
qed

lemma settling_try [settling_intros]:
  assumes "silent m" and "settling ev h" and "\<And>a. settling ev (k a)"
  shows "settling ev (try_else p m h k)"
  unfolding settling_def
proof (intro allI impI)
  fix w r w' assume t: "try_else p m h k w = (r, w')"
  obtain r1 w1 where m: "m w = (r1, w1)" by fastforce
  note c = silentD [OF assms(1) m]
  show "outcome_ok ev (w_calls w) r (w_calls w')"
  proof (cases r1)
    case (Inr a)
    with t m have "k a w1 = (r, w')" by (simp add: try_else_def)
    from settlingD [OF assms(3) this] c show ?thesis by simp
  next
    case (Inl e)
    show ?thesis
    proof (cases "p e")
      case True
      with Inl t m have "h w1 = (r, w')" by (simp add: try_else_def)
      from settlingD [OF assms(2) this] c show ?thesis by simp
    next
      case False
      with Inl t m have "r = Inl e" "w' = w1" by (simp_all add: try_else_def)
      with c show ?thesis by (simp add: outcome_ok_nothing)
    qed
  qed
qed

lemma settling_publish:
  assumes "\<And>a. settling ev (k a)"
  shows "settling ev (seq (b_publish B args) k)"
  unfolding settling_def
proof (intro allI impI)
  fix w r w' assume s: "seq (b_publish B args) k w = (r, w')"
  then show "outcome_ok ev (w_calls w) r (w_calls w')"
  proof (cases rule: seq_cases)
    case (1 e)
    show ?thesis using b_publish_calls [OF 1(1)] 1(2) by (simp add: outcome_ok_def)
  next
    case (2 a w1)
    have "outcome_ok ev (w_calls w @ [Published args (Inr a)]) r (w_calls w')"
      using settlingD [OF assms 2(2)] unfolding b_publish_calls [OF 2(1)] .
    then show ?thesis by (rule outcome_ok_publish [rotated]) simp
  qed
qed

lemma seq_assoc: "seq (seq m k) h = seq m (\<lambda>a. seq (k a) h)"
  by (auto simp: seq_def fun_eq_iff split: prod.splits sum.splits)

lemma settling_reply [settling_intros]:
  "(\<And>a. settling ev (k a)) \<Longrightarrow> settling ev (seq (publish_reply B H ev' s t p) k)"
  unfolding publish_reply_def seq_assoc by (intro settling_silent settling_publish settling_intros)

lemma settling_lift_res [settling_intros]:
  assumes "\<And>a. r = Inr a \<Longrightarrow> settling ev (k a)"
  shows "settling ev (seq (lift_res r) k)"
  using assms by (cases r) (auto simp: settling_def seq_def lift_res_def outcome_ok_nothing)

text \<open>A handler shown \<open>settling\<close> on every event meets the contract.\<close>

lemma command_handlerI: "(\<And>ev. settling ev (handle ev)) \<Longrightarrow> command_handler handle"
proof unfold_locales
  fix ev w u w'
  assume s: "\<And>ev. settling ev (handle ev)" and "handle ev w = (Inr u, w')"
  from settlingD [OF s this(2)] show "\<exists>pubs s. w_calls w' = w_calls w @ pubs @ [s] \<and>
      settled_msg s = [re_msg ev] \<and> (\<forall>c \<in> set pubs. is_publish c)"
    by (simp add: outcome_ok_def)
next
  fix ev w e w'
  assume s: "\<And>ev. settling ev (handle ev)" and "handle ev w = (Inl e, w')"
  from settlingD [OF s this(2)] show "\<exists>cs. w_calls w' = w_calls w @ cs \<and> settled cs = [] \<and> fetched cs = []"
    by (simp add: outcome_ok_def)
qed

section \<open>What a run adds to the trace\<close>

lemma try_else_cases:
  assumes "try_else p m h k w = (r, w')"
  obtains e where "m w = (Inl e, w')" "\<not> p e" "r = Inl e"
  | e w1 where "m w = (Inl e, w1)" "p e" "h w1 = (r, w')"
  | a w1 where "m w = (Inr a, w1)" "k a w1 = (r, w')"
  using assms by (auto simp: try_else_def split: prod.splits sum.splits if_splits)

lemma lift_res_cases:
  assumes "lift_res r w = (r', w')" shows "r' = r \<and> w' = w"
  using assms by (simp add: lift_res_def)

lemma reply_cases:
  assumes "publish_reply B H ev s t p w = (r, w')"
  obtains now where
    "w_calls w' = w_calls w @ [Published \<lparr>pa_subject = s, pa_payload = p now, pa_event_type = t,
       pa_correlation_id = Some (event_id (details ev)), pa_msg_id = None\<rparr> r]"
proof -
  let ?a = "\<lambda>now. \<lparr>pa_subject = s, pa_payload = p now, pa_event_type = t,
       pa_correlation_id = Some (event_id (details ev)), pa_msg_id = None\<rparr>"
  let ?w = "w\<lparr>w_tick := Suc (w_tick w)\<rparr>"
  have "b_publish B (?a (utc_now_at H (w_tick w))) ?w = (r, w')"
    using assms by (simp add: publish_reply_def utc_now_def seq_def tick_def ret_def)
  from b_publish_calls [OF this] that show thesis by simp
qed

text \<open>Publish a reply, then acknowledge: what the trace gains.\<close>

lemma reply_ack_calls:
  assumes "seq (publish_reply B H ev s t p) (\<lambda>_. b_ack B ev) w = (r, w')"
  obtains now r1 rest where
    "w_calls w' = w_calls w @ Published \<lparr>pa_subject = s, pa_payload = p now, pa_event_type = t,
       pa_correlation_id = Some (event_id (details ev)), pa_msg_id = None\<rparr> r1 # rest"
    "\<forall>c \<in> set rest. \<not> is_publish c"
  using assms
proof (cases rule: seq_cases)
  case (1 e)
  from 1(1) show thesis by (rule reply_cases) (rule that [of _ _ "[]"], simp_all)
next
  case (2 a w1)
  from 2(1) show thesis
  proof (rule reply_cases)
    fix now
    assume "w_calls w1 = w_calls w @ [Published \<lparr>pa_subject = s, pa_payload = p now, pa_event_type = t,
       pa_correlation_id = Some (event_id (details ev)), pa_msg_id = None\<rparr> (Inr a)]"
    with b_ack_calls [OF 2(2)] show thesis by (intro that [of now "Inr a" "[Acked (re_msg ev) r]"]) simp_all
  qed
qed

text \<open>The calls a run added to the trace, and the events among them that were published.\<close>

definition new_calls :: "('c, 'z) world_scheme \<Rightarrow> ('c, 'z) world_scheme \<Rightarrow> bus_call list" where
  "new_calls w w' = drop (length (w_calls w)) (w_calls w')"

definition publishes :: "bus_call list \<Rightarrow> publish_args set" where
  "publishes cs = {a. \<exists>r. Published a r \<in> set cs}"

lemma publishes_none: "\<forall>c \<in> set cs. \<not> is_publish c \<Longrightarrow> publishes cs = {}"
  by (force simp: publishes_def)

definition reply_args :: "received_event \<Rightarrow> pystr \<Rightarrow> string \<Rightarrow> bytes \<Rightarrow> publish_args" where
  "reply_args ev s t payload = \<lparr>pa_subject = s, pa_payload = payload, pa_event_type = py t,
     pa_correlation_id = Some (event_id (details ev)), pa_msg_id = None\<rparr>"

lemma reply_ack_publishes:
  assumes "seq (publish_reply B H ev s (py t) p) (\<lambda>_. b_ack B ev) w = (r, w')"
  shows "\<exists>now. publishes (new_calls w w') = {reply_args ev s t (p now)}"
  using assms
proof (rule reply_ack_calls)
  fix now r1 rest
  assume "w_calls w' = w_calls w @ Published \<lparr>pa_subject = s, pa_payload = p now, pa_event_type = py t,
       pa_correlation_id = Some (event_id (details ev)), pa_msg_id = None\<rparr> r1 # rest"
    and r: "\<forall>c \<in> set rest. \<not> is_publish c"
  then have c: "new_calls w w' = Published (reply_args ev s t (p now)) r1 # rest"
    by (simp add: new_calls_def reply_args_def)
  have "publishes (new_calls w w') = {reply_args ev s t (p now)}"
    unfolding c using publishes_none [OF r] by (auto simp: publishes_def)
  then show ?thesis ..
qed

text \<open>
  \<open>answered_with\<close>: the calls of a run that ends in a reply are one publish and, if that succeeded,
  one ack, whose outcome is that of the run.
\<close>

definition answered_with :: "received_event \<Rightarrow> (datetime \<Rightarrow> publish_args) \<Rightarrow> bus_call list \<Rightarrow> unit res \<Rightarrow> bool" where
  "answered_with ev reply cs r \<longleftrightarrow> (\<exists>now.
     (\<exists>e. cs = [Published (reply now) (Inl e)] \<and> r = Inl e)
     \<or> (\<exists>i. cs = [Published (reply now) (Inr i), Acked (re_msg ev) r]))"

lemma reply_ack_answers:
  assumes "seq (publish_reply B H ev s (py t) p) (\<lambda>_. b_ack B ev) w = (r, w')"
  shows "answered_with ev (\<lambda>now. reply_args ev s t (p now)) (new_calls w w') r"
  using assms
proof (cases rule: seq_cases)
  case (1 e)
  from 1(1) show ?thesis
    by (rule reply_cases) (use 1 in \<open>auto simp: answered_with_def new_calls_def reply_args_def\<close>)
next
  case (2 a w1)
  from 2(1) show ?thesis
    by (rule reply_cases) (use b_ack_calls [OF 2(2)] in \<open>auto simp: answered_with_def new_calls_def reply_args_def\<close>)
qed

lemma answered_publishes: "answered_with ev reply cs r \<Longrightarrow> \<exists>now. publishes cs = {reply now}"
  by (auto simp: answered_with_def publishes_def)

lemma new_calls_same: "w_calls w1 = w_calls w \<Longrightarrow> new_calls w1 w' = new_calls w w'"
  by (simp add: new_calls_def)

lemma new_calls_none: "w_calls w' = w_calls w \<Longrightarrow> publishes (new_calls w w') = {}"
  by (simp add: new_calls_def publishes_def)

lemma nak_publishes: "b_nak B ev w = (r, w') \<Longrightarrow> publishes (new_calls w w') = {}"
  by (drule b_nak_calls) (simp add: new_calls_def publishes_def)

lemma early_publishes:
  "\<exists>cs. w_calls w' = w_calls w @ cs \<and> (\<forall>c \<in> set cs. \<not> is_publish c) \<Longrightarrow> publishes (new_calls w w') = {}"
  by (auto simp: new_calls_def publishes_none)

section \<open>Runs that only use the bus\<close>

text \<open>\<open>bus_only m\<close>: \<open>m\<close> leaves the part of the world that an adapter adds alone.\<close>

definition bus_only :: "(('c, 'z) world_scheme, 'a) comp \<Rightarrow> bool" where
  "bus_only m \<longleftrightarrow> (\<forall>w r w'. m w = (r, w') \<longrightarrow> world.more w' = world.more w)"

named_theorems bus_only_intros \<open>runs that only use the bus\<close>

lemma bus_onlyD: "bus_only m \<Longrightarrow> m w = (r, w') \<Longrightarrow> world.more w' = world.more w"
  by (simp add: bus_only_def)

lemma bus_only_via: "bus_only (via m l)"
  by (auto simp: bus_only_def via_def split: prod.splits)

lemma bus_only_calls [bus_only_intros]:
  "bus_only (b_ack B ev)" "bus_only (b_nak B ev)" "bus_only (b_publish B a)"
  "bus_only (b_fetch B d n)" "bus_only (b_subscribe B s d')"
  unfolding b_ack_def b_nak_def b_publish_def b_fetch_def b_subscribe_def by (rule bus_only_via)+

lemma bus_only_pure [bus_only_intros]:
  "bus_only (ret a)" "bus_only (raise e)" "bus_only (lift_res r)" "bus_only tick"
  by (auto simp: bus_only_def ret_def raise_def lift_res_def tick_def)

lemma bus_only_seq [bus_only_intros]:
  assumes "bus_only m" and "\<And>a. bus_only (k a)"
  shows "bus_only (seq m k)"
  unfolding bus_only_def
proof (intro allI impI)
  fix w r w' assume "seq m k w = (r, w')"
  then show "world.more w' = world.more w"
    by (cases rule: seq_cases) (simp_all add: bus_onlyD [OF assms(1)] bus_onlyD [OF assms(2)])
qed

lemma bus_only_if [bus_only_intros]: "bus_only m \<Longrightarrow> bus_only n \<Longrightarrow> bus_only (if b then m else n)"
  by simp

lemma bus_only_reply [bus_only_intros]: "bus_only (publish_reply B H ev s t p)"
  unfolding publish_reply_def utc_now_def by (intro bus_only_intros)

end
