(* ===== verification/Fs_Payloads.thy ===== *)
theory Fs_Payloads
  imports Py_Json Py_Time
begin

text \<open>
  \<open>file_storage_adapter/payloads.py\<close>: the logical payloads of the file events. Decoders
  turn bytes into requests or an exception; encoders build the JSON of every result event.
  The lemmas say which exceptions leave a decoder and what a consumer that parses an
  encoded payload reads in each field.
\<close>

section \<open>Requests\<close>

record write_request =
  wr_path :: pystr
  wr_content :: bytes

definition decode_write_requested :: "bytes \<Rightarrow> write_request res" where
  "decode_write_requested raw =
     rbind
       (catch_as (\<lambda>e. e \<in> {JSONDecodeError, KeyErr, TypeErr} \<or> is_value_error e) MalformedPayloadError
         (rbind (json_loads raw) (\<lambda>data.
          rbind (json_item data (py ''path'')) (\<lambda>path.
          rbind (json_item data (py ''content'')) (\<lambda>content.
          rmap (\<lambda>bs. (path, bs)) (json_b64decode True content))))))
       (\<lambda>(path, bs). case path of
          JStr p \<Rightarrow> if p = [] then Inl MalformedPayloadError
                    else Inr \<lparr>wr_path = p, wr_content = bs\<rparr>
        | _ \<Rightarrow> Inl MalformedPayloadError)"

record path_only_request =
  po_path :: pystr

definition decode_path_only_request :: "bytes \<Rightarrow> bool \<Rightarrow> path_only_request res" where
  "decode_path_only_request raw allow_empty_path =
     rbind
       (catch_as (\<lambda>e. e \<in> {JSONDecodeError, KeyErr, TypeErr}) MalformedPayloadError
         (rbind (json_loads raw) (\<lambda>data. json_item data (py ''path''))))
       (\<lambda>path. case path of
          JStr p \<Rightarrow> if p = [] \<and> \<not> allow_empty_path then Inl MalformedPayloadError
                    else Inr \<lparr>po_path = p\<rparr>
        | _ \<Rightarrow> Inl MalformedPayloadError)"

section \<open>Results\<close>

text \<open>\<open>_iso(occurred_at or utc_now())\<close>: a \<open>datetime\<close> is always true in a condition.\<close>

definition iso :: "datetime option \<Rightarrow> datetime \<Rightarrow> pystr" where
  "iso occurred_at utc_now = iso_utc (case occurred_at of Some t \<Rightarrow> t | None \<Rightarrow> utc_now)"

definition encode_completed :: "pystr \<Rightarrow> nat \<Rightarrow> datetime option \<Rightarrow> datetime \<Rightarrow> bytes" where
  "encode_completed path size_bytes occurred_at utc_now =
     json_bytes (JDict
       [(py ''path'', JStr path),
        (py ''sizeBytes'', JInt (int size_bytes)),
        (py ''occurredAt'', JStr (iso occurred_at utc_now))])"

definition encode_create_completed :: "pystr \<Rightarrow> nat \<Rightarrow> datetime option \<Rightarrow> datetime \<Rightarrow> bytes" where
  "encode_create_completed path size_bytes occurred_at utc_now =
     encode_completed path size_bytes occurred_at utc_now"

definition encode_write_completed :: "pystr \<Rightarrow> nat \<Rightarrow> datetime option \<Rightarrow> datetime \<Rightarrow> bytes" where
  "encode_write_completed path size_bytes occurred_at utc_now =
     encode_completed path size_bytes occurred_at utc_now"

definition encode_read_completed :: "pystr \<Rightarrow> bytes \<Rightarrow> datetime option \<Rightarrow> datetime \<Rightarrow> bytes" where
  "encode_read_completed path content occurred_at utc_now =
     json_bytes (JDict
       [(py ''path'', JStr path),
        (py ''content'', JStr (b64encode content)),
        (py ''sizeBytes'', JInt (int (length content))),
        (py ''occurredAt'', JStr (iso occurred_at utc_now))])"

record file_entry =
  fe_name :: pystr
  fe_is_directory :: bool
  fe_size_bytes :: nat

definition entry_json :: "file_entry \<Rightarrow> json" where
  "entry_json e = JDict
     [(py ''name'', JStr (fe_name e)),
      (py ''isDirectory'', JBool (fe_is_directory e)),
      (py ''sizeBytes'', JInt (int (fe_size_bytes e)))]"

definition encode_list_completed ::
  "pystr \<Rightarrow> file_entry list \<Rightarrow> datetime option \<Rightarrow> datetime \<Rightarrow> bytes" where
  "encode_list_completed path entries occurred_at utc_now =
     json_bytes (JDict
       [(py ''path'', JStr path),
        (py ''entries'', JList (map entry_json entries)),
        (py ''occurredAt'', JStr (iso occurred_at utc_now))])"

definition encode_delete_completed :: "pystr \<Rightarrow> datetime option \<Rightarrow> datetime \<Rightarrow> bytes" where
  "encode_delete_completed path occurred_at utc_now =
     json_bytes (JDict
       [(py ''path'', JStr path), (py ''occurredAt'', JStr (iso occurred_at utc_now))])"

definition encode_operation_failed ::
  "pystr \<Rightarrow> pystr \<Rightarrow> pystr \<Rightarrow> datetime option \<Rightarrow> datetime \<Rightarrow> bytes" where
  "encode_operation_failed path operation reason occurred_at utc_now =
     json_bytes (JDict
       [(py ''path'', JStr path),
        (py ''operation'', JStr operation),
        (py ''reason'', JStr reason),
        (py ''occurredAt'', JStr (iso occurred_at utc_now))])"

section \<open>What leaves a decoder\<close>

lemma decode_write_requested_cases:
  "decode_write_requested raw = Inl MalformedPayloadError
   \<or> (\<exists>r. decode_write_requested raw = Inr r \<and> wr_path r \<noteq> [])"
proof (cases "rbind (json_loads raw) (\<lambda>data.
          rbind (json_item data (py ''path'')) (\<lambda>path.
          rbind (json_item data (py ''content'')) (\<lambda>content.
          rmap (\<lambda>bs. (path, bs)) (json_b64decode True content))))")
  case (Inl e)
  then have "e \<in> {JSONDecodeError, KeyErr, TypeErr} \<or> is_value_error e"
    by (auto simp: rbind_Inl_iff is_value_error_def
        dest!: json_loads_error json_item_error json_b64decode_error)
  with Inl show ?thesis by (auto simp: decode_write_requested_def catch_as_def)
next
  case (Inr a)
  then show ?thesis
    by (cases a; cases "fst a") (auto simp: decode_write_requested_def catch_as_def)
qed

lemma decode_path_only_cases:
  "decode_path_only_request raw allow \<in> {Inl MalformedPayloadError, Inl ValueErr, Inl UnicodeDecodeError}
   \<or> (\<exists>r. decode_path_only_request raw allow = Inr r \<and> (po_path r \<noteq> [] \<or> allow))"
proof (cases "rbind (json_loads raw) (\<lambda>data. json_item data (py ''path''))")
  case (Inl e)
  then have "e \<in> {JSONDecodeError, KeyErr, TypeErr, ValueErr, UnicodeDecodeError}"
    by (auto simp: rbind_Inl_iff dest!: json_loads_error json_item_error)
  with Inl show ?thesis by (auto simp: decode_path_only_request_def catch_as_def)
next
  case (Inr a)
  then show ?thesis
    by (cases a) (auto simp: decode_path_only_request_def catch_as_def)
qed

text \<open>A payload whose text decodes as UTF-8 but whose bytes do not: the error that escapes.\<close>

lemma decode_path_only_undecodable:
  "decode_text raw = Inl UnicodeDecodeError \<Longrightarrow>
   decode_path_only_request raw allow = Inl UnicodeDecodeError"
  by (simp add: decode_path_only_request_def json_loads_def catch_as_def)

section \<open>What a consumer reads\<close>

lemma json_loads_path:
  "json_ok (JDict ps) \<Longrightarrow> map_of ps (py ''path'') = Some (JStr p) \<Longrightarrow> p \<noteq> [] \<or> allow \<Longrightarrow>
   decode_path_only_request (json_bytes (JDict ps)) allow = Inr \<lparr>po_path = p\<rparr>"
  by (auto simp: decode_path_only_request_def json.dec_enc catch_as_def simp del: json_ok.simps)

lemma decode_write_requested_of:
  assumes "json_ok (JDict ps)" and "map_of ps (py ''path'') = Some (JStr p)" and "p \<noteq> []"
    and "map_of ps (py ''content'') = Some (JStr (b64encode bs))"
  shows "decode_write_requested (json_bytes (JDict ps)) = Inr \<lparr>wr_path = p, wr_content = bs\<rparr>"
  using assms by (simp add: decode_write_requested_def json.dec_enc b64.dec_enc catch_as_def
      del: json_ok.simps)

lemma scalar_iso [simp]: "scalar_str (iso oa now)"
  by (simp add: iso_def)

lemma decode_completed_path:
  assumes "scalar_str p" and "int n < 10 ^ 100"
  shows "json_loads (encode_completed p n oa now) = Inr (JDict
     [(py ''path'', JStr p), (py ''sizeBytes'', JInt (int n)), (py ''occurredAt'', JStr (iso oa now))])"
  unfolding encode_completed_def using assms json_ok_JInt [of "int n"]
  by (intro json.dec_enc) (simp del: json_ok.simps(3))

text \<open>The content of a \<open>FileReadCompleted\<close> payload decodes to the bytes that were read.\<close>

lemma read_completed_fields:
  assumes "scalar_str p" and "int (length bs) < 10 ^ 100"
  shows "rbind (json_loads (encode_read_completed p bs oa now))
           (\<lambda>d. rbind (json_item d (py ''content'')) (json_b64decode True)) = Inr bs"
    and "rbind (json_loads (encode_read_completed p bs oa now)) (\<lambda>d. json_item d (py ''path''))
           = Inr (JStr p)"
    and "rbind (json_loads (encode_read_completed p bs oa now)) (\<lambda>d. json_item d (py ''sizeBytes''))
           = Inr (JInt (int (length bs)))"
proof -
  have "json_loads (encode_read_completed p bs oa now) = Inr (JDict
       [(py ''path'', JStr p), (py ''content'', JStr (b64encode bs)),
        (py ''sizeBytes'', JInt (int (length bs))), (py ''occurredAt'', JStr (iso oa now))])"
    unfolding encode_read_completed_def using assms json_ok_JInt [of "int (length bs)"]
    by (intro json.dec_enc) (simp del: json_ok.simps(3))
  then show
    "rbind (json_loads (encode_read_completed p bs oa now))
       (\<lambda>d. rbind (json_item d (py ''content'')) (json_b64decode True)) = Inr bs"
    "rbind (json_loads (encode_read_completed p bs oa now)) (\<lambda>d. json_item d (py ''path''))
       = Inr (JStr p)"
    "rbind (json_loads (encode_read_completed p bs oa now)) (\<lambda>d. json_item d (py ''sizeBytes''))
       = Inr (JInt (int (length bs)))"
    by (simp_all add: b64.dec_enc)
qed

lemma operation_failed_fields:
  assumes "scalar_str p" and "scalar_str op'" and "scalar_str reason"
  shows "json_loads (encode_operation_failed p op' reason oa now) = Inr (JDict
     [(py ''path'', JStr p), (py ''operation'', JStr op'), (py ''reason'', JStr reason),
      (py ''occurredAt'', JStr (iso oa now))])"
  unfolding encode_operation_failed_def using assms by (intro json.dec_enc) simp

lemma json_ok_entry:
  "scalar_str (fe_name e) \<Longrightarrow> int (fe_size_bytes e) < 10 ^ 100 \<Longrightarrow> json_ok (entry_json e)"
  using json_ok_JInt [of "int (fe_size_bytes e)"] by (simp add: entry_json_def del: json_ok.simps(3))

text \<open>Every listed entry reads back with its name, kind and size, in the order it was listed.\<close>

lemma list_completed_fields:
  assumes "scalar_str p" and "\<forall>e \<in> set es. scalar_str (fe_name e) \<and> int (fe_size_bytes e) < 10 ^ 100"
  shows "rbind (json_loads (encode_list_completed p es oa now)) (\<lambda>d. json_item d (py ''entries''))
           = Inr (JList (map entry_json es))"
proof -
  have "json_loads (encode_list_completed p es oa now) = Inr (JDict
       [(py ''path'', JStr p), (py ''entries'', JList (map entry_json es)),
        (py ''occurredAt'', JStr (iso oa now))])"
    unfolding encode_list_completed_def using assms
    by (intro json.dec_enc) (simp add: json_ok_entry)
  then show ?thesis by simp
qed

lemma entry_json_inject: "entry_json e = entry_json e' \<Longrightarrow> e = e'"
  by (cases e; cases e') (simp add: entry_json_def)

end
