(* ===== verification/Fs_Model.thy ===== *)
theory Fs_Model
  imports Py_Codec
begin

text \<open>
  The POSIX file system the adapters run on, as far as \<open>pathlib\<close> and \<open>os\<close> show it: a finite
  map from absolute paths to files, directories and symbolic links; the kernel's path walk,
  which follows links up to a limit; and the operations \<open>paths.py\<close> and the handlers call:
  \<open>exists\<close>, \<open>is_file\<close>, \<open>is_dir\<close>, \<open>stat\<close>, \<open>mkdir(parents=True, exist_ok=True)\<close>, \<open>open\<close> for
  writing and reading, \<open>unlink\<close>, \<open>iterdir\<close> and \<open>resolve\<close>. A component of a path is a Python
  string; a path is its list of components, so the root is the empty list.
\<close>

type_synonym path = "pystr list"

datatype fnode = File bytes | Dir | Symlink pystr

type_synonym filesystem = "(path, fnode) pydict"

datatype errno = ENOENT | ENOTDIR | ELOOP | EEXIST | EISDIR | EIO

definition os_exn :: "errno \<Rightarrow> exn" where
  "os_exn e = (if e = ENOENT then FileNotFoundError else OSErr)"

lemma is_os_error_os_exn [simp]: "is_os_error (os_exn e)"
  by (simp add: os_exn_def is_os_error_def)

definition DOT :: pystr where "DOT = py ''.''"
definition DOTDOT :: pystr where "DOTDOT = py ''..''"
definition SLASH :: nat where "SLASH = of_char (CHR ''/'')"

text \<open>The root directory is not an entry: it always exists.\<close>

definition node_at :: "filesystem \<Rightarrow> path \<Rightarrow> fnode option" where
  "node_at fs p = (if p = [] then Some Dir else dict_get fs p)"

section \<open>The kernel's path walk\<close>

text \<open>
  \<open>namei n fs cur comps\<close> walks \<open>comps\<close> from the directory \<open>cur\<close>, following at most \<open>n\<close>
  links. A missing last component is not an error of the walk; every other component has to
  be a directory.
\<close>

definition is_abs :: "pystr \<Rightarrow> bool" where
  "is_abs s \<longleftrightarrow> s \<noteq> [] \<and> hd s = SLASH"

function namei :: "nat \<Rightarrow> filesystem \<Rightarrow> path \<Rightarrow> pystr list \<Rightarrow> errno + path" where
  "namei n fs cur [] = Inr cur"
| "namei n fs cur (c # cs) =
     (case node_at fs cur of
        None \<Rightarrow> Inl ENOENT
      | Some (File _) \<Rightarrow> Inl ENOTDIR
      | Some (Symlink _) \<Rightarrow> Inl ENOTDIR
      | Some Dir \<Rightarrow>
          (if c = [] \<or> c = DOT then namei n fs cur cs
           else if c = DOTDOT then namei n fs (butlast cur) cs
           else (case node_at fs (cur @ [c]) of
                   Some (Symlink t) \<Rightarrow>
                     (if n = 0 then Inl ELOOP
                      else namei (n - 1) fs (if is_abs t then [] else cur) (split_on SLASH t @ cs))
                 | _ \<Rightarrow> namei n fs (cur @ [c]) cs)))"
  by pat_completeness auto
termination
  by (relation "measures [\<lambda>(n, _, _, _). n, \<lambda>(_, _, _, cs). length cs]") auto

definition MAXSYMLINKS :: nat where "MAXSYMLINKS = 40"

definition walk :: "filesystem \<Rightarrow> path \<Rightarrow> errno + path" where
  "walk fs p = namei MAXSYMLINKS fs [] p"

definition k_stat :: "filesystem \<Rightarrow> path \<Rightarrow> errno + fnode" where
  "k_stat fs p = rbind (walk fs p)
     (\<lambda>q. case node_at fs q of None \<Rightarrow> Inl ENOENT | Some nd \<Rightarrow> Inr nd)"

text \<open>The parent is walked, the last component is not followed (\<open>lstat\<close>, \<open>unlink\<close>, \<open>mkdir\<close>).\<close>

definition walk_parent :: "filesystem \<Rightarrow> path \<Rightarrow> errno + path" where
  "walk_parent fs p = rbind (walk fs (butlast p))
     (\<lambda>q. case node_at fs q of
        Some Dir \<Rightarrow> Inr (q @ [last p]) | None \<Rightarrow> Inl ENOENT | _ \<Rightarrow> Inl ENOTDIR)"

section \<open>Operations of \<open>pathlib\<close> and \<open>os\<close>\<close>

text \<open>\<open>exists\<close>, \<open>is_file\<close>, \<open>is_dir\<close>: the errors of the walk mean \<open>False\<close>.\<close>

definition p_exists :: "filesystem \<Rightarrow> path \<Rightarrow> bool" where
  "p_exists fs p = (case k_stat fs p of Inl _ \<Rightarrow> False | Inr _ \<Rightarrow> True)"

definition p_is_file :: "filesystem \<Rightarrow> path \<Rightarrow> bool" where
  "p_is_file fs p = (case k_stat fs p of Inr (File _) \<Rightarrow> True | _ \<Rightarrow> False)"

definition p_is_dir :: "filesystem \<Rightarrow> path \<Rightarrow> bool" where
  "p_is_dir fs p = (case k_stat fs p of Inr Dir \<Rightarrow> True | _ \<Rightarrow> False)"

text \<open>\<open>stat().st_size\<close>; the size of a directory is whatever the file system says, here 0.\<close>

definition p_size :: "filesystem \<Rightarrow> path \<Rightarrow> errno + nat" where
  "p_size fs p = rbind (k_stat fs p)
     (\<lambda>nd. case nd of File b \<Rightarrow> Inr (length b) | _ \<Rightarrow> Inr 0)"

definition os_mkdir :: "filesystem \<Rightarrow> path \<Rightarrow> errno + filesystem" where
  "os_mkdir fs p =
     (if p = [] then Inl EEXIST
      else rbind (walk_parent fs p)
        (\<lambda>q. case node_at fs q of Some _ \<Rightarrow> Inl EEXIST | None \<Rightarrow> Inr (dict_set q Dir fs)))"

text \<open>
  \<open>p.mkdir(parents=True, exist_ok=True)\<close>: on \<open>FileNotFoundError\<close> the parents are made first
  and the call is repeated; any other error is forgiven when \<open>p\<close> is a directory. The
  recursion is on the parents.
\<close>

definition mkdir_once :: "filesystem \<Rightarrow> path \<Rightarrow> errno + filesystem" where
  "mkdir_once fs p = (case os_mkdir fs p of
     Inr fs' \<Rightarrow> Inr fs'
   | Inl e \<Rightarrow> if e \<noteq> ENOENT \<and> p_is_dir fs p then Inr fs else Inl e)"

function mkdir_p :: "filesystem \<Rightarrow> path \<Rightarrow> (errno + unit) \<times> filesystem" where
  "mkdir_p fs p = (case os_mkdir fs p of
     Inr fs' \<Rightarrow> (Inr (), fs')
   | Inl ENOENT \<Rightarrow>
       (if p = [] then (Inl ENOENT, fs)
        else (case mkdir_p fs (butlast p) of
                (Inl e, fs') \<Rightarrow> (Inl e, fs')
              | (Inr _, fs') \<Rightarrow>
                  (case mkdir_once fs' p of Inl e \<Rightarrow> (Inl e, fs') | Inr fs'' \<Rightarrow> (Inr (), fs''))))
   | Inl e \<Rightarrow> (if p_is_dir fs p then (Inr (), fs) else (Inl e, fs)))"
  by pat_completeness auto
termination
  by (relation "measure (\<lambda>(_, p). length p)") auto

declare mkdir_p.simps [simp del]

text \<open>\<open>open(p, "wb")\<close>: creates or truncates the file the path leads to.\<close>

definition open_wb :: "filesystem \<Rightarrow> path \<Rightarrow> errno + (path \<times> filesystem)" where
  "open_wb fs p = rbind (walk fs p) (\<lambda>q.
     case node_at fs q of
       Some Dir \<Rightarrow> Inl EISDIR
     | Some (File _) \<Rightarrow> Inr (q, dict_set q (File []) fs)
     | Some (Symlink _) \<Rightarrow> Inl ELOOP
     | None \<Rightarrow> (case node_at fs (butlast q) of
                  Some Dir \<Rightarrow> Inr (q, dict_set q (File []) fs)
                | None \<Rightarrow> Inl ENOENT | _ \<Rightarrow> Inl ENOTDIR))"

definition read_rb :: "filesystem \<Rightarrow> path \<Rightarrow> errno + bytes" where
  "read_rb fs p = rbind (k_stat fs p)
     (\<lambda>nd. case nd of File b \<Rightarrow> Inr b | Dir \<Rightarrow> Inl EISDIR | Symlink _ \<Rightarrow> Inl ELOOP)"

definition os_unlink :: "filesystem \<Rightarrow> path \<Rightarrow> errno + filesystem" where
  "os_unlink fs p =
     (if p = [] then Inl EISDIR
      else rbind (walk_parent fs p)
        (\<lambda>q. case node_at fs q of
           None \<Rightarrow> Inl ENOENT | Some Dir \<Rightarrow> Inl EISDIR | Some _ \<Rightarrow> Inr (dict_pop q fs)))"

text \<open>\<open>sorted(p.iterdir())\<close>: the names of the entries, by code points.\<close>

fun str_le :: "pystr \<Rightarrow> pystr \<Rightarrow> bool" where
  "str_le [] t = True"
| "str_le (c # s) [] = False"
| "str_le (c # s) (d # t) = (c < d \<or> c = d \<and> str_le s t)"

fun insort :: "pystr \<Rightarrow> pystr list \<Rightarrow> pystr list" where
  "insort x [] = [x]"
| "insort x (y # ys) = (if str_le x y then x # y # ys else y # insort x ys)"

definition sort_names :: "pystr list \<Rightarrow> pystr list" where
  "sort_names xs = fold insort xs []"

definition child_names :: "filesystem \<Rightarrow> path \<Rightarrow> pystr list" where
  "child_names fs d = map (last \<circ> fst) (filter (\<lambda>(p, _). p \<noteq> [] \<and> butlast p = d) fs)"

definition sorted_iterdir :: "filesystem \<Rightarrow> path \<Rightarrow> errno + pystr list" where
  "sorted_iterdir fs p = rbind (walk fs p)
     (\<lambda>q. case node_at fs q of
        Some Dir \<Rightarrow> Inr (sort_names (child_names fs q))
      | None \<Rightarrow> Inl ENOENT | _ \<Rightarrow> Inl ENOTDIR)"

section \<open>\<open>os.path.realpath\<close> and \<open>Path.resolve\<close>\<close>

text \<open>
  \<open>_joinrealpath(path, rest, strict=False, seen)\<close>. The result is the path reached, whether
  every link was resolved, and the memo of links; on a loop the path is the link itself
  followed by the unresolved rest. The first argument bounds the nesting of links.
\<close>

type_synonym link_memo = "(path, path option) pydict"

definition lstat_link :: "filesystem \<Rightarrow> path \<Rightarrow> pystr option" where
  "lstat_link fs p = (case walk_parent fs p of
     Inl _ \<Rightarrow> None
   | Inr q \<Rightarrow> (case node_at fs q of Some (Symlink t) \<Rightarrow> Some t | _ \<Rightarrow> None))"

text \<open>\<open>os.path.join(path, rest)\<close>, \<open>rest\<close> the components of a string: an absolute \<open>rest\<close> wins.\<close>

definition path_join :: "path \<Rightarrow> pystr list \<Rightarrow> path" where
  "path_join p rest = (if 2 \<le> length rest \<and> hd rest = [] then rest else p @ rest)"

text \<open>What \<open>os\<close> rejects before any system call: a name that has no file-system encoding
  (\<open>surrogateescape\<close> covers \<open>U+DC80\<close> to \<open>U+DCFF\<close>), or a NUL.\<close>

definition path_error :: "path \<Rightarrow> exn option" where
  "path_error p =
     (if \<exists>c \<in> set (concat p). is_surrogate c \<and> \<not> (0xDC80 \<le> c \<and> c \<le> 0xDCFF)
      then Some UnicodeEncodeError
      else if 0 \<in> set (concat p) then Some ValueErr else None)"

fun joinrealpath ::
  "nat \<Rightarrow> filesystem \<Rightarrow> path \<Rightarrow> pystr list \<Rightarrow> link_memo \<Rightarrow> (path \<times> bool \<times> link_memo) res" where
  "joinrealpath k fs path [] seen = Inr (path, True, seen)"
| "joinrealpath k fs path (name # rest) seen =
     (if name = [] \<or> name = DOT then joinrealpath k fs path rest seen
      else if name = DOTDOT then joinrealpath k fs (butlast path) rest seen
      else
        (let newpath = path @ [name] in
         case path_error newpath of
           Some e \<Rightarrow> Inl e
         | None \<Rightarrow>
           (case lstat_link fs newpath of
              None \<Rightarrow> joinrealpath k fs newpath rest seen
            | Some target \<Rightarrow>
              (case dict_get seen newpath of
                 Some (Some p) \<Rightarrow> joinrealpath k fs p rest seen
               | Some None \<Rightarrow> Inr (path_join newpath rest, False, seen)
               | None \<Rightarrow>
                 (case k of
                    0 \<Rightarrow> Inl FuelExhausted
                  | Suc k' \<Rightarrow>
                    (case joinrealpath k' fs (if is_abs target then [] else path)
                            (split_on SLASH target) (dict_set newpath None seen) of
                       Inl e \<Rightarrow> Inl e
                     | Inr (p, ok, seen') \<Rightarrow>
                         (if \<not> ok then Inr (path_join p rest, False, seen')
                          else joinrealpath k fs p rest (dict_set newpath (Some p) seen'))))))))"

text \<open>\<open>os.path.normpath\<close> of an absolute path.\<close>

definition normpath :: "path \<Rightarrow> path" where
  "normpath p = foldl (\<lambda>acc c. if c = [] \<or> c = DOT then acc
                               else if c = DOTDOT then butlast acc else acc @ [c]) [] p"

definition link_count :: "filesystem \<Rightarrow> nat" where
  "link_count fs = length (filter (\<lambda>(_, nd). case nd of Symlink _ \<Rightarrow> True | _ \<Rightarrow> False) fs)"

definition realpath :: "filesystem \<Rightarrow> path \<Rightarrow> (path \<times> bool) res" where
  "realpath fs p = rbind (joinrealpath (Suc (link_count fs)) fs [] p dict_empty)
     (\<lambda>(q, ok, _). Inr (normpath q, ok))"

text \<open>
  \<open>Path.resolve()\<close> (not strict): \<open>realpath\<close>, then a \<open>stat\<close> of the result whose only purpose
  is to notice a loop, reported as \<open>RuntimeError\<close>.
\<close>

definition resolve :: "filesystem \<Rightarrow> path \<Rightarrow> path res" where
  "resolve fs p = rbind (realpath fs p) (\<lambda>(q, _).
     case path_error q of
       Some e \<Rightarrow> Inl e
     | None \<Rightarrow> (case k_stat fs q of Inl ELOOP \<Rightarrow> Inl RuntimeErr | _ \<Rightarrow> Inr q))"

end
