(* ===== verification/Fs_Paths.thy ===== *)
theory Fs_Paths
  imports Fs_Model
begin

text \<open>
  \<open>file_storage_adapter/paths.py\<close>: \<open>resolve_within\<close>, the boundary every command passes, and
  what makes it one. A path it accepts, when every link on the way was resolved, is
  canonical: no prefix of it is a link, so the kernel's walk of it stays on it, and it lies
  below the resolved root.
\<close>

section \<open>The source\<close>

text \<open>The components pathlib keeps of a relative string.\<close>

definition path_parts :: "pystr \<Rightarrow> path" where
  "path_parts s = filter (\<lambda>c. c \<noteq> [] \<and> c \<noteq> DOT) (split_on SLASH s)"

definition parents :: "path \<Rightarrow> path list" where
  "parents p = map (\<lambda>i. take i p) (rev [0..<length p])"

definition resolve_within :: "filesystem \<Rightarrow> path \<Rightarrow> pystr \<Rightarrow> path res" where
  "resolve_within fs root relative =
     (if is_abs relative then Inl PathTraversalError
      else rbind (resolve fs root) (\<lambda>root_resolved.
           rbind (resolve fs (root_resolved @ path_parts relative)) (\<lambda>candidate.
             if candidate \<noteq> root_resolved \<and> root_resolved \<notin> set (parents candidate)
             then Inl PathTraversalError
             else Inr candidate)))"

section \<open>Well-formed file systems and canonical paths\<close>

definition normal_name :: "pystr \<Rightarrow> bool" where
  "normal_name c \<longleftrightarrow> c \<noteq> [] \<and> c \<noteq> DOT \<and> c \<noteq> DOTDOT"

text \<open>Every entry has a directory above it.\<close>

definition fs_wf :: "filesystem \<Rightarrow> bool" where
  "fs_wf fs \<longleftrightarrow> dict_ok fs \<and>
     (\<forall>(p, nd) \<in> set fs. p \<noteq> [] \<and> normal_name (last p) \<and> node_at fs (butlast p) = Some Dir)"

fun is_link :: "fnode option \<Rightarrow> bool" where
  "is_link (Some (Symlink _)) = True"
| "is_link _ = False"

definition canonical :: "filesystem \<Rightarrow> path \<Rightarrow> bool" where
  "canonical fs p \<longleftrightarrow> (\<forall>c \<in> set p. normal_name c) \<and> (\<forall>i \<le> length p. \<not> is_link (node_at fs (take i p)))"

lemma canonical_code [code]:
  "canonical fs p \<longleftrightarrow> list_all normal_name p \<and> list_all (\<lambda>i. \<not> is_link (node_at fs (take i p))) [0..<Suc (length p)]"
  by (auto simp: canonical_def list_all_iff)

lemma parents_iff: "r \<in> set (parents p) \<longleftrightarrow> (\<exists>i < length p. r = take i p)"
  by (auto simp: parents_def)

lemma contained_iff:
  "(c = r \<or> r \<in> set (parents c)) \<longleftrightarrow> (\<exists>rest. c = r @ rest)"
proof
  assume "c = r \<or> r \<in> set (parents c)"
  then obtain i where "r = take i c"
    unfolding parents_iff by (metis take_all_iff order_refl)
  then have "c = r @ drop i c" by simp
  then show "\<exists>rest. c = r @ rest" ..
next
  assume "\<exists>rest. c = r @ rest"
  then obtain rest where c: "c = r @ rest" ..
  show "c = r \<or> r \<in> set (parents c)"
  proof (cases "rest = []")
    case False
    then have "length r < length c" "r = take (length r) c" using c by simp_all
    then show ?thesis by (auto simp: parents_iff)
  qed (use c in simp)
qed

lemma canonical_Nil [simp]: "canonical fs []"
  by (simp add: canonical_def node_at_def)

lemma canonical_take: "canonical fs p \<Longrightarrow> canonical fs (take i p)"
  by (auto simp: canonical_def dest: in_set_takeD)

lemma canonical_append: "canonical fs (p @ q) \<Longrightarrow> canonical fs p"
  using canonical_take [of fs "p @ q" "length p"] by simp

lemma canonical_butlast [intro]: "canonical fs p \<Longrightarrow> canonical fs (butlast p)"
  by (simp add: butlast_conv_take canonical_take)

lemma canonical_snoc:
  "canonical fs (p @ [c]) \<longleftrightarrow> canonical fs p \<and> normal_name c \<and> \<not> is_link (node_at fs (p @ [c]))"
proof
  assume can: "canonical fs (p @ [c])"
  then have "\<not> is_link (node_at fs (take (length (p @ [c])) (p @ [c])))"
    unfolding canonical_def by blast
  moreover have "normal_name c" using can by (simp add: canonical_def)
  ultimately show "canonical fs p \<and> normal_name c \<and> \<not> is_link (node_at fs (p @ [c]))"
    using canonical_append [OF can] by simp
next
  assume r: "canonical fs p \<and> normal_name c \<and> \<not> is_link (node_at fs (p @ [c]))"
  show "canonical fs (p @ [c])"
    unfolding canonical_def
  proof (intro conjI allI impI)
    fix i assume "i \<le> length (p @ [c])"
    then show "\<not> is_link (node_at fs (take i (p @ [c])))"
      using r by (cases "i \<le> length p") (auto simp: canonical_def le_Suc_eq)
  qed (use r in \<open>auto simp: canonical_def\<close>)
qed

lemma node_at_Some_mem: "node_at fs p = Some nd \<Longrightarrow> p = [] \<and> nd = Dir \<or> (p, nd) \<in> set fs"
  by (auto simp: node_at_def dict_get_def split: if_splits dest: map_of_SomeD)

lemma fs_wf_parent: "fs_wf fs \<Longrightarrow> node_at fs (p @ [c]) = Some nd \<Longrightarrow> node_at fs p = Some Dir"
  by (drule node_at_Some_mem) (auto simp: fs_wf_def)

lemma fs_wf_parents: "fs_wf fs \<Longrightarrow> node_at fs (p @ q) = Some nd \<Longrightarrow> q \<noteq> [] \<Longrightarrow> node_at fs p = Some Dir"
proof (induction q arbitrary: nd rule: rev_induct)
  case (snoc c q)
  then have "node_at fs (p @ q) = Some Dir"
    using fs_wf_parent [of fs "p @ q" c nd] by simp
  with snoc show ?case by (cases "q = []") auto
qed simp

section \<open>The kernel walks a canonical path in place\<close>

lemma namei_canonical:
  "canonical fs (cur @ cs) \<Longrightarrow> namei n fs cur cs \<in> {Inr (cur @ cs), Inl ENOENT, Inl ENOTDIR}"
proof (induction cs arbitrary: cur)
  case (Cons c cs)
  have c: "normal_name c" using Cons.prems by (simp add: canonical_def)
  have "\<not> is_link (node_at fs (cur @ [c]))"
    using canonical_append [of fs "cur @ [c]" cs] Cons.prems by (simp add: canonical_snoc)
  moreover have "namei n fs (cur @ [c]) cs \<in> {Inr (cur @ c # cs), Inl ENOENT, Inl ENOTDIR}"
    using Cons.IH [of "cur @ [c]"] Cons.prems by simp
  ultimately show ?case
    using c by (auto simp: normal_name_def split: option.splits fnode.splits)
qed simp

lemma namei_present:
  "fs_wf fs \<Longrightarrow> canonical fs (cur @ cs) \<Longrightarrow> (cs \<noteq> [] \<Longrightarrow> node_at fs (cur @ butlast cs) = Some Dir) \<Longrightarrow>
   namei n fs cur cs = Inr (cur @ cs)"
proof (induction cs arbitrary: cur)
  case (Cons c cs)
  have c: "c \<noteq> []" "c \<noteq> DOT" "c \<noteq> DOTDOT"
    using Cons.prems(2) by (simp_all add: canonical_def normal_name_def)
  have link: "\<not> is_link (node_at fs (cur @ [c]))"
    using canonical_append [of fs "cur @ [c]" cs] Cons.prems(2) by (simp add: canonical_snoc)
  have cur: "node_at fs cur = Some Dir"
    using Cons.prems(3) fs_wf_parents [OF Cons.prems(1), of cur "butlast (c # cs)" Dir]
    by (cases "cs = []") simp_all
  have "namei n fs (cur @ [c]) cs = Inr ((cur @ [c]) @ cs)"
    by (rule Cons.IH) (use Cons.prems in simp_all)
  with c link cur show ?case
    by (simp split: option.split fnode.split)
       (metis is_link.simps(1))
qed simp

lemma walk_canonical: "canonical fs p \<Longrightarrow> walk fs p = Inr q \<Longrightarrow> q = p"
  using namei_canonical [of fs "[]" p MAXSYMLINKS] by (auto simp: walk_def)

lemma walk_not_loop: "canonical fs p \<Longrightarrow> walk fs p \<noteq> Inl ELOOP"
  using namei_canonical [of fs "[]" p MAXSYMLINKS] by (auto simp: walk_def)

lemma walk_present:
  "fs_wf fs \<Longrightarrow> canonical fs p \<Longrightarrow> node_at fs p = Some nd \<Longrightarrow> walk fs p = Inr p"
  unfolding walk_def using namei_present [of fs "[]" p MAXSYMLINKS] fs_wf_parents [of fs "butlast p" "[last p]" nd]
  by (cases "p = []") auto

lemma walk_parent_canonical:
  "canonical fs (butlast p) \<Longrightarrow> p \<noteq> [] \<Longrightarrow> walk_parent fs p = Inr q \<Longrightarrow> q = p \<and> node_at fs (butlast p) = Some Dir"
  using walk_canonical [of fs "butlast p"]
  by (cases "walk fs (butlast p)"; cases "node_at fs (butlast p)"; cases "the (node_at fs (butlast p))")
     (auto simp: walk_parent_def)

lemma walk_parent_present:
  "fs_wf fs \<Longrightarrow> canonical fs (butlast p) \<Longrightarrow> p \<noteq> [] \<Longrightarrow> node_at fs (butlast p) = Some Dir \<Longrightarrow>
   walk_parent fs p = Inr p"
  using walk_present [of fs "butlast p" Dir] by (simp add: walk_parent_def)

lemma k_stat_canonical:
  "fs_wf fs \<Longrightarrow> canonical fs p \<Longrightarrow> node_at fs p = Some nd \<Longrightarrow> k_stat fs p = Inr nd"
  using walk_present by (simp add: k_stat_def)

lemma k_stat_canonicalD:
  "canonical fs p \<Longrightarrow> k_stat fs p = Inr nd \<Longrightarrow> node_at fs p = Some nd"
  using walk_canonical [of fs p] by (auto simp: k_stat_def rbind_Inr_iff split: option.splits)

section \<open>\<open>realpath\<close> yields canonical paths\<close>

lemma lstat_link_canonical:
  assumes wf: "fs_wf fs" and can: "canonical fs p"
  shows "lstat_link fs (p @ [c]) = (case node_at fs (p @ [c]) of Some (Symlink t) \<Rightarrow> Some t | _ \<Rightarrow> None)"
proof (cases "walk_parent fs (p @ [c])")
  case (Inl e)
  then have "node_at fs p \<noteq> Some Dir"
    using walk_parent_present [OF wf, of "p @ [c]"] can by auto
  then have "node_at fs (p @ [c]) = None"
    using fs_wf_parent [OF wf] by (cases "node_at fs (p @ [c])") auto
  with Inl show ?thesis by (simp add: lstat_link_def)
next
  case (Inr q)
  then show ?thesis
    using walk_parent_canonical [of fs "p @ [c]" q] can by (simp add: lstat_link_def)
qed

definition memo_ok :: "filesystem \<Rightarrow> link_memo \<Rightarrow> bool" where
  "memo_ok fs seen \<longleftrightarrow> (\<forall>p q. dict_get seen p = Some (Some q) \<longrightarrow> canonical fs q)"

lemma memo_ok_set:
  "memo_ok fs seen \<Longrightarrow> (\<And>q. v = Some q \<Longrightarrow> canonical fs q) \<Longrightarrow> memo_ok fs (dict_set p v seen)"
  by (auto simp: memo_ok_def dict_simps)

text \<open>The links the walk has not met yet.\<close>

definition unseen :: "filesystem \<Rightarrow> link_memo \<Rightarrow> path set" where
  "unseen fs seen = {p. is_link (dict_get fs p) \<and> dict_get seen p = None}"

lemma finite_unseen [simp]: "finite (unseen fs seen)"
proof (rule finite_subset)
  show "unseen fs seen \<subseteq> fst ` set fs"
    by (auto simp: unseen_def dict_get_def elim!: is_link.elims dest!: map_of_SomeD intro: rev_image_eqI)
qed simp

lemma card_unseen_set:
  assumes "is_link (dict_get fs p)" and "dict_get seen p = None"
  shows "card (unseen fs (dict_set p v seen)) < card (unseen fs seen)"
proof (rule psubset_card_mono)
  have "p \<in> unseen fs seen" "p \<notin> unseen fs (dict_set p v seen)"
    using assms by (simp_all add: unseen_def dict_get_set)
  then show "unseen fs (dict_set p v seen) \<subset> unseen fs seen"
    by (auto simp: unseen_def dict_get_set split: if_splits)
qed simp

lemma unseen_set: "unseen fs (dict_set p v seen) \<subseteq> unseen fs seen"
  by (auto simp: unseen_def dict_simps split: if_splits)

text \<open>
  One induction gives the three facts: the path reached is canonical when all links were
  resolved, the memo stays canonical and only grows, and the bound is never exhausted.
\<close>

lemma joinrealpath_main:
  assumes "fs_wf fs" and "canonical fs p" and "memo_ok fs seen" and "card (unseen fs seen) \<le> k"
  shows "joinrealpath k fs p rest seen \<noteq> Inl FuelExhausted \<and>
     (\<forall>q ok seen'. joinrealpath k fs p rest seen = Inr (q, ok, seen') \<longrightarrow>
        (ok \<longrightarrow> canonical fs q) \<and> memo_ok fs seen' \<and> unseen fs seen' \<subseteq> unseen fs seen)"
  using assms
proof (induction k fs p rest seen rule: joinrealpath.induct)
  case (1 k fs path seen)
  then show ?case by simp
next
  case (2 k fs path name rest seen)
  let ?new = "path @ [name]"
  consider "name = [] \<or> name = DOT" | "name = DOTDOT" "name \<noteq> []" "name \<noteq> DOT" | "normal_name name"
    by (auto simp: normal_name_def)
  then show ?case
  proof cases
    case 1
    then show ?thesis using "2.IH"(1) "2.prems" by auto
  next
    case 2
    then show ?thesis using "2.IH"(2) "2.prems" canonical_butlast by auto
  next
    case 3
    then have nn: "\<not> (name = [] \<or> name = DOT)" "name \<noteq> DOTDOT" by (auto simp: normal_name_def)
    note lc = lstat_link_canonical [OF "2.prems"(1,2), of name]
    show ?thesis
    proof (cases "path_error ?new")
      case (Some e)
      then have "e \<noteq> FuelExhausted" by (auto simp: path_error_def split: if_splits)
      with Some nn show ?thesis by simp
    next
      case pe: None
      show ?thesis
      proof (cases "lstat_link fs ?new")
        case None
        then have "canonical fs ?new"
          using 3 "2.prems"(2) lc unfolding canonical_snoc
          by (cases "node_at fs ?new") (auto split: fnode.splits)
        with "2.IH"(3) [OF nn refl pe None "2.prems"(1) _ "2.prems"(3,4)] None nn pe
        show ?thesis by simp
      next
        case t: (Some target)
        show ?thesis
        proof (cases "dict_get seen ?new")
          case (Some v)
          show ?thesis
          proof (cases v)
            case None
            with Some t nn pe "2.prems" show ?thesis by simp
          next
            case vp: (Some p)
            have "canonical fs p" using "2.prems"(3) Some vp by (auto simp: memo_ok_def)
            with "2.IH"(6) [OF nn refl pe t Some vp "2.prems"(1) _ "2.prems"(3,4)] Some vp t nn pe
            show ?thesis by simp
          qed
        next
          case None
          have "is_link (dict_get fs ?new)"
            using lc t by (auto simp: node_at_def split: option.splits fnode.splits)
          note less = card_unseen_set [OF this None]
          obtain k' where k: "k = Suc k'"
            using less [of None] "2.prems"(4) by (cases k) auto
          let ?start = "if is_abs target then [] else path"
          let ?r = "joinrealpath k' fs ?start (split_on SLASH target) (dict_set ?new None seen)"
          have ih: "?r \<noteq> Inl FuelExhausted \<and>
             (\<forall>q ok seen'. ?r = Inr (q, ok, seen') \<longrightarrow>
                (ok \<longrightarrow> canonical fs q) \<and> memo_ok fs seen' \<and>
                unseen fs seen' \<subseteq> unseen fs (dict_set ?new None seen))"
            by (rule "2.IH"(4) [OF nn refl pe t None k "2.prems"(1)])
               (use "2.prems" k less [of None] in \<open>auto intro: memo_ok_set\<close>)
          show ?thesis
          proof (cases ?r)
            case (Inl e)
            with ih t nn pe None k show ?thesis by simp
          next
            case (Inr res)
            obtain p ok seen' where res: "res = (p, ok, seen')" by (cases res)
            have sub: "unseen fs seen' \<subseteq> unseen fs seen"
              using ih Inr res unseen_set by blast
            show ?thesis
            proof (cases ok)
              case False
              with Inr res ih sub t nn pe None k show ?thesis by simp
            next
              case True
              have p: "canonical fs p" and m: "memo_ok fs seen'"
                using ih Inr res True by auto
              have sub2: "unseen fs (dict_set ?new (Some p) seen') \<subseteq> unseen fs seen"
                using sub unseen_set by blast
              have card: "card (unseen fs (dict_set ?new (Some p) seen')) \<le> k"
                using card_mono [OF finite_unseen sub2] "2.prems"(4) by linarith
              have m2: "memo_ok fs (dict_set ?new (Some p) seen')"
                using m p by (auto intro: memo_ok_set)
              have ih2: "joinrealpath k fs p rest (dict_set ?new (Some p) seen') \<noteq> Inl FuelExhausted \<and>
                 (\<forall>q ok seen''. joinrealpath k fs p rest (dict_set ?new (Some p) seen') = Inr (q, ok, seen'') \<longrightarrow>
                   (ok \<longrightarrow> canonical fs q) \<and> memo_ok fs seen'' \<and>
                   unseen fs seen'' \<subseteq> unseen fs (dict_set ?new (Some p) seen'))"
                by (rule "2.IH"(5) [OF nn refl pe t None k Inr res [symmetric] refl _ "2.prems"(1) p m2 card])
                   (simp add: True)
              have eq: "joinrealpath k fs path (name # rest) seen =
                joinrealpath k fs p rest (dict_set ?new (Some p) seen')"
                using Inr res True t nn pe None k by simp
              show ?thesis unfolding eq using ih2 sub2 by blast
            qed
          qed
        qed
      qed
    qed
  qed
qed

lemma card_unseen_empty: "fs_wf fs \<Longrightarrow> card (unseen fs dict_empty) \<le> link_count fs"
proof -
  let ?ls = "filter (\<lambda>(_, nd). case nd of Symlink _ \<Rightarrow> True | _ \<Rightarrow> False) fs"
  have "unseen fs dict_empty \<subseteq> set (map fst ?ls)"
    by (force simp: unseen_def dict_get_def elim!: is_link.elims dest!: map_of_SomeD)
  then have "card (unseen fs dict_empty) \<le> card (set (map fst ?ls))"
    by (intro card_mono) simp_all
  also have "\<dots> \<le> link_count fs"
    unfolding link_count_def using card_length [of "map fst ?ls"] by simp
  finally show ?thesis .
qed

lemma normpath_canonical: "canonical fs p \<Longrightarrow> normpath p = p"
proof (induction p rule: rev_induct)
  case (snoc c p)
  then have "normpath p = p" "normal_name c" by (simp_all add: canonical_snoc)
  then show ?case by (simp add: normpath_def normal_name_def)
qed (simp add: normpath_def)

lemma memo_ok_empty [simp]: "memo_ok fs dict_empty"
  by (simp add: memo_ok_def)

lemmas joinrealpath_from_root =
  joinrealpath_main [OF _ canonical_Nil memo_ok_empty, of _ "Suc (link_count fs)" for fs]

lemma realpath_fuel: "fs_wf fs \<Longrightarrow> realpath fs p \<noteq> Inl FuelExhausted"
  using joinrealpath_from_root [of fs fs p] card_unseen_empty [of fs]
  by (auto simp: realpath_def rbind_Inl_iff)

lemma realpath_canonical: "fs_wf fs \<Longrightarrow> realpath fs p = Inr (q, True) \<Longrightarrow> canonical fs q"
  using joinrealpath_from_root [of fs fs p] card_unseen_empty [of fs]
  by (auto simp: realpath_def rbind_Inr_iff normpath_canonical)

definition links_resolve :: "filesystem \<Rightarrow> path \<Rightarrow> bool" where
  "links_resolve fs p = (case realpath fs p of Inr (_, ok) \<Rightarrow> ok | Inl _ \<Rightarrow> False)"

lemma resolve_realpath: "resolve fs p = Inr q \<Longrightarrow> \<exists>ok. realpath fs p = Inr (q, ok)"
  by (auto simp: resolve_def rbind_Inr_iff split: option.splits sum.splits errno.splits)

lemma resolve_canonical:
  "fs_wf fs \<Longrightarrow> links_resolve fs p \<Longrightarrow> resolve fs p = Inr q \<Longrightarrow> canonical fs q"
  using resolve_realpath [of fs p q] realpath_canonical [of fs p q]
  by (auto simp: links_resolve_def)

lemma resolve_path_error: "resolve fs p = Inr q \<Longrightarrow> path_error q = None"
  by (auto simp: resolve_def rbind_Inr_iff split: option.splits sum.splits errno.splits)

section \<open>The boundary\<close>

text \<open>What the resolved root and the accepted candidate are.\<close>

lemma resolve_within_InrE:
  assumes "resolve_within fs root rel = Inr cand"
  obtains r rest where "resolve fs root = Inr r" "cand = r @ rest"
    "resolve fs (r @ path_parts rel) = Inr cand" "\<not> is_abs rel"
  using assms contained_iff
  by (auto simp: resolve_within_def rbind_Inr_iff split: if_splits)

definition request_links_resolve :: "filesystem \<Rightarrow> path \<Rightarrow> pystr \<Rightarrow> bool" where
  "request_links_resolve fs root rel = (case resolve fs root of
     Inl _ \<Rightarrow> False | Inr r \<Rightarrow> links_resolve fs (r @ path_parts rel))"

lemma resolve_within_canonical:
  assumes "fs_wf fs" and "request_links_resolve fs root rel" and "resolve_within fs root rel = Inr cand"
  shows "canonical fs cand"
  using assms(3)
  by (rule resolve_within_InrE)
     (use assms resolve_canonical in \<open>auto simp: request_links_resolve_def\<close>)

lemma resolve_within_prefix:
  "resolve_within fs root rel = Inr cand \<Longrightarrow> resolve fs root = Inr r \<Longrightarrow> \<exists>rest. cand = r @ rest"
  by (erule resolve_within_InrE) simp

section \<open>Paths without links resolve to themselves\<close>

lemma path_error_append: "path_error (p @ q) = None \<Longrightarrow> path_error p = None"
  by (auto simp: path_error_def split: if_splits)

lemma joinrealpath_canonical:
  assumes "fs_wf fs"
  shows "canonical fs (p @ rest) \<Longrightarrow> path_error (p @ rest) = None \<Longrightarrow>
   joinrealpath k fs p rest seen = Inr (p @ rest, True, seen)"
proof (induction rest arbitrary: p)
  case (Cons c rest)
  have can: "canonical fs (p @ [c])" using Cons.prems(1) canonical_append [of fs "p @ [c]" rest] by simp
  then have c: "canonical fs p" "normal_name c" "\<not> is_link (node_at fs (p @ [c]))"
    by (simp_all add: canonical_snoc)
  have "path_error (p @ [c]) = None"
    using Cons.prems(2) path_error_append [of "p @ [c]" rest] by simp
  moreover have "lstat_link fs (p @ [c]) = None"
    using lstat_link_canonical [OF assms c(1), of c] c(3)
    by (auto split: option.splits fnode.splits)
  moreover have "joinrealpath k fs (p @ [c]) rest seen = Inr (p @ c # rest, True, seen)"
    using Cons.IH [of "p @ [c]"] Cons.prems by simp
  ultimately show ?case using c(2) by (simp add: normal_name_def)
qed simp

lemma realpath_id:
  "fs_wf fs \<Longrightarrow> canonical fs p \<Longrightarrow> path_error p = None \<Longrightarrow> realpath fs p = Inr (p, True)"
  using joinrealpath_canonical [of fs "[]" p] by (simp add: realpath_def normpath_canonical)

lemma resolve_id:
  assumes "fs_wf fs" and "canonical fs p" and "path_error p = None"
  shows "resolve fs p = Inr p"
proof -
  have "k_stat fs p \<noteq> Inl ELOOP"
    using walk_not_loop [OF assms(2)] by (auto simp: k_stat_def rbind_Inl_iff split: option.splits)
  then show ?thesis
    using realpath_id [OF assms] assms(3) by (auto simp: resolve_def split: sum.splits errno.splits)
qed

lemma resolve_within_plain:
  assumes "fs_wf fs" and "canonical fs (r @ path_parts rel)" and "path_error (r @ path_parts rel) = None"
    and "\<not> is_abs rel"
  shows "resolve_within fs r rel = Inr (r @ path_parts rel)"
proof -
  have "resolve fs r = Inr r"
    by (rule resolve_id [OF assms(1) canonical_append [OF assms(2)] path_error_append [OF assms(3)]])
  moreover have "resolve fs (r @ path_parts rel) = Inr (r @ path_parts rel)"
    by (rule resolve_id [OF assms(1-3)])
  ultimately show ?thesis
    using contained_iff [of "r @ path_parts rel" r] assms(4) by (auto simp: resolve_within_def)
qed

section \<open>Which exceptions leave the boundary\<close>

lemma path_error_cases: "path_error p = Some e \<Longrightarrow> e = UnicodeEncodeError \<or> e = ValueErr"
  by (auto simp: path_error_def split: if_splits)

lemma joinrealpath_raises:
  "raises_only {UnicodeEncodeError, ValueErr, FuelExhausted} (joinrealpath k fs p rest seen)"
proof (induction k fs p rest seen rule: joinrealpath.induct)
  case (2 k fs path name rest seen)
  note IH = "2.IH"
  let ?new = "path @ [name]"
  show ?case
  proof (cases "name = [] \<or> name = DOT \<or> name = DOTDOT")
    case True
    then show ?thesis using IH(1,2) by auto
  next
    case False
    then have nn: "\<not> (name = [] \<or> name = DOT)" "name \<noteq> DOTDOT" by auto
    show ?thesis
    proof (cases "path_error ?new")
      case (Some e)
      then show ?thesis using nn path_error_cases [OF Some] by (auto simp: raises_only_def)
    next
      case pe: None
      show ?thesis
      proof (cases "lstat_link fs ?new")
        case None
        then show ?thesis using IH(3) [OF nn refl pe None] nn pe by simp
      next
        case t: (Some target)
        show ?thesis
        proof (cases "dict_get seen ?new")
          case s: (Some v)
          then show ?thesis
            using IH(6) [OF nn refl pe t s] nn pe t by (cases v) (auto simp: raises_only_def)
        next
          case s: None
          show ?thesis
          proof (cases k)
            case 0
            then show ?thesis using nn pe t s by (simp add: raises_only_def)
          next
            case (Suc k')
            let ?r = "joinrealpath k' fs (if is_abs target then [] else path) (split_on SLASH target)
              (dict_set ?new None seen)"
            note ih = IH(4) [OF nn refl pe t s Suc]
            show ?thesis
            proof (cases ?r)
              case (Inl e)
              with ih nn pe t s Suc show ?thesis by (simp add: raises_only_def)
            next
              case (Inr res)
              obtain q ok seen' where res: "res = (q, ok, seen')" by (cases res)
              show ?thesis
              proof (cases ok)
                case True
                have "raises_only {UnicodeEncodeError, ValueErr, FuelExhausted}
                    (joinrealpath k fs q rest (dict_set ?new (Some q) seen'))"
                  by (rule IH(5) [OF nn refl pe t s Suc Inr res [symmetric] refl]) (simp add: True)
                with nn pe t s Suc Inr res True show ?thesis by simp
              next
                case False
                with nn pe t s Suc Inr res show ?thesis by (simp add: raises_only_def)
              qed
            qed
          qed
        qed
      qed
    qed
  qed
qed (simp add: raises_only_def)

lemma resolve_raises:
  assumes "fs_wf fs"
  shows "raises_only {UnicodeEncodeError, ValueErr, RuntimeErr} (resolve fs p)"
proof -
  have "raises_only {UnicodeEncodeError, ValueErr, FuelExhausted} (realpath fs p)"
    unfolding realpath_def by (intro raises_intros joinrealpath_raises) (auto simp: raises_only_def)
  with realpath_fuel [OF assms, of p] have "raises_only {UnicodeEncodeError, ValueErr} (realpath fs p)"
    by (auto simp: raises_only_def)
  then show ?thesis
    unfolding resolve_def
    by (intro raises_only_bind)
       (auto simp: raises_only_def dest: path_error_cases split: option.splits sum.splits errno.splits)
qed

lemma resolve_within_raises:
  "fs_wf fs \<Longrightarrow> raises_only {PathTraversalError, UnicodeEncodeError, ValueErr, RuntimeErr}
     (resolve_within fs root rel)"
  unfolding resolve_within_def
  by (intro raises_intros raises_only_mono [OF resolve_raises]) auto

end
