(* ===== verification/Fs_Effects.thy ===== *)
theory Fs_Effects
  imports Fs_Paths
begin

text \<open>
  What the operations of the file system change: each keeps the file system well formed, for
  any path; on a canonical path a change stays on that path, or on missing directories
  above it.
\<close>

section \<open>Single entries\<close>

lemma node_at_set: "node_at (dict_set q nd fs) p = (if p = [] then Some Dir else if p = q then Some nd else node_at fs p)"
  by (simp add: node_at_def dict_get_set)

lemma node_at_pop: "node_at (dict_pop q fs) p = (if p = [] then Some Dir else if p = q then None else node_at fs p)"
  by (simp add: node_at_def dict_get_pop)

lemma fs_wf_iff:
  "fs_wf fs \<longleftrightarrow> dict_ok fs \<and> dict_get fs [] = None \<and>
     (\<forall>p c nd. node_at fs (p @ [c]) = Some nd \<longrightarrow> normal_name c \<and> node_at fs p = Some Dir)"
  (is "?l \<longleftrightarrow> ?r")
proof
  assume l: ?l
  then have ok: "dict_ok fs" by (simp add: fs_wf_def)
  have "dict_get fs [] = None"
    using l by (auto simp: fs_wf_def dict_get_def map_of_eq_None_iff)
  moreover have "normal_name c \<and> node_at fs p = Some Dir" if "node_at fs (p @ [c]) = Some nd" for p c nd
    using l node_at_Some_mem [OF that] by (auto simp: fs_wf_def)
  ultimately show ?r using ok by blast
next
  assume r: ?r
  have "p \<noteq> [] \<and> normal_name (last p) \<and> node_at fs (butlast p) = Some Dir" if m: "(p, nd) \<in> set fs" for p nd
  proof -
    have get: "dict_get fs p = Some nd" using r m dict_get_mem [of fs p nd] by simp
    then have "p \<noteq> []" using r by auto
    then obtain q c where p: "p = q @ [c]" by (cases p rule: rev_cases) auto
    with get have "node_at fs (q @ [c]) = Some nd" by (simp add: node_at_def)
    with r p show ?thesis by auto
  qed
  with r show ?l unfolding fs_wf_def by blast
qed

lemma fs_wf_set:
  assumes wf: "fs_wf fs" and q: "q \<noteq> []" "normal_name (last q)" "node_at fs (butlast q) = Some Dir"
    and keep: "nd = Dir \<or> node_at fs q \<noteq> Some Dir"
  shows "fs_wf (dict_set q nd fs)"
  unfolding fs_wf_iff
proof (intro conjI allI impI)
  fix p c m assume m: "node_at (dict_set q nd fs) (p @ [c]) = Some m"
  show "normal_name c"
    using m q wf by (cases "p @ [c] = q") (auto simp: node_at_set fs_wf_iff)
  have "node_at fs p = Some Dir"
  proof (cases "p @ [c] = q")
    case True
    with q(3) show ?thesis by (metis butlast_snoc)
  next
    case False
    then show ?thesis using m fs_wf_parent [OF wf] by (simp add: node_at_set)
  qed
  then show "node_at (dict_set q nd fs) p = Some Dir"
    using keep by (auto simp: node_at_set)
qed (use wf q in \<open>auto simp: fs_wf_iff dict_get_set\<close>)

lemma fs_wf_pop:
  assumes wf: "fs_wf fs" and q: "node_at fs q \<noteq> Some Dir"
  shows "fs_wf (dict_pop q fs)"
  unfolding fs_wf_iff
proof (intro conjI allI impI)
  fix p c m assume m: "node_at (dict_pop q fs) (p @ [c]) = Some m"
  then have m': "node_at fs (p @ [c]) = Some m" by (auto simp: node_at_pop split: if_splits)
  then show "normal_name c" using wf by (auto simp: fs_wf_iff)
  show "node_at (dict_pop q fs) p = Some Dir"
    using fs_wf_parent [OF wf m'] q by (auto simp: node_at_pop)
qed (use wf in \<open>auto simp: fs_wf_iff dict_get_pop\<close>)

section \<open>The walk ends on normal names\<close>

lemma namei_normal:
  "namei n fs cur cs = Inr q \<Longrightarrow> \<forall>c \<in> set cur. normal_name c \<Longrightarrow> \<forall>c \<in> set q. normal_name c"
proof (induction n fs cur cs rule: namei.induct)
  case (2 n fs cur c cs)
  note prems = "2.prems" and IH = "2.IH"
  from prems(1) have cur: "node_at fs cur = Some Dir"
    by (cases "node_at fs cur"; cases "the (node_at fs cur)") auto
  consider "c = [] \<or> c = DOT" | "c = DOTDOT" "\<not> (c = [] \<or> c = DOT)" | "normal_name c"
    by (auto simp: normal_name_def)
  then show ?case
  proof cases
    case 1
    then show ?thesis using IH(1) [OF cur refl] prems cur by auto
  next
    case 2
    then show ?thesis using IH(2) [OF cur refl] prems cur by (auto dest: in_set_butlastD)
  next
    case 3
    then have nn: "\<not> (c = [] \<or> c = DOT)" "c \<noteq> DOTDOT" by (auto simp: normal_name_def)
    show ?thesis
    proof (cases "node_at fs (cur @ [c])")
      case None
      then show ?thesis using IH(3) [OF cur refl nn] prems cur nn 3 by auto
    next
      case (Some nd)
      show ?thesis
      proof (cases nd)
        case File
        have "namei n fs (cur @ [c]) cs = Inr q" using prems(1) cur nn Some File by simp
        then show ?thesis
          by (rule IH(4) [OF cur refl nn Some File]) (use prems(2) 3 in simp)
      next
        case Dir
        have "namei n fs (cur @ [c]) cs = Inr q" using prems(1) cur nn Some Dir by simp
        then show ?thesis
          by (rule IH(5) [OF cur refl nn Some Dir]) (use prems(2) 3 in simp)
      next
        case (Symlink t)
        then have n: "n \<noteq> 0" using prems(1) cur nn Some by (cases n) auto
        have eq: "namei (n - 1) fs (if is_abs t then [] else cur) (split_on SLASH t @ cs) = Inr q"
          using prems(1) cur nn Some Symlink n by (simp split: if_splits)
        show ?thesis
          by (rule IH(6) [OF cur refl nn Some Symlink n eq]) (use prems(2) in simp)
      qed
    qed
  qed
qed simp

lemma walk_normal: "walk fs p = Inr q \<Longrightarrow> c \<in> set q \<Longrightarrow> normal_name c"
  using namei_normal [of MAXSYMLINKS fs "[]" p q] by (auto simp: walk_def)

section \<open>The operations keep the file system well formed\<close>

lemma walk_parent_InrE:
  assumes "walk_parent fs p = Inr q"
  obtains r where "q = r @ [last p]" "node_at fs r = Some Dir" "walk fs (butlast p) = Inr r"
proof -
  obtain r where w: "walk fs (butlast p) = Inr r"
    using assms by (cases "walk fs (butlast p)") (simp_all add: walk_parent_def)
  with assms that show ?thesis
    by (cases "node_at fs r"; cases "the (node_at fs r)") (auto simp: walk_parent_def)
qed

lemma os_mkdir_wf:
  assumes "fs_wf fs" and "normal_name (last p)" and "os_mkdir fs p = Inr fs'"
  shows "fs_wf fs'"
proof -
  obtain q where q: "walk_parent fs p = Inr q" "node_at fs q = None" "fs' = dict_set q Dir fs"
    using assms(3) by (auto simp: os_mkdir_def rbind_Inr_iff split: if_splits option.splits)
  with assms show ?thesis by (elim walk_parent_InrE) (auto intro!: fs_wf_set)
qed

lemma mkdir_once_wf:
  "fs_wf fs \<Longrightarrow> normal_name (last p) \<Longrightarrow> mkdir_once fs p = Inr fs' \<Longrightarrow> fs_wf fs'"
  using os_mkdir_wf by (auto simp: mkdir_once_def split: sum.splits if_splits)

lemma open_wb_InrE:
  assumes "open_wb fs p = Inr (q, fs')"
  obtains "fs' = dict_set q (File []) fs" "walk fs p = Inr q" "node_at fs q \<noteq> Some Dir"
    "(\<exists>b. node_at fs q = Some (File b)) \<or> node_at fs q = None \<and> node_at fs (butlast q) = Some Dir"
proof -
  obtain a where w: "walk fs p = Inr a"
    using assms by (cases "walk fs p") (simp_all add: open_wb_def)
  with assms that show ?thesis
    by (cases "node_at fs a"; cases "the (node_at fs a)"; cases "node_at fs (butlast a)";
        cases "the (node_at fs (butlast a))") (auto simp: open_wb_def)
qed

lemma open_wb_wf:
  assumes "fs_wf fs" and "open_wb fs p = Inr (q, fs')"
  shows "fs_wf fs' \<and> q \<noteq> [] \<and> node_at fs' q = Some (File [])"
  using assms(2)
proof (rule open_wb_InrE)
  assume fs': "fs' = dict_set q (File []) fs" and w: "walk fs p = Inr q" and nd: "node_at fs q \<noteq> Some Dir"
    and d: "(\<exists>b. node_at fs q = Some (File b)) \<or> node_at fs q = None \<and> node_at fs (butlast q) = Some Dir"
  have q: "q \<noteq> []" using nd by (auto simp: node_at_def)
  then have "normal_name (last q)" using walk_normal [OF w] by simp
  moreover have "node_at fs (butlast q) = Some Dir"
    using d fs_wf_parent [OF assms(1), of "butlast q" "last q"] q by auto
  ultimately show ?thesis using assms(1) nd q fs' by (auto intro: fs_wf_set simp: node_at_set)
qed

lemma fs_wf_write:
  assumes "fs_wf fs" and "node_at fs q = Some (File b)"
  shows "fs_wf (dict_set q (File b') fs)"
proof -
  have q: "q \<noteq> []" using assms(2) by (auto simp: node_at_def)
  then obtain r c where qc: "q = r @ [c]" by (cases q rule: rev_cases) auto
  with assms have "normal_name c" "node_at fs r = Some Dir" by (auto simp: fs_wf_iff)
  with assms q qc show ?thesis by (auto intro!: fs_wf_set)
qed

lemma open_wb_write_wf:
  assumes "fs_wf fs" and "open_wb fs p = Inr (q, fs')"
  shows "fs_wf (dict_set q (File b) fs)"
proof -
  have "fs' = dict_set q (File []) fs" using assms(2) by (elim open_wb_InrE)
  moreover have "fs_wf (dict_set q (File b) fs')"
    using open_wb_wf [OF assms] fs_wf_write by blast
  ultimately show ?thesis by (simp add: dict_set_def)
qed

lemma os_unlink_InrE:
  assumes "os_unlink fs p = Inr fs'"
  obtains q where "p \<noteq> []" "walk_parent fs p = Inr q" "fs' = dict_pop q fs" "node_at fs q \<noteq> Some Dir"
proof -
  have p: "p \<noteq> []" using assms by (auto simp: os_unlink_def)
  with assms obtain q where w: "walk_parent fs p = Inr q"
    by (cases "walk_parent fs p") (simp_all add: os_unlink_def)
  with assms that p show ?thesis
    by (cases "node_at fs q"; cases "the (node_at fs q)") (auto simp: os_unlink_def)
qed

lemma os_unlink_wf: "fs_wf fs \<Longrightarrow> os_unlink fs p = Inr fs' \<Longrightarrow> fs_wf fs'"
  by (elim os_unlink_InrE) (simp add: fs_wf_pop)

section \<open>Frames\<close>

text \<open>\<open>grows fs fs'\<close>: only directories were added, where nothing was.\<close>

definition grows :: "path \<Rightarrow> filesystem \<Rightarrow> filesystem \<Rightarrow> bool" where
  "grows p fs fs' \<longleftrightarrow> (\<forall>q. node_at fs' q = node_at fs q
     \<or> node_at fs q = None \<and> node_at fs' q = Some Dir \<and> (\<exists>rest. p = q @ rest))"

lemma grows_refl [simp]: "grows p fs fs"
  by (simp add: grows_def)

lemma grows_trans: "grows p fs fs' \<Longrightarrow> grows p fs' fs'' \<Longrightarrow> grows p fs fs''"
  unfolding grows_def by (metis option.distinct(1))

lemma grows_longer: "grows (butlast p) fs fs' \<Longrightarrow> grows p fs fs'"
  unfolding grows_def by (metis append_assoc append_butlast_last_id butlast.simps(1))

lemma grows_link: "grows p fs fs' \<Longrightarrow> is_link (node_at fs' q) \<Longrightarrow> is_link (node_at fs q)"
  by (drule grows_def [THEN iffD1, THEN spec, of _ _ _ q]) auto

lemma canonical_grows: "grows p fs fs' \<Longrightarrow> canonical fs q \<Longrightarrow> canonical fs' q"
  using grows_link [of p fs fs'] unfolding canonical_def by blast

lemma os_mkdir_grows:
  assumes "canonical fs p" and "os_mkdir fs p = Inr fs'"
  shows "grows p fs fs' \<and> node_at fs' p = Some Dir"
proof -
  have p: "p \<noteq> []" using assms(2) by (auto simp: os_mkdir_def)
  obtain q where q: "walk_parent fs p = Inr q" "node_at fs q = None" "fs' = dict_set q Dir fs"
    using assms(2) by (auto simp: os_mkdir_def rbind_Inr_iff split: if_splits option.splits)
  have "q = p" using walk_parent_canonical [OF canonical_butlast [OF assms(1)] p q(1)] by simp
  with q(2,3) have "node_at fs' x = (if x = p then Some Dir else node_at fs x)" for x
    using \<open>q = p\<close> p by (cases "x = []") (simp_all add: node_at_def dict_get_set)
  moreover have "node_at fs p = None" using q(2) \<open>q = p\<close> by simp
  ultimately show ?thesis by (simp add: grows_def)
qed

lemma p_is_dir_canonical: "canonical fs p \<Longrightarrow> p_is_dir fs p \<Longrightarrow> node_at fs p = Some Dir"
  by (auto simp: p_is_dir_def dest: k_stat_canonicalD split: sum.splits fnode.splits)

lemma mkdir_once_grows:
  "canonical fs p \<Longrightarrow> mkdir_once fs p = Inr fs' \<Longrightarrow> grows p fs fs' \<and> node_at fs' p = Some Dir"
  using os_mkdir_grows [of fs p fs'] p_is_dir_canonical [of fs p]
  by (auto simp: mkdir_once_def split: sum.splits if_splits)

lemma mkdir_p_frame:
  "canonical fs p \<Longrightarrow> fs_wf fs \<Longrightarrow> mkdir_p fs p = (r, fs') \<Longrightarrow>
   fs_wf fs' \<and> grows p fs fs' \<and> (r = Inr () \<longrightarrow> node_at fs' p = Some Dir)"
proof (induction fs p arbitrary: r fs' rule: mkdir_p.induct)
  case (1 fs p)
  note can = "1.prems"(1) and wf = "1.prems"(2)
  have nn: "normal_name (last p)" if "p \<noteq> []"
    using can that by (simp add: canonical_def)
  show ?case
  proof (cases "os_mkdir fs p")
    case (Inr fs1)
    then have "p \<noteq> []" by (auto simp: os_mkdir_def)
    with Inr "1.prems"(3) os_mkdir_wf [OF wf nn Inr] os_mkdir_grows [OF can Inr]
    show ?thesis by (simp add: mkdir_p.simps [of fs p])
  next
    case (Inl e)
    show ?thesis
    proof (cases "e = ENOENT \<and> p \<noteq> []")
      case False
      then have "fs' = fs \<and> (r = Inr () \<longrightarrow> p_is_dir fs p)"
        using Inl "1.prems"(3)
        by (cases e) (auto simp: mkdir_p.simps [of fs p] os_mkdir_def split: if_splits)
      with wf p_is_dir_canonical [OF can] show ?thesis by auto
    next
      case True
      obtain r1 fs1 where m: "mkdir_p fs (butlast p) = (r1, fs1)" by fastforce
      have ih: "fs_wf fs1 \<and> grows (butlast p) fs fs1"
        using "1.IH" [OF Inl _ _ canonical_butlast [OF can] wf m] True by simp
      then have can1: "canonical fs1 p" and g1: "grows p fs fs1"
        using canonical_grows can grows_longer by blast+
      show ?thesis
      proof (cases "r1")
        case (Inl e1)
        with m True \<open>os_mkdir fs p = Inl e\<close> "1.prems"(3) have "fs' = fs1" "r = Inl e1"
          by (auto simp: mkdir_p.simps [of fs p])
        with ih g1 show ?thesis by simp
      next
        case (Inr u)
        have nn': "normal_name (last p)" using nn True by simp
        show ?thesis
        proof (cases "mkdir_once fs1 p")
          case (Inl e2)
          with m \<open>r1 = Inr u\<close> True \<open>os_mkdir fs p = Inl e\<close> "1.prems"(3)
          have "fs' = fs1" "r = Inl e2" by (auto simp: mkdir_p.simps [of fs p])
          with ih g1 show ?thesis by simp
        next
          case (Inr fs2)
          with m \<open>r1 = Inr u\<close> True \<open>os_mkdir fs p = Inl e\<close> "1.prems"(3)
          have "fs' = fs2" "r = Inr ()" by (simp_all add: mkdir_p.simps [of fs p])
          with ih g1 mkdir_once_wf [OF _ nn' Inr] mkdir_once_grows [OF can1 Inr] show ?thesis
            using grows_trans by blast
        qed
      qed
    qed
  qed
qed

lemma open_wb_canonical:
  "canonical fs p \<Longrightarrow> open_wb fs p = Inr (q, fs') \<Longrightarrow> q = p \<and> fs' = dict_set p (File []) fs"
  by (elim open_wb_InrE) (auto dest: walk_canonical)

lemma os_unlink_canonical:
  assumes "canonical fs p" and "os_unlink fs p = Inr fs'"
  shows "p \<noteq> [] \<and> fs' = dict_pop p fs"
proof -
  obtain q where "p \<noteq> []" "walk_parent fs p = Inr q" "fs' = dict_pop q fs"
    using assms(2) by (rule os_unlink_InrE)
  with walk_parent_canonical [OF canonical_butlast [OF assms(1)]] show ?thesis by auto
qed

lemma read_rb_canonical:
  assumes "canonical fs p" and "read_rb fs p = Inr b"
  shows "node_at fs p = Some (File b)"
proof -
  obtain nd where k: "k_stat fs p = Inr nd"
    using assms(2) by (cases "k_stat fs p") (simp_all add: read_rb_def)
  with assms(2) have "nd = File b" by (cases nd) (simp_all add: read_rb_def)
  with k k_stat_canonicalD [OF assms(1)] show ?thesis by simp
qed

end
