(* ===== verification/Recent_Writes.thy ===== *)
theory Recent_Writes
  imports Fs_Model
begin

text \<open>
  \<open>file_storage_adapter/recent_writes.py\<close>: the record of the writes the adapter made itself,
  with its time to live. \<open>time.monotonic()\<close> is a reading in microseconds.
\<close>

record recent_writes =
  ttl :: int
  marked_at :: "(path, int) pydict"

definition DEFAULT_TTL :: int where "DEFAULT_TTL = 5000000"

definition recent_writes_init :: "int \<Rightarrow> recent_writes" where
  "recent_writes_init ttl_seconds = \<lparr>ttl = ttl_seconds, marked_at = dict_empty\<rparr>"

definition rw_mark :: "int \<Rightarrow> path \<Rightarrow> recent_writes \<Rightarrow> recent_writes" where
  "rw_mark now p rw = rw\<lparr>marked_at := dict_set p now (marked_at rw)\<rparr>"

definition rw_prune :: "int \<Rightarrow> recent_writes \<Rightarrow> recent_writes" where
  "rw_prune now rw =
     (let cutoff = now - ttl rw;
          expired = map fst (filter (\<lambda>(_, marked). marked < cutoff) (marked_at rw))
      in rw\<lparr>marked_at := fold dict_pop expired (marked_at rw)\<rparr>)"

definition rw_was_recent :: "int \<Rightarrow> path \<Rightarrow> recent_writes \<Rightarrow> bool \<times> recent_writes" where
  "rw_was_recent now p rw =
     (let rw' = rw_prune now rw in (dict_get (marked_at rw') p \<noteq> None, rw'))"

section \<open>What it answers\<close>

lemma dict_get_fold_pop:
  "dict_get (fold dict_pop ks d) k = (if k \<in> set ks then None else dict_get d k)"
  by (induction ks arbitrary: d) (auto simp: dict_get_pop)

lemma dict_ok_fold_pop: "dict_ok d \<Longrightarrow> dict_ok (fold dict_pop ks d)"
  by (induction ks arbitrary: d) auto

lemma rw_prune_get:
  assumes "dict_ok (marked_at rw)"
  shows "dict_get (marked_at (rw_prune now rw)) p =
     (case dict_get (marked_at rw) p of
        Some m \<Rightarrow> if m < now - ttl rw then None else Some m | None \<Rightarrow> None)"
proof -
  have "p \<in> set (map fst (filter (\<lambda>(_, m). m < c) (marked_at rw))) \<longleftrightarrow>
      (\<exists>m. dict_get (marked_at rw) p = Some m \<and> m < c)" for c
    using dict_get_mem [OF assms, of p] by force
  then show ?thesis
    by (auto simp: rw_prune_def Let_def dict_get_fold_pop split: option.splits)
qed

lemma rw_ok [simp]:
  "dict_ok (marked_at rw) \<Longrightarrow> dict_ok (marked_at (rw_mark now p rw))"
  "dict_ok (marked_at rw) \<Longrightarrow> dict_ok (marked_at (rw_prune now rw))"
  by (auto simp: rw_mark_def rw_prune_def Let_def intro: dict_ok_fold_pop)

text \<open>The calls of the two users of the record: the write handler and the watch.\<close>

datatype rw_call = Mark path | Ask path

fun rw_step :: "rw_call \<times> int \<Rightarrow> recent_writes \<Rightarrow> recent_writes" where
  "rw_step (Mark p, t) rw = rw_mark t p rw"
| "rw_step (Ask p, t) rw = snd (rw_was_recent t p rw)"

definition rw_run :: "(rw_call \<times> int) list \<Rightarrow> recent_writes \<Rightarrow> recent_writes" where
  "rw_run calls rw = fold rw_step calls rw"

text \<open>The time of the last mark of a path in a history.\<close>

fun last_mark :: "path \<Rightarrow> (rw_call \<times> int) list \<Rightarrow> int option" where
  "last_mark p [] = None"
| "last_mark p ((Mark q, t) # cs) =
     (case last_mark p cs of Some m \<Rightarrow> Some m | None \<Rightarrow> if p = q then Some t else None)"
| "last_mark p ((Ask q, t) # cs) = last_mark p cs"

lemma last_mark_snoc:
  "last_mark p (cs @ [(Mark q, t)]) = (if p = q then Some t else last_mark p cs)"
  "last_mark p (cs @ [(Ask q, t)]) = last_mark p cs"
  by (induction p cs rule: last_mark.induct) (auto split: option.splits)

text \<open>
  The state after any history, pruned or not, keeps of every path the last mark, or nothing
  where that mark is older than the time to live at the latest question.
\<close>

lemma rw_run_inv:
  assumes "sorted (map snd cs)"
  shows "dict_ok (marked_at (rw_run cs (recent_writes_init T))) \<and> ttl (rw_run cs (recent_writes_init T)) = T \<and>
     (\<forall>p. dict_get (marked_at (rw_run cs (recent_writes_init T))) p = last_mark p cs
        \<or> dict_get (marked_at (rw_run cs (recent_writes_init T))) p = None \<and>
          (\<exists>m. last_mark p cs = Some m \<and> (\<exists>c \<in> set cs. m < snd c - T)))"
  using assms
proof (induction cs rule: rev_induct)
  case Nil
  show ?case by (simp add: rw_run_def recent_writes_init_def)
next
  case (snoc c cs)
  let ?s = "rw_run cs (recent_writes_init T)"
  have srt: "sorted (map snd cs)" using snoc.prems by (simp add: sorted_append)
  note IH = snoc.IH [OF srt]
  obtain k t where c: "c = (k, t)" by (cases c)
  have step: "rw_run (cs @ [(k, t)]) (recent_writes_init T) = rw_step (k, t) ?s"
    by (simp add: rw_run_def)
  show ?case
  proof (cases k)
    case (Mark q)
    show ?thesis
      unfolding c step unfolding Mark
      using IH by (auto simp: rw_mark_def dict_get_set last_mark_snoc) blast
  next
    case (Ask q)
    have get: "dict_get (marked_at (rw_prune t ?s)) p =
       (case dict_get (marked_at ?s) p of Some m \<Rightarrow> if m < t - T then None else Some m | None \<Rightarrow> None)" for p
      using rw_prune_get [of ?s t p] IH unfolding conjunct1 [OF conjunct2 [OF IH]] by simp
    have ttl: "ttl (rw_prune t ?s) = T" using IH by (simp add: rw_prune_def Let_def)
    have "dict_get (marked_at (rw_prune t ?s)) p = last_mark p (cs @ [(Ask q, t)])
        \<or> dict_get (marked_at (rw_prune t ?s)) p = None \<and>
          (\<exists>m. last_mark p (cs @ [(Ask q, t)]) = Some m \<and> (\<exists>c' \<in> set (cs @ [(Ask q, t)]). m < snd c' - T))" for p
    proof -
      have lm: "last_mark p (cs @ [(Ask q, t)]) = last_mark p cs" by (simp add: last_mark_snoc)
      from IH consider "dict_get (marked_at ?s) p = last_mark p cs"
        | m c' where "dict_get (marked_at ?s) p = None" "last_mark p cs = Some m" "c' \<in> set cs" "m < snd c' - T"
        by blast
      then show ?thesis
      proof cases
        case 1
        then show ?thesis
          by (cases "last_mark p cs") (auto simp: get lm)
      next
        case 2
        then show ?thesis by (auto simp: get lm)
      qed
    qed
    then show ?thesis
      unfolding c step unfolding Ask using IH ttl by (simp add: rw_was_recent_def Let_def)
  qed
qed

section \<open>Property\<close>

text \<open>
  C28: the pruned record is equivalent to a log that forgets nothing: after any history of marks
  and questions, asked at a time no earlier than all of them, \<open>was_recent\<close> answers by the age of
  the path's last mark alone, whatever was pruned in between.
\<close>

theorem recent_by_age:
  assumes "sorted (map snd cs)" and "\<forall>c \<in> set cs. snd c \<le> now"
  shows "fst (rw_was_recent now p (rw_run cs (recent_writes_init T))) \<longleftrightarrow>
     (\<exists>m. last_mark p cs = Some m \<and> now - T \<le> m)"
proof -
  let ?s = "rw_run cs (recent_writes_init T)"
  note inv = rw_run_inv [OF assms(1), of T]
  have "fst (rw_was_recent now p ?s) \<longleftrightarrow> (\<exists>m. dict_get (marked_at ?s) p = Some m \<and> now - T \<le> m)"
    using rw_prune_get [of ?s now p] inv unfolding conjunct1 [OF conjunct2 [OF inv]]
    by (auto simp: rw_was_recent_def Let_def split: option.splits if_splits)
  moreover have "\<not> now - T \<le> m" if "c \<in> set cs" "m < snd c - T" for m c
    using assms(2) that by force
  ultimately show ?thesis using inv by (metis option.distinct(1) option.inject)
qed

theorem recent_by_age_witness:
  "let cs = [(Mark [[1]], 0), (Ask [[2]], 3), (Mark [[1]], 7), (Mark [[2]], 8)] in
   fst (rw_was_recent 12 [[1]] (rw_run cs (recent_writes_init 5)))
   \<and> \<not> fst (rw_was_recent 13 [[1]] (rw_run cs (recent_writes_init 5)))"
  using recent_by_age [of "[(Mark [[1]], 0), (Ask [[2]], 3), (Mark [[1]], 7), (Mark [[2]], 8)]" 12 "[[1]]" 5]
    recent_by_age [of "[(Mark [[1]], 0), (Ask [[2]], 3), (Mark [[1]], 7), (Mark [[2]], 8)]" 13 "[[1]]" 5]
  by simp

end
