(* ===== verification/Fs_Handlers.thy ===== *)
theory Fs_Handlers
  imports Bus_Iface Fs_Payloads Fs_Effects Recent_Writes
begin

text \<open>
  The four command handlers of the file storage adapter (\<open>write_handler.py\<close>,
  \<open>read_handler.py\<close>, \<open>list_handler.py\<close>, \<open>delete_handler.py\<close>): whole handlers, on the world of
  the adapter, which adds the file system and the record of recent writes to the bus.
\<close>

record 'c fs_world = "'c world" +
  w_fs :: filesystem
  w_recent :: recent_writes

section \<open>Operations of the host\<close>

text \<open>An operation of the file system: it may fail for a reason outside the model.\<close>

definition os_op :: "host \<Rightarrow> (filesystem \<Rightarrow> (errno + 'a) \<times> filesystem) \<Rightarrow> ('c fs_world, 'a) comp" where
  "os_op H f = seq tick (\<lambda>t w.
     if os_fault_at H t then (Inl OSErr, w)
     else (case f (w_fs w) of
             (Inl e, fs) \<Rightarrow> (Inl (os_exn e), w\<lparr>w_fs := fs\<rparr>)
           | (Inr a, fs) \<Rightarrow> (Inr a, w\<lparr>w_fs := fs\<rparr>)))"

definition query :: "(filesystem \<Rightarrow> 'a) \<Rightarrow> filesystem \<Rightarrow> (errno + 'a) \<times> filesystem" where
  "query f fs = (Inr (f fs), fs)"

definition reading :: "(filesystem \<Rightarrow> errno + 'a) \<Rightarrow> filesystem \<Rightarrow> (errno + 'a) \<times> filesystem" where
  "reading f fs = (f fs, fs)"

definition changing :: "(filesystem \<Rightarrow> errno + filesystem) \<Rightarrow> filesystem \<Rightarrow> (errno + unit) \<times> filesystem" where
  "changing f fs = (case f fs of Inl e \<Rightarrow> (Inl e, fs) | Inr fs' \<Rightarrow> (Inr (), fs'))"

definition create_op :: "path \<Rightarrow> filesystem \<Rightarrow> (errno + path) \<times> filesystem" where
  "create_op p fs = (case open_wb fs p of Inl e \<Rightarrow> (Inl e, fs) | Inr (q, fs') \<Rightarrow> (Inr q, fs'))"

text \<open>\<open>await f.write(content)\<close> and the close: a failure leaves a prefix of the content.\<close>

definition write_bytes :: "host \<Rightarrow> path \<Rightarrow> bytes \<Rightarrow> ('c fs_world, unit) comp" where
  "write_bytes H q content = seq tick (\<lambda>t w.
     (case write_cut_at H t of
        Some n \<Rightarrow> (Inl OSErr, w\<lparr>w_fs := dict_set q (File (take n content)) (w_fs w)\<rparr>)
      | None \<Rightarrow> (Inr (), w\<lparr>w_fs := dict_set q (File content) (w_fs w)\<rparr>)))"

definition resolve_request :: "path \<Rightarrow> pystr \<Rightarrow> ('c fs_world, path) comp" where
  "resolve_request watch_dir relative w = (resolve_within (w_fs w) watch_dir relative, w)"

definition mark_recent :: "host \<Rightarrow> path \<Rightarrow> ('c fs_world, unit) comp" where
  "mark_recent H p = seq (monotonic H) (\<lambda>now w. (Inr (), w\<lparr>w_recent := rw_mark now p (w_recent w)\<rparr>))"

section \<open>\<open>WriteCommandHandler\<close>\<close>

definition WRITE_REQUESTED_SUBJECT :: pystr where
  "WRITE_REQUESTED_SUBJECT = py ''events.files.FileWriteRequested''"
definition CREATE_COMPLETED_SUBJECT :: pystr where
  "CREATE_COMPLETED_SUBJECT = py ''events.files.FileCreateCompleted''"
definition WRITE_COMPLETED_SUBJECT :: pystr where
  "WRITE_COMPLETED_SUBJECT = py ''events.files.FileWriteCompleted''"

definition write_start :: "'c bus \<Rightarrow> pystr option \<Rightarrow> ('c fs_world, pystr) comp" where
  "write_start B durable_name = b_subscribe B WRITE_REQUESTED_SUBJECT durable_name"

definition is_malformed :: "exn \<Rightarrow> bool" where "is_malformed e \<longleftrightarrow> e = MalformedPayloadError"
definition is_traversal :: "exn \<Rightarrow> bool" where "is_traversal e \<longleftrightarrow> e = PathTraversalError"

definition write_file :: "host \<Rightarrow> path \<Rightarrow> bytes \<Rightarrow> ('c fs_world, unit) comp" where
  "write_file H target content =
     seq (os_op H (\<lambda>fs. mkdir_p fs (butlast target))) (\<lambda>_.
     seq (os_op H (create_op target)) (\<lambda>q.
     write_bytes H q content))"

definition write_report ::
  "'c bus \<Rightarrow> host \<Rightarrow> received_event \<Rightarrow> write_request \<Rightarrow> bool \<Rightarrow> ('c fs_world, unit) comp" where
  "write_report B H ev request existed_before =
     (let size_bytes = length (wr_content request) in
      if existed_before then
        seq (publish_reply B H ev WRITE_COMPLETED_SUBJECT (py ''FileWriteCompleted'')
               (encode_write_completed (wr_path request) size_bytes None)) (\<lambda>_. b_ack B ev)
      else
        seq (publish_reply B H ev CREATE_COMPLETED_SUBJECT (py ''FileCreateCompleted'')
               (encode_create_completed (wr_path request) size_bytes None)) (\<lambda>_. b_ack B ev))"

definition write_handle ::
  "'c bus \<Rightarrow> host \<Rightarrow> path \<Rightarrow> bool \<Rightarrow> received_event \<Rightarrow> ('c fs_world, unit) comp" where
  "write_handle B H watch_dir has_recent_writes ev =
     try_else is_malformed (lift_res (decode_write_requested (re_payload ev))) (b_ack B ev) (\<lambda>request.
     try_else is_traversal (resolve_request watch_dir (wr_path request)) (b_ack B ev) (\<lambda>target.
     seq (os_op H (query (\<lambda>fs. p_exists fs target))) (\<lambda>existed_before.
     try_else is_os_error (write_file H target (wr_content request)) (b_nak B ev) (\<lambda>_.
     seq (if has_recent_writes then mark_recent H target else ret ()) (\<lambda>_.
     write_report B H ev request existed_before)))))"

definition write_run_once ::
  "'c bus \<Rightarrow> host \<Rightarrow> path \<Rightarrow> bool \<Rightarrow> pystr \<Rightarrow> nat \<Rightarrow> ('c fs_world, nat) comp" where
  "write_run_once B H watch_dir has_recent_writes = run_once B (write_handle B H watch_dir has_recent_writes)"

section \<open>\<open>ReadCommandHandler\<close>\<close>

definition READ_REQUESTED_SUBJECT :: pystr where
  "READ_REQUESTED_SUBJECT = py ''events.files.FileReadRequested''"
definition READ_COMPLETED_SUBJECT :: pystr where
  "READ_COMPLETED_SUBJECT = py ''events.files.FileReadCompleted''"
definition OPERATION_FAILED_SUBJECT :: pystr where
  "OPERATION_FAILED_SUBJECT = py ''events.files.FileOperationFailed''"

definition read_start :: "'c bus \<Rightarrow> pystr option \<Rightarrow> ('c fs_world, pystr) comp" where
  "read_start B durable_name = b_subscribe B READ_REQUESTED_SUBJECT durable_name"

definition report_failed ::
  "'c bus \<Rightarrow> host \<Rightarrow> received_event \<Rightarrow> pystr \<Rightarrow> string \<Rightarrow> string \<Rightarrow> ('c fs_world, unit) comp" where
  "report_failed B H ev path operation reason =
     seq (publish_reply B H ev OPERATION_FAILED_SUBJECT (py ''FileOperationFailed'')
            (encode_operation_failed path (py operation) (py reason) None)) (\<lambda>_. b_ack B ev)"

definition read_handle :: "'c bus \<Rightarrow> host \<Rightarrow> path \<Rightarrow> received_event \<Rightarrow> ('c fs_world, unit) comp" where
  "read_handle B H watch_dir ev =
     try_else is_malformed (lift_res (decode_path_only_request (re_payload ev) False)) (b_ack B ev) (\<lambda>request.
     try_else is_traversal (resolve_request watch_dir (po_path request)) (b_ack B ev) (\<lambda>target.
     seq (os_op H (query (\<lambda>fs. p_is_file fs target))) (\<lambda>is_file.
     if \<not> is_file then report_failed B H ev (po_path request) ''read'' ''not_found''
     else
       try_else is_os_error (os_op H (reading (\<lambda>fs. read_rb fs target))) (b_nak B ev) (\<lambda>content.
       seq (publish_reply B H ev READ_COMPLETED_SUBJECT (py ''FileReadCompleted'')
              (encode_read_completed (po_path request) content None)) (\<lambda>_. b_ack B ev)))))"

definition read_run_once :: "'c bus \<Rightarrow> host \<Rightarrow> path \<Rightarrow> pystr \<Rightarrow> nat \<Rightarrow> ('c fs_world, nat) comp" where
  "read_run_once B H watch_dir = run_once B (read_handle B H watch_dir)"

section \<open>\<open>ListCommandHandler\<close>\<close>

definition LIST_REQUESTED_SUBJECT :: pystr where
  "LIST_REQUESTED_SUBJECT = py ''events.files.FileListRequested''"
definition LIST_COMPLETED_SUBJECT :: pystr where
  "LIST_COMPLETED_SUBJECT = py ''events.files.FileListCompleted''"

definition list_start :: "'c bus \<Rightarrow> pystr option \<Rightarrow> ('c fs_world, pystr) comp" where
  "list_start B durable_name = b_subscribe B LIST_REQUESTED_SUBJECT durable_name"

text \<open>One \<open>FileEntry\<close> of a directory, and the comprehension over its sorted children.\<close>

definition entry_of :: "filesystem \<Rightarrow> path \<Rightarrow> pystr \<Rightarrow> errno + file_entry" where
  "entry_of fs dir name =
     (let child = dir @ [name] in
      if p_is_dir fs child then Inr \<lparr>fe_name = name, fe_is_directory = True, fe_size_bytes = 0\<rparr>
      else rbind (p_size fs child)
             (\<lambda>n. Inr \<lparr>fe_name = name, fe_is_directory = False, fe_size_bytes = n\<rparr>))"

fun entries_of :: "filesystem \<Rightarrow> path \<Rightarrow> pystr list \<Rightarrow> errno + file_entry list" where
  "entries_of fs dir [] = Inr []"
| "entries_of fs dir (name # names) =
     rbind (entry_of fs dir name) (\<lambda>e. rbind (entries_of fs dir names) (\<lambda>es. Inr (e # es)))"

definition list_dir :: "filesystem \<Rightarrow> path \<Rightarrow> errno + file_entry list" where
  "list_dir fs dir = rbind (sorted_iterdir fs dir) (entries_of fs dir)"

definition list_handle :: "'c bus \<Rightarrow> host \<Rightarrow> path \<Rightarrow> received_event \<Rightarrow> ('c fs_world, unit) comp" where
  "list_handle B H watch_dir ev =
     try_else is_malformed (lift_res (decode_path_only_request (re_payload ev) True)) (b_ack B ev) (\<lambda>request.
     try_else is_traversal (resolve_request watch_dir (po_path request)) (b_ack B ev) (\<lambda>target.
     seq (os_op H (query (\<lambda>fs. p_exists fs target))) (\<lambda>exists.
     if \<not> exists then report_failed B H ev (po_path request) ''list'' ''not_found''
     else
       seq (os_op H (query (\<lambda>fs. p_is_dir fs target))) (\<lambda>is_dir.
       if \<not> is_dir then report_failed B H ev (po_path request) ''list'' ''not_a_directory''
       else
         try_else is_os_error (os_op H (reading (\<lambda>fs. list_dir fs target))) (b_nak B ev) (\<lambda>entries.
         seq (publish_reply B H ev LIST_COMPLETED_SUBJECT (py ''FileListCompleted'')
                (encode_list_completed (po_path request) entries None)) (\<lambda>_. b_ack B ev))))))"

definition list_run_once :: "'c bus \<Rightarrow> host \<Rightarrow> path \<Rightarrow> pystr \<Rightarrow> nat \<Rightarrow> ('c fs_world, nat) comp" where
  "list_run_once B H watch_dir = run_once B (list_handle B H watch_dir)"

section \<open>\<open>DeleteCommandHandler\<close>\<close>

definition DELETE_REQUESTED_SUBJECT :: pystr where
  "DELETE_REQUESTED_SUBJECT = py ''events.files.FileDeleteRequested''"
definition DELETE_COMPLETED_SUBJECT :: pystr where
  "DELETE_COMPLETED_SUBJECT = py ''events.files.FileDeleteCompleted''"

definition delete_start :: "'c bus \<Rightarrow> pystr option \<Rightarrow> ('c fs_world, pystr) comp" where
  "delete_start B durable_name = b_subscribe B DELETE_REQUESTED_SUBJECT durable_name"

definition delete_handle :: "'c bus \<Rightarrow> host \<Rightarrow> path \<Rightarrow> received_event \<Rightarrow> ('c fs_world, unit) comp" where
  "delete_handle B H watch_dir ev =
     try_else is_malformed (lift_res (decode_path_only_request (re_payload ev) False)) (b_ack B ev) (\<lambda>request.
     try_else is_traversal (resolve_request watch_dir (po_path request)) (b_ack B ev) (\<lambda>target.
     seq (os_op H (query (\<lambda>fs. p_is_file fs target))) (\<lambda>is_file.
     if \<not> is_file then report_failed B H ev (po_path request) ''delete'' ''not_found''
     else
       try_else is_os_error (os_op H (changing (\<lambda>fs. os_unlink fs target))) (b_nak B ev) (\<lambda>_.
       seq (publish_reply B H ev DELETE_COMPLETED_SUBJECT (py ''FileDeleteCompleted'')
              (encode_delete_completed (po_path request) None)) (\<lambda>_. b_ack B ev)))))"

definition delete_run_once :: "'c bus \<Rightarrow> host \<Rightarrow> path \<Rightarrow> pystr \<Rightarrow> nat \<Rightarrow> ('c fs_world, nat) comp" where
  "delete_run_once B H watch_dir = run_once B (delete_handle B H watch_dir)"

section \<open>The four handlers meet the contract\<close>

lemma silent_state [settling_intros]:
  "(\<And>w. w_calls (snd (m w)) = w_calls w) \<Longrightarrow> silent m"
  unfolding silent_def by (metis snd_conv)

lemma silent_os_op [settling_intros]: "silent (os_op H f)"
  unfolding os_op_def
  by (intro silent_seq silent_tick silent_state) (auto split: prod.splits sum.splits)

lemma silent_write_bytes [settling_intros]: "silent (write_bytes H q c)"
  unfolding write_bytes_def
  by (intro silent_seq silent_tick silent_state) (auto split: option.splits)

lemma silent_resolve_request [settling_intros]: "silent (resolve_request d p)"
  by (simp add: silent_def resolve_request_def)

lemma silent_mark_recent [settling_intros]: "silent (mark_recent H p)"
  unfolding mark_recent_def by (intro silent_seq silent_monotonic silent_state) simp

lemma silent_write_file [settling_intros]: "silent (write_file H t c)"
  unfolding write_file_def by (intro silent_seq silent_os_op silent_write_bytes)

lemma settling_report_failed [settling_intros]: "settling ev (report_failed B H ev p o' r)"
  unfolding report_failed_def by (intro settling_reply settling_ack)

lemma settling_write_report [settling_intros]: "settling ev (write_report B H ev request b)"
  unfolding write_report_def Let_def by (intro settling_if settling_reply settling_ack)

lemmas handler_rules = settling_try settling_silent settling_if settling_reply settling_ack
  settling_nak settling_report_failed settling_write_report silent_lift_res silent_resolve_request
  silent_os_op silent_write_file silent_mark_recent silent_if silent_ret

lemma settling_write: "settling ev (write_handle B H d rw ev)"
  unfolding write_handle_def by (intro handler_rules)

lemma settling_read: "settling ev (read_handle B H d ev)"
  unfolding read_handle_def by (intro handler_rules)

lemma settling_list: "settling ev (list_handle B H d ev)"
  unfolding list_handle_def by (intro handler_rules)

lemma settling_delete: "settling ev (delete_handle B H d ev)"
  unfolding delete_handle_def by (intro handler_rules)

interpretation write_cmd: command_handler "write_handle B H d rw" for B H d rw
  by (rule command_handlerI) (rule settling_write)

interpretation read_cmd: command_handler "read_handle B H d" for B H d
  by (rule command_handlerI) (rule settling_read)

interpretation list_cmd: command_handler "list_handle B H d" for B H d
  by (rule command_handlerI) (rule settling_list)

interpretation delete_cmd: command_handler "delete_handle B H d" for B H d
  by (rule command_handlerI) (rule settling_delete)

end
