(* ===== verification/Fs_Watch.thy ===== *)
theory Fs_Watch
  imports Fs_Handlers
begin

text \<open>
  \<open>file_storage_adapter/create_watch.py\<close>: the watch for files other processes create.
  \<open>watchfiles\<close> is a parameter: the batches of changes it yields until the stop event. The
  successive sizes of a new file are made by the process that writes it, so they are a
  parameter of each change.
\<close>

section \<open>\<open>wait_until_settled\<close>\<close>

definition SETTLE_STABLE_READS :: nat where "SETTLE_STABLE_READS = 3"

text \<open>
  The loop over the outcomes of the polls, from the last size and the count of matches.
  \<open>None\<close>: still polling when the outcomes are used up.
\<close>

fun settle :: "nat \<Rightarrow> int \<Rightarrow> nat \<Rightarrow> nat res list \<Rightarrow> int option res option" where
  "settle stable_reads last_size consecutive_matches [] =
     (if consecutive_matches < stable_reads then None else Some (Inr (Some last_size)))"
| "settle stable_reads last_size consecutive_matches (stat # polls) =
     (if consecutive_matches < stable_reads then
        (case stat of
           Inl e \<Rightarrow> if e = FileNotFoundError then Some (Inr None) else Some (Inl e)
         | Inr sz \<Rightarrow>
             if int sz = last_size then settle stable_reads last_size (Suc consecutive_matches) polls
             else settle stable_reads (int sz) 0 polls)
      else Some (Inr (Some last_size)))"

definition wait_until_settled :: "nat \<Rightarrow> nat res list \<Rightarrow> int option res option" where
  "wait_until_settled stable_reads polls = settle stable_reads (- 1) 0 polls"

section \<open>\<open>ExternalCreationWatch\<close>\<close>

datatype change = Added | Modified | Deleted

record fs_change =
  ch_kind :: change
  ch_path :: path
  ch_polls :: "nat res list"

text \<open>\<open>path.relative_to(watch_dir)\<close>, printed.\<close>

definition relative_to :: "path \<Rightarrow> path \<Rightarrow> path res" where
  "relative_to p root = (if take (length root) p = root then Inr (drop (length root) p) else Inl ValueErr)"

definition str_of_path :: "path \<Rightarrow> pystr" where
  "str_of_path p = (if p = [] then DOT else join_on SLASH p)"

definition was_recent :: "host \<Rightarrow> path \<Rightarrow> ('c fs_world, bool) comp" where
  "was_recent H p = seq (monotonic H) (\<lambda>now w.
     case rw_was_recent now p (w_recent w) of (b, rw) \<Rightarrow> (Inr b, w\<lparr>w_recent := rw\<rparr>))"

definition created_args :: "pystr \<Rightarrow> nat \<Rightarrow> datetime \<Rightarrow> publish_args" where
  "created_args path sz now = \<lparr>pa_subject = CREATE_COMPLETED_SUBJECT,
     pa_payload = encode_create_completed path sz None now, pa_event_type = py ''FileCreateCompleted'',
     pa_correlation_id = None, pa_msg_id = None\<rparr>"

definition handle_new_file :: "'c bus \<Rightarrow> host \<Rightarrow> path \<Rightarrow> path \<Rightarrow> nat res list \<Rightarrow> ('c fs_world, unit) comp" where
  "handle_new_file B H watch_dir path polls =
     (case wait_until_settled SETTLE_STABLE_READS polls of
        None \<Rightarrow> raise Blocked
      | Some r \<Rightarrow>
        seq (lift_res r) (\<lambda>sz.
        case sz of
          None \<Rightarrow> ret ()
        | Some n \<Rightarrow>
          seq (lift_res (relative_to path watch_dir)) (\<lambda>relative.
          seq (utc_now H) (\<lambda>now.
          seq (b_publish B (created_args (str_of_path relative) (nat n) now)) (\<lambda>_. ret ())))))"

definition handle_change :: "'c bus \<Rightarrow> host \<Rightarrow> path \<Rightarrow> fs_change \<Rightarrow> ('c fs_world, unit) comp" where
  "handle_change B H watch_dir ch =
     (if ch_kind ch \<noteq> Added then ret ()
      else seq (os_op H (query (\<lambda>fs. p_is_file fs (ch_path ch)))) (\<lambda>is_file.
        if \<not> is_file then ret ()
        else seq (was_recent H (ch_path ch)) (\<lambda>recent.
          if recent then ret () else handle_new_file B H watch_dir (ch_path ch) (ch_polls ch))))"

definition run_forever :: "'c bus \<Rightarrow> host \<Rightarrow> path \<Rightarrow> fs_change list list \<Rightarrow> ('c fs_world, unit) comp" where
  "run_forever B H watch_dir batches = for_each (for_each (handle_change B H watch_dir)) batches"

section \<open>Settling\<close>

text \<open>What has been read: a size that stands for \<open>m\<close> matches was the outcome of the last \<open>m + 1\<close> polls.\<close>

lemma settle_sound:
  "settle k l m polls = Some (Inr (Some n)) \<Longrightarrow> m \<le> k \<Longrightarrow> seen = pre @ replicate (Suc m) (Inr (nat l)) \<Longrightarrow> 0 \<le> l \<Longrightarrow>
   \<exists>pre post. seen @ polls = pre @ replicate (Suc k) (Inr (nat n)) @ post \<and> 0 \<le> n"
proof (induction k l m polls arbitrary: seen pre rule: settle.induct)
  case (1 k l m)
  then show ?case by (intro exI [of _ pre] exI [of _ "[]"]) (simp split: if_splits)
next
  case (2 k l m stat polls)
  show ?case
  proof (cases "m < k")
    case False
    with 2 have "m = k" "n = l" by auto
    with 2 show ?thesis by (intro exI [of _ pre] exI [of _ "stat # polls"]) simp
  next
    case True
    with 2(3) obtain sz where s: "stat = Inr sz" by (auto split: sum.splits if_splits)
    show ?thesis
    proof (cases "int sz = l")
      case eq: True
      have "seen @ [stat] = pre @ replicate (Suc (Suc m)) (Inr (nat l))"
        using 2(5) s by (simp add: replicate_append_same flip: eq)
      from 2(1) [OF True s eq _ _ this] 2(3,6) True s eq show ?thesis by simp
    next
      case False
      have "seen @ [stat] = seen @ replicate (Suc 0) (Inr (nat (int sz)))" using s by simp
      from 2(2) [OF True s False _ _ this] 2(3) True s False show ?thesis by simp
    qed
  qed
qed

text \<open>A file that is left alone for long enough is noticed.\<close>

lemma settle_stable: "m + j \<ge> k \<Longrightarrow> settle k (int n) m (replicate j (Inr n)) = Some (Inr (Some (int n)))"
  by (induction j arbitrary: m) auto

lemma settle_more: "settle k l m polls = Some r \<Longrightarrow> settle k l m (polls @ qs) = Some r"
proof (induction k l m polls rule: settle.induct)
  case (1 k l m)
  then show ?case by (cases qs) (auto split: if_splits)
next
  case (2 k l m stat polls)
  then show ?case by (auto split: sum.splits if_splits)
qed

lemma settle_reached:
  "settle k l m (map Inr sizes @ replicate (Suc k) (Inr n)) \<noteq> None"
proof (induction sizes arbitrary: l m)
  case Nil
  show ?case
    using settle_stable [of k "Suc m" k n] settle_stable [of k 0 k n] by (auto simp: not_less)
next
  case (Cons s sizes)
  then show ?case by auto
qed

lemma settle_good: "settle k l m (map Inr sizes) = Some r \<Longrightarrow> \<exists>n. r = Inr (Some n)"
proof (induction sizes arbitrary: l m)
  case (Cons s sizes)
  then show ?case by (auto split: if_splits)
qed (auto split: if_splits)

section \<open>What the watch publishes\<close>

lemma new_file_publishes:
  assumes "handle_new_file B H watch_dir path polls w = (r, w')" and "a \<in> publishes (new_calls w w')"
  shows "\<exists>n relative now. wait_until_settled SETTLE_STABLE_READS polls = Some (Inr (Some n))
     \<and> path = watch_dir @ relative \<and> a = created_args (str_of_path relative) (nat n) now"
proof (cases "wait_until_settled SETTLE_STABLE_READS polls")
  case None
  with assms show ?thesis by (auto simp: handle_new_file_def raise_def new_calls_none)
next
  case (Some out)
  show ?thesis
  proof (cases out)
    case (Inl e)
    with assms Some show ?thesis by (auto simp: handle_new_file_def seq_def lift_res_def new_calls_none)
  next
    case (Inr sz)
    show ?thesis
    proof (cases sz)
      case None
      with assms Some Inr show ?thesis
        by (auto simp: handle_new_file_def seq_def lift_res_def ret_def new_calls_none)
    next
      case sz: (Some n)
      show ?thesis
      proof (cases "relative_to path watch_dir")
        case (Inl e)
        with assms Some Inr sz show ?thesis
          by (auto simp: handle_new_file_def seq_def lift_res_def new_calls_none)
      next
        case rel: (Inr relative)
        let ?w = "w\<lparr>w_tick := Suc (w_tick w)\<rparr>"
        obtain r1 w1 where p: "b_publish B (created_args (str_of_path relative) (nat n) (utc_now_at H (w_tick w))) ?w = (r1, w1)"
          by fastforce
        with assms(1) Some Inr sz rel have "w' = w1"
          by (auto simp: handle_new_file_def seq_def lift_res_def utc_now_def tick_def ret_def split: sum.splits)
        with b_publish_calls [OF p] have "new_calls w w' = [Published (created_args (str_of_path relative) (nat n) (utc_now_at H (w_tick w))) r1]"
          by (simp add: new_calls_def)
        with assms(2) have "a = created_args (str_of_path relative) (nat n) (utc_now_at H (w_tick w))"
          by (simp add: publishes_def)
        moreover have "path = watch_dir @ relative"
          using rel by (auto simp: relative_to_def split: if_splits) (metis append_take_drop_id)
        ultimately show ?thesis using Some Inr sz by blast
      qed
    qed
  qed
qed

text \<open>What \<open>handle_change\<close> asks before it looks at the new file.\<close>

lemma change_publishes:
  assumes "handle_change B H watch_dir ch w = (r, w')" and "a \<in> publishes (new_calls w w')"
  shows "ch_kind ch = Added \<and> p_is_file (w_fs w) (ch_path ch)
     \<and> \<not> fst (rw_was_recent (monotonic_at H (Suc (w_tick w))) (ch_path ch) (w_recent w))
     \<and> (\<exists>n relative now. wait_until_settled SETTLE_STABLE_READS (ch_polls ch) = Some (Inr (Some n))
          \<and> ch_path ch = watch_dir @ relative \<and> a = created_args (str_of_path relative) (nat n) now)"
proof -
  let ?w = "w\<lparr>w_tick := Suc (w_tick w)\<rparr>"
  let ?rr = "rw_was_recent (monotonic_at H (Suc (w_tick w))) (ch_path ch) (w_recent w)"
  have add: "ch_kind ch = Added"
    using assms by (auto simp: handle_change_def ret_def new_calls_none split: if_splits)
  have fault: "\<not> os_fault_at H (w_tick w)"
    using assms add by (auto simp: handle_change_def seq_def os_op_def tick_def new_calls_none)
  have isf: "p_is_file (w_fs w) (ch_path ch)"
  proof (rule ccontr)
    assume "\<not> p_is_file (w_fs w) (ch_path ch)"
    with assms add fault show False
      by (auto simp: handle_change_def seq_def os_op_def query_def tick_def ret_def new_calls_none)
  qed
  let ?w2 = "w\<lparr>w_tick := Suc (Suc (w_tick w)), w_recent := snd ?rr\<rparr>"
  have run: "(r, w') = (if fst ?rr then (Inr (), ?w2) else handle_new_file B H watch_dir (ch_path ch) (ch_polls ch) ?w2)"
    using assms(1) add fault isf
    by (simp add: handle_change_def seq_def os_op_def query_def tick_def was_recent_def monotonic_def ret_def split_beta
        split: if_splits)
  have same: "new_calls ?w2 w' = new_calls w w'" by (rule new_calls_same) simp
  show ?thesis
  proof (cases "fst ?rr")
    case True
    with run assms(2) show ?thesis by (simp add: new_calls_none)
  next
    case False
    with run have "handle_new_file B H watch_dir (ch_path ch) (ch_polls ch) ?w2 = (r, w')" by simp
    from new_file_publishes [OF this, of a] assms(2) same add isf False show ?thesis by auto
  qed
qed

lemma wait_until_settled_sound:
  assumes "wait_until_settled SETTLE_STABLE_READS polls = Some (Inr (Some n))"
  shows "\<exists>pre post. polls = pre @ replicate (Suc SETTLE_STABLE_READS) (Inr (nat n)) @ post"
proof (cases polls)
  case Nil
  with assms show ?thesis by (simp add: wait_until_settled_def SETTLE_STABLE_READS_def)
next
  case (Cons stat rest)
  with assms obtain sz where s: "stat = Inr sz" "settle SETTLE_STABLE_READS (int sz) 0 rest = Some (Inr (Some n))"
    by (auto simp: wait_until_settled_def SETTLE_STABLE_READS_def split: sum.splits if_splits)
  from settle_sound [OF s(2), of "[stat]" "[]"] s(1) Cons show ?thesis by simp
qed

section \<open>Properties\<close>


definition demo_watch_world :: "unit fs_world" where
  "demo_watch_world = \<lparr>w_client = (), w_calls = [], w_tick = 0, w_fs = [([py ''d''], Dir), ([py ''d'', py ''new''], File [1, 2])],
     w_recent = recent_writes_init DEFAULT_TTL\<rparr>"

definition demo_change :: fs_change where
  "demo_change = \<lparr>ch_kind = Added, ch_path = [py ''d'', py ''new''], ch_polls = replicate 4 (Inr 2)\<rparr>"


text \<open>
  C29: waiting for a file to settle ends: whatever sizes were read before, four equal sizes in
  a row at the latest make it return a size.
\<close>

theorem settling_ends:
  "\<exists>z. wait_until_settled SETTLE_STABLE_READS (map Inr sizes @ replicate 4 (Inr n) @ later) = Some (Inr (Some z))"
proof -
  let ?polls = "map Inr sizes @ replicate 4 (Inr n)"
  obtain r where r: "wait_until_settled SETTLE_STABLE_READS ?polls = Some r"
    using settle_reached [of SETTLE_STABLE_READS "- 1" 0 sizes n]
    by (auto simp: wait_until_settled_def SETTLE_STABLE_READS_def numeral_eq_Suc)
  have "?polls = map Inr (sizes @ replicate 4 n)" by (simp add: map_replicate)
  with r obtain z where "r = Inr (Some z)"
    unfolding wait_until_settled_def using settle_good by metis
  with r settle_more [of SETTLE_STABLE_READS "- 1" 0 ?polls r later] show ?thesis
    by (simp add: wait_until_settled_def)
qed

end
