(* ===== verification/Db_Sql.thy ===== *)
theory Db_Sql
  imports Bus_Iface
begin

text \<open>
  The language of the one SQL statement the program sends, \<open>INSERT ... VALUES ... AS new ON
  DUPLICATE KEY UPDATE ...\<close>, and what the manual of MySQL says it does to a row. The server
  itself is not part of the repository: it is the parameter \<open>engine\<close>, of which \<open>engine_ok\<close> says
  that it executes statements of this language, whatever they are; the statement the program
  sends is in \<open>Db_Adapter\<close>.
\<close>

section \<open>Statements\<close>

datatype sql_value = SqlStr pystr | SqlInt int

text \<open>A bound parameter, a column of the row alias \<open>new\<close>, a column of the stored row, a sum.\<close>

datatype sql_expr = Param pystr | NewCol pystr | Col pystr | Plus sql_expr sql_expr

record insert_statement =
  is_table :: pystr
  is_columns :: "pystr list"
  is_values :: "sql_expr list"
  is_on_duplicate :: "(pystr \<times> sql_expr) list"

type_synonym sql_row = "pystr \<Rightarrow> sql_value option"
type_synonym sql_params = "(pystr \<times> sql_value) list"

section \<open>Their effect on a row\<close>

fun sql_plus :: "sql_value option \<Rightarrow> sql_value option \<Rightarrow> sql_value option" where
  "sql_plus (Some (SqlInt i)) (Some (SqlInt j)) = Some (SqlInt (i + j))"
| "sql_plus _ _ = None"

primrec sql_eval :: "sql_params \<Rightarrow> sql_row \<Rightarrow> sql_row \<Rightarrow> sql_expr \<Rightarrow> sql_value option" where
  "sql_eval ps new row (Param p) = map_of ps p"
| "sql_eval ps new row (NewCol c) = new c"
| "sql_eval ps new row (Col c) = row c"
| "sql_eval ps new row (Plus a b) = sql_plus (sql_eval ps new row a) (sql_eval ps new row b)"

definition new_row :: "insert_statement \<Rightarrow> sql_params \<Rightarrow> sql_row" where
  "new_row st ps c = (case map_of (zip (is_columns st) (is_values st)) c of
     None \<Rightarrow> None | Some e \<Rightarrow> sql_eval ps Map.empty Map.empty e)"

text \<open>The assignments are carried out from left to right, a later one reading what an earlier one wrote.\<close>

primrec assign_all :: "sql_params \<Rightarrow> sql_row \<Rightarrow> (pystr \<times> sql_expr) list \<Rightarrow> sql_row \<Rightarrow> sql_row" where
  "assign_all ps new [] row = row"
| "assign_all ps new (a # as) row = assign_all ps new as (row(fst a := sql_eval ps new row (snd a)))"

definition upsert_row :: "insert_statement \<Rightarrow> sql_params \<Rightarrow> sql_row option \<Rightarrow> sql_row" where
  "upsert_row st ps old = (case old of
     None \<Rightarrow> new_row st ps
   | Some row \<Rightarrow> assign_all ps (new_row st ps) (is_on_duplicate st) row)"

definition named_columns :: "insert_statement \<Rightarrow> pystr set" where
  "named_columns st = set (is_columns st) \<union> fst ` set (is_on_duplicate st)"

section \<open>The server\<close>

text \<open>
  \<open>eng_row\<close> finds the row of the table \<open>orders\<close> with a given primary key, and \<open>eng_key\<close> is the
  key equality of that column's collation (two keys are equal when their images are).
\<close>

definition ORDERS_TABLE :: pystr where "ORDERS_TABLE = py ''orders''"
definition ORDERS_KEY :: pystr where "ORDERS_KEY = py ''order_id''"

record 'd engine =
  eng_execute :: "insert_statement \<Rightarrow> sql_params \<Rightarrow> ('d, unit) comp"
  eng_row :: "'d \<Rightarrow> pystr \<Rightarrow> sql_row option"
  eng_key :: "pystr \<Rightarrow> pystr"

text \<open>
  What the code relies on in MySQL: a statement that succeeds inserts the row of its key or, if
  there is one, updates it, in the columns it names, and touches no other row; one that fails has
  done so completely or not at all (the connection can be lost after the commit).
\<close>

definition executed :: "'d engine \<Rightarrow> insert_statement \<Rightarrow> sql_params \<Rightarrow> pystr \<Rightarrow> 'd \<Rightarrow> 'd \<Rightarrow> bool" where
  "executed E st ps key d d' \<longleftrightarrow> (\<forall>k.
     if eng_key E k = eng_key E key
     then \<exists>row. eng_row E d' k = Some row \<and> (\<forall>c \<in> named_columns st. row c = upsert_row st ps (eng_row E d k) c)
     else eng_row E d' k = eng_row E d k)"

definition engine_ok :: "'d engine \<Rightarrow> bool" where
  "engine_ok E \<longleftrightarrow> (\<forall>st ps d r d'. is_table st = ORDERS_TABLE \<longrightarrow> eng_execute E st ps d = (r, d') \<longrightarrow>
     (\<exists>key. new_row st ps ORDERS_KEY = Some (SqlStr key) \<and> executed E st ps key d d')
     \<or> (\<exists>e. r = Inl e) \<and> eng_row E d' = eng_row E d)"

lemma engine_okD:
  assumes "engine_ok E" and "is_table st = ORDERS_TABLE" and "eng_execute E st ps d = (r, d')"
  obtains (stored) key where "new_row st ps ORDERS_KEY = Some (SqlStr key)" "executed E st ps key d d'"
  | (refused) e where "r = Inl e" "eng_row E d' = eng_row E d"
  using assms unfolding engine_ok_def by blast

text \<open>A table as an association list, with exact key equality; a row without a key is refused.\<close>

definition table_engine :: "(pystr, sql_row) pydict engine" where
  "table_engine = \<lparr>eng_execute = (\<lambda>st ps d. case new_row st ps ORDERS_KEY of
       Some (SqlStr k) \<Rightarrow> (Inr (), dict_set k (upsert_row st ps (dict_get d k)) d)
     | _ \<Rightarrow> (Inl DBAPIError, d)),
     eng_row = (\<lambda>d. dict_get d), eng_key = (\<lambda>k. k)\<rparr>"

lemma table_engine_ok: "engine_ok table_engine"
  unfolding engine_ok_def executed_def
  by (auto simp: table_engine_def dict_get_set split: option.splits sql_value.splits)

end
