(* ===== verification/Db_Adapter.thy ===== *)
theory Db_Adapter
  imports Db_Sql
begin

text \<open>
  The database adapter: \<open>db_adapter_mysql/payloads.py\<close>, \<open>write_handler.py\<close> and
  \<open>cdc_watcher.py\<close>. MySQL and its drivers are not part of the repository: the engine is the
  parameter of \<open>Db_Sql\<close>, which executes the statement of \<open>write_handler.py\<close>; the binlog is the
  list of row events each pass over the stream yields.
\<close>

section \<open>\<open>payloads.py\<close>\<close>

record order_request =
  or_order_id :: pystr
  or_item :: pystr
  or_quantity :: int

text \<open>\<open>data.get(key, default)\<close>: after \<open>data["orderId"]\<close> succeeded, \<open>data\<close> is a dictionary.\<close>

fun json_get :: "json \<Rightarrow> pystr \<Rightarrow> json \<Rightarrow> json res" where
  "json_get (JDict ps) k dflt = Inr (case map_of ps k of None \<Rightarrow> dflt | Some v \<Rightarrow> v)"
| "json_get _ k dflt = Inl TypeErr"

fun nonempty_str :: "json \<Rightarrow> pystr res" where
  "nonempty_str (JStr s) = (if s = [] then Inl MalformedPayloadError else Inr s)"
| "nonempty_str _ = Inl MalformedPayloadError"

fun positive_int :: "json \<Rightarrow> int res" where
  "positive_int (JInt i) = (if i < 1 then Inl MalformedPayloadError else Inr i)"
| "positive_int _ = Inl MalformedPayloadError"

definition decode_order_created :: "bytes \<Rightarrow> order_request res" where
  "decode_order_created raw =
     rbind
       (catch_as (\<lambda>e. e \<in> {JSONDecodeError, KeyErr, TypeErr}) MalformedPayloadError
         (rbind (json_loads raw) (\<lambda>data.
          rbind (json_item data (py ''orderId'')) (\<lambda>order_id.
          rbind (json_item data (py ''item'')) (\<lambda>item.
          rbind (json_get data (py ''quantity'') (JInt 1)) (\<lambda>quantity.
          Inr (order_id, item, quantity)))))))
       (\<lambda>(order_id, item, quantity).
          rbind (nonempty_str order_id) (\<lambda>oid.
          rbind (nonempty_str item) (\<lambda>it.
          rbind (positive_int quantity) (\<lambda>q.
          Inr \<lparr>or_order_id = oid, or_item = it, or_quantity = q\<rparr>))))"

definition encode_order_persisted :: "pystr \<Rightarrow> datetime option \<Rightarrow> datetime \<Rightarrow> bytes" where
  "encode_order_persisted order_id occurred_at now =
     json_bytes (JDict
       [(py ''orderId'', JStr order_id), (py ''status'', JStr (py ''persisted'')),
        (py ''occurredAt'', JStr (iso_utc (case occurred_at of Some t \<Rightarrow> t | None \<Rightarrow> now)))])"

text \<open>
  A cell of a binlog row: a JSON value, a \<open>datetime\<close> (printed as \<open>isoformat\<close> gives it) or an
  object \<open>json.dumps\<close> refuses.
\<close>

datatype cell = Plain json | Stamp pystr | Opaque

type_synonym row = "(pystr \<times> cell) list"

fun json_safe_cell :: "cell \<Rightarrow> json res" where
  "json_safe_cell (Plain j) = Inr j"
| "json_safe_cell (Stamp s) = Inr (JStr s)"
| "json_safe_cell Opaque = Inl TypeErr"

fun json_safe_row :: "row \<Rightarrow> json res" where
  "json_safe_row [] = Inr (JDict [])"
| "json_safe_row ((k, c) # r) =
     rbind (json_safe_cell c) (\<lambda>j.
     rbind (json_safe_row r) (\<lambda>d. case d of JDict ps \<Rightarrow> Inr (JDict ((k, j) # ps)) | _ \<Rightarrow> Inl TypeErr))"

definition encode_row_changed :: "pystr \<Rightarrow> pystr \<Rightarrow> row \<Rightarrow> row option \<Rightarrow> bytes res" where
  "encode_row_changed operation table row previous_row =
     rbind (json_safe_row row) (\<lambda>r.
     rbind (case previous_row of None \<Rightarrow> Inr [] | Some p \<Rightarrow> rmap (\<lambda>j. [(py ''previousRow'', j)]) (json_safe_row p))
       (\<lambda>prev. Inr (json_bytes (JDict
         ([(py ''operation'', JStr operation), (py ''table'', JStr table), (py ''row'', r)] @ prev)))))"

section \<open>\<open>write_handler.py\<close>\<close>

definition ORDER_CREATED_SUBJECT :: pystr where
  "ORDER_CREATED_SUBJECT = py ''events.orders.OrderCreated''"
definition ORDER_PERSISTED_SUBJECT :: pystr where
  "ORDER_PERSISTED_SUBJECT = py ''events.orders.OrderPersisted''"

text \<open>
  \<open>INSERT INTO orders (order_id, item, quantity) VALUES (:order_id, :item, :quantity) AS new
  ON DUPLICATE KEY UPDATE item = new.item, quantity = new.quantity\<close>
\<close>

definition UPSERT_SQL :: insert_statement where
  "UPSERT_SQL = \<lparr>is_table = py ''orders'',
     is_columns = [py ''order_id'', py ''item'', py ''quantity''],
     is_values = [Param (py ''order_id''), Param (py ''item''), Param (py ''quantity'')],
     is_on_duplicate = [(py ''item'', NewCol (py ''item'')), (py ''quantity'', NewCol (py ''quantity''))]\<rparr>"

definition upsert_params :: "order_request \<Rightarrow> sql_params" where
  "upsert_params request = [(py ''order_id'', SqlStr (or_order_id request)),
     (py ''item'', SqlStr (or_item request)), (py ''quantity'', SqlInt (or_quantity request))]"

record ('c, 'd) db_world = "'c world" +
  w_db :: 'd

definition upsert :: "'d engine \<Rightarrow> order_request \<Rightarrow> (('c, 'd) db_world, unit) comp" where
  "upsert E request w =
     (case eng_execute E UPSERT_SQL (upsert_params request) (w_db w) of (r, d) \<Rightarrow> (r, w\<lparr>w_db := d\<rparr>))"

definition db_write_start :: "'c bus \<Rightarrow> pystr option \<Rightarrow> (('c, 'd) db_world, pystr) comp" where
  "db_write_start B durable_name = b_subscribe B ORDER_CREATED_SUBJECT durable_name"

definition db_write_handle ::
  "'c bus \<Rightarrow> host \<Rightarrow> 'd engine \<Rightarrow> received_event \<Rightarrow> (('c, 'd) db_world, unit) comp" where
  "db_write_handle B H E ev =
     try_else (\<lambda>e. e = MalformedPayloadError) (lift_res (decode_order_created (re_payload ev))) (b_ack B ev) (\<lambda>request.
     try_else (\<lambda>e. e = DBAPIError) (upsert E request) (b_nak B ev) (\<lambda>_.
     seq (publish_reply B H ev ORDER_PERSISTED_SUBJECT (py ''OrderPersisted'')
            (encode_order_persisted (or_order_id request) None)) (\<lambda>_. b_ack B ev)))"

definition db_write_run_once ::
  "'c bus \<Rightarrow> host \<Rightarrow> 'd engine \<Rightarrow> pystr \<Rightarrow> nat \<Rightarrow> (('c, 'd) db_world, nat) comp" where
  "db_write_run_once B H E = run_once B (db_write_handle B H E)"

section \<open>\<open>cdc_watcher.py\<close>\<close>

definition ROW_CHANGED_SUBJECT :: pystr where
  "ROW_CHANGED_SUBJECT = py ''events.db.orders.RowChanged''"

datatype row_event =
    WriteRows pystr "row list"
  | UpdateRows pystr "(row \<times> row) list"
  | DeleteRows pystr "row list"

text \<open>\<open>_publish_row_changed\<close>: \<open>future.result()\<close> re-raises what the publish raised.\<close>

definition row_args :: "bytes \<Rightarrow> publish_args" where
  "row_args payload = \<lparr>pa_subject = ROW_CHANGED_SUBJECT, pa_payload = payload,
     pa_event_type = py ''RowChanged'', pa_correlation_id = None, pa_msg_id = None\<rparr>"

definition publish_row_changed ::
  "'c bus \<Rightarrow> string \<Rightarrow> pystr \<Rightarrow> row \<Rightarrow> row option \<Rightarrow> (('c, 'z) world_scheme, unit) comp" where
  "publish_row_changed B operation table row previous_row =
     seq (lift_res (encode_row_changed (py operation) table row previous_row)) (\<lambda>payload.
     seq (b_publish B (row_args payload)) (\<lambda>_. ret ()))"

fun cdc_event :: "'c bus \<Rightarrow> row_event \<Rightarrow> (('c, 'z) world_scheme, unit) comp" where
  "cdc_event B (WriteRows table rows) = for_each (\<lambda>row. publish_row_changed B ''insert'' table row None) rows"
| "cdc_event B (UpdateRows table rows) =
     for_each (\<lambda>(before, after). publish_row_changed B ''update'' table after (Some before)) rows"
| "cdc_event B (DeleteRows table rows) = for_each (\<lambda>row. publish_row_changed B ''delete'' table row None) rows"

text \<open>
  One pass of \<open>for event in stream\<close>. The shutdown event is read after each row event:
  \<open>stop_at\<close> gives the reading at a tick. The result says whether the pass saw a shutdown.
\<close>

fun cdc_pass :: "'c bus \<Rightarrow> (nat \<Rightarrow> bool) \<Rightarrow> row_event list \<Rightarrow> (('c, 'z) world_scheme, bool) comp" where
  "cdc_pass B stop_at [] w = (Inr False, w)"
| "cdc_pass B stop_at (e # es) w =
     seq (cdc_event B e) (\<lambda>_. seq tick (\<lambda>t.
       if stop_at t then ret True else cdc_pass B stop_at es)) w"

text \<open>
  \<open>_run_stream\<close>: pass after pass, until the shutdown event is set at the head of the loop.
  \<open>None\<close>: still running when the given passes are used up. The \<open>finally\<close> closes the stream on
  every way out.
\<close>

datatype stream_state = Open | Closed

fun run_stream ::
  "'c bus \<Rightarrow> (nat \<Rightarrow> bool) \<Rightarrow> row_event list list \<Rightarrow> ('c, 'z) world_scheme
   \<Rightarrow> unit res option \<times> stream_state \<times> ('c, 'z) world_scheme" where
  "run_stream B stop_at [] w = (None, Open, w)"
| "run_stream B stop_at (es # passes) w =
     (if stop_at (w_tick w) then (Some (Inr ()), Closed, w\<lparr>w_tick := Suc (w_tick w)\<rparr>)
      else
        (case cdc_pass B stop_at es (w\<lparr>w_tick := Suc (w_tick w)\<rparr>) of
           (Inl e, w') \<Rightarrow> (Some (Inl e), Closed, w')
         | (Inr _, w') \<Rightarrow> run_stream B stop_at passes w'))"

section \<open>Decoding\<close>

lemma json_get_error: "json_get j k d = Inl e \<Longrightarrow> e = TypeErr"
  by (cases j) auto

lemma decode_order_created_cases:
  "decode_order_created raw \<in> {Inl MalformedPayloadError, Inl ValueErr, Inl UnicodeDecodeError}
   \<or> (\<exists>r. decode_order_created raw = Inr r \<and> or_order_id r \<noteq> [] \<and> or_item r \<noteq> [] \<and> 1 \<le> or_quantity r)"
proof -
  let ?p = "rbind (json_loads raw) (\<lambda>data.
          rbind (json_item data (py ''orderId'')) (\<lambda>order_id.
          rbind (json_item data (py ''item'')) (\<lambda>item.
          rbind (json_get data (py ''quantity'') (JInt 1)) (\<lambda>quantity.
          Inr (order_id, item, quantity)))))"
  show ?thesis
  proof (cases ?p)
    case (Inl e)
    then have "e \<in> {JSONDecodeError, KeyErr, TypeErr, ValueErr, UnicodeDecodeError}"
      by (auto simp: rbind_Inl_iff dest!: json_loads_error json_item_error json_get_error)
    with Inl show ?thesis by (auto simp: decode_order_created_def catch_as_def)
  next
    case (Inr a)
    obtain x y z where a: "a = (x, y, z)" by (cases a)
    have s: "nonempty_str j = Inl MalformedPayloadError \<or> (\<exists>t. nonempty_str j = Inr t \<and> t \<noteq> [])" for j
      by (cases j) auto
    have q: "positive_int j = Inl MalformedPayloadError \<or> (\<exists>i. positive_int j = Inr i \<and> 1 \<le> i)" for j
      by (cases j) auto
    show ?thesis
      using s [of x] s [of y] q [of z] unfolding decode_order_created_def Inr a by (auto simp: catch_as_def)
  qed
qed

lemma decode_order_of:
  assumes "json_ok (JDict ps)" and "map_of ps (py ''orderId'') = Some (JStr oid)" and "oid \<noteq> []"
    and "map_of ps (py ''item'') = Some (JStr it)" and "it \<noteq> []"
    and "map_of ps (py ''quantity'') = (if q = 1 then None else Some (JInt q))" and "1 \<le> q"
  shows "decode_order_created (json_bytes (JDict ps)) = Inr \<lparr>or_order_id = oid, or_item = it, or_quantity = q\<rparr>"
  using assms by (simp add: decode_order_created_def json.dec_enc catch_as_def del: json_ok.simps)

section \<open>The write handler meets the contract\<close>

lemma silent_upsert [settling_intros]: "silent (upsert E request)"
  by (auto simp: silent_def upsert_def split: prod.splits)

lemma settling_db_write: "settling ev (db_write_handle B H E ev)"
  unfolding db_write_handle_def
  by (intro settling_try silent_lift_res settling_ack silent_upsert settling_nak settling_reply)

interpretation db_write_cmd: command_handler "db_write_handle B H E" for B H E
  by (rule command_handlerI) (rule settling_db_write)

section \<open>The order table\<close>

text \<open>What the table says of an order: the item and the quantity of its row.\<close>

definition eng_lookup :: "'d engine \<Rightarrow> 'd \<Rightarrow> pystr \<Rightarrow> (pystr \<times> int) option" where
  "eng_lookup E d k = (case eng_row E d k of None \<Rightarrow> None | Some row \<Rightarrow>
     (case (row (py ''item''), row (py ''quantity'')) of
        (Some (SqlStr i), Some (SqlInt q)) \<Rightarrow> Some (i, q) | _ \<Rightarrow> None))"

text \<open>The statement on one row: whatever was there, the requested item and quantity are there after it.\<close>

lemma upsert_key: "new_row UPSERT_SQL (upsert_params req) ORDERS_KEY = Some (SqlStr (or_order_id req))"
  by (simp add: new_row_def UPSERT_SQL_def upsert_params_def ORDERS_KEY_def)

lemma upsert_row_values:
  "upsert_row UPSERT_SQL (upsert_params req) old (py ''item'') = Some (SqlStr (or_item req))"
  "upsert_row UPSERT_SQL (upsert_params req) old (py ''quantity'') = Some (SqlInt (or_quantity req))"
  by (simp_all add: upsert_row_def new_row_def UPSERT_SQL_def upsert_params_def py_def split: option.splits)

lemma execute_upsert:
  assumes "engine_ok E" and "eng_execute E UPSERT_SQL (upsert_params req) d = (r, d')"
  shows "eng_lookup E d' = (\<lambda>k. if eng_key E k = eng_key E (or_order_id req)
       then Some (or_item req, or_quantity req) else eng_lookup E d k)
     \<or> (\<exists>e. r = Inl e) \<and> eng_lookup E d' = eng_lookup E d"
proof -
  have t: "is_table UPSERT_SQL = ORDERS_TABLE" by (simp add: UPSERT_SQL_def ORDERS_TABLE_def)
  have cols: "py ''item'' \<in> named_columns UPSERT_SQL" "py ''quantity'' \<in> named_columns UPSERT_SQL"
    by (simp_all add: named_columns_def UPSERT_SQL_def)
  from assms(1) t assms(2) show ?thesis
  proof (cases rule: engine_okD)
    case (stored key)
    then have key: "key = or_order_id req" by (simp add: upsert_key)
    have "eng_lookup E d' k = (if eng_key E k = eng_key E key then Some (or_item req, or_quantity req)
        else eng_lookup E d k)" for k
    proof (cases "eng_key E k = eng_key E key")
      case True
      with stored(2) obtain row where "eng_row E d' k = Some row"
        "\<forall>c \<in> named_columns UPSERT_SQL. row c = upsert_row UPSERT_SQL (upsert_params req) (eng_row E d k) c"
        unfolding executed_def by meson
      with True cols show ?thesis by (simp add: eng_lookup_def upsert_row_values)
    next
      case False
      with stored(2) show ?thesis unfolding executed_def eng_lookup_def by auto
    qed
    then show ?thesis unfolding key by blast
  next
    case (refused e)
    then show ?thesis by (simp add: eng_lookup_def fun_eq_iff)
  qed
qed

lemma upsert_ok:
  assumes "engine_ok E" and "upsert E req w = (Inr u, w')"
  shows "eng_lookup E (w_db w') = (\<lambda>k. if eng_key E k = eng_key E (or_order_id req)
      then Some (or_item req, or_quantity req) else eng_lookup E (w_db w) k)"
proof -
  have "eng_execute E UPSERT_SQL (upsert_params req) (w_db w) = (Inr u, w_db w')"
    using assms(2) by (auto simp: upsert_def split: prod.splits)
  from execute_upsert [OF assms(1) this] show ?thesis by simp
qed

section \<open>What the write handler says\<close>

lemma w_db_more: "world.more w' = world.more w \<Longrightarrow> w_db w' = w_db w"
  by (cases w; cases w') simp

lemma w_db_bus: "bus_only m \<Longrightarrow> m w = (r, w') \<Longrightarrow> w_db w' = w_db w"
  by (rule w_db_more) (rule bus_onlyD)

text \<open>The ways through the handler.\<close>

lemma upsert_calls: "upsert E req w = (r, w') \<Longrightarrow> w_calls w' = w_calls w"
  by (rule silentD [OF silent_upsert])

lemma db_write_cases:
  assumes "db_write_handle B H E ev w = (r, w')"
  obtains (settled) "w_db w' = w_db w" "publishes (new_calls w w') = {}"
  | (failed) req e where "decode_order_created (re_payload ev) = Inr req" "upsert E req w = (Inl e, w')" "r = Inl e"
  | (nak) req e w1 where "decode_order_created (re_payload ev) = Inr req" "upsert E req w = (Inl e, w1)"
      "w_db w' = w_db w1" "publishes (new_calls w w') = {}"
  | (completed) req w1 now where "decode_order_created (re_payload ev) = Inr req" "upsert E req w = (Inr (), w1)"
      "w_db w' = w_db w1" "publishes (new_calls w w') = {reply_args ev ORDER_PERSISTED_SUBJECT ''OrderPersisted''
         (encode_order_persisted (or_order_id req) None now)}"
  using assms unfolding db_write_handle_def
proof (cases rule: try_else_cases)
  case (1 e)
  then show thesis using lift_res_cases [OF 1(1)] new_calls_none [of w w] by (intro settled) auto
next
  case (2 e w1)
  have "w1 = w" using lift_res_cases [OF 2(1)] by simp
  then show thesis
    using w_db_bus [OF bus_only_calls(1) 2(3)] b_ack_calls [OF 2(3)]
    by (intro settled) (simp_all add: new_calls_def publishes_def)
next
  case (3 req w0)
  then have w0: "w0 = w" and d: "decode_order_created (re_payload ev) = Inr req"
    using lift_res_cases [OF 3(1)] by simp_all
  from 3(2) show thesis
  proof (cases rule: try_else_cases)
    case (1 e)
    then show thesis using d w0 by (intro failed) simp_all
  next
    case (2 e w1)
    then show thesis
      using d w0 w_db_bus [OF bus_only_calls(2) 2(3)] nak_publishes [OF 2(3)]
        new_calls_same [OF upsert_calls [OF 2(1)]] by (intro nak [of req e w1]) simp_all
  next
    case (3 u w1)
    have k: "bus_only (seq (publish_reply B H ev s t p) (\<lambda>_. b_ack B ev))" for s t p
      by (intro bus_only_intros)
    from reply_ack_publishes [OF 3(2)] obtain now where
      "publishes (new_calls w1 w') = {reply_args ev ORDER_PERSISTED_SUBJECT ''OrderPersisted''
         (encode_order_persisted (or_order_id req) None now)}" by blast
    with d w0 3(1) w_db_bus [OF k 3(2)] new_calls_same [OF upsert_calls [OF 3(1)]]
    show thesis by (intro completed [of req w1 now]) simp_all
  qed
qed

section \<open>The change stream\<close>

text \<open>The published payloads of a binlog: one per row, in order.\<close>

fun event_payloads :: "row_event \<Rightarrow> bytes res list" where
  "event_payloads (WriteRows t rows) = map (\<lambda>r. encode_row_changed (py ''insert'') t r None) rows"
| "event_payloads (UpdateRows t rows) =
     map (\<lambda>(b, a). encode_row_changed (py ''update'') t a (Some b)) rows"
| "event_payloads (DeleteRows t rows) = map (\<lambda>r. encode_row_changed (py ''delete'') t r None) rows"

text \<open>The published payloads of a trace.\<close>

definition published :: "bus_call list \<Rightarrow> bytes list" where
  "published cs = concat (map (\<lambda>c. case c of Published a (Inr _) \<Rightarrow> [pa_payload a] | _ \<Rightarrow> []) cs)"

lemma published_append [simp]: "published (cs @ ds) = published cs @ published ds"
  by (simp add: published_def)

text \<open>\<open>emits ps m\<close>: \<open>m\<close> publishes the payloads \<open>ps\<close> in order, all of them if it returns.\<close>

definition emits :: "bytes res list \<Rightarrow> (('c, 'z) world_scheme, unit) comp \<Rightarrow> bool" where
  "emits ps m \<longleftrightarrow> (\<forall>w r w'. m w = (r, w') \<longrightarrow>
     (\<exists>n \<le> length ps. map Inr (published (w_calls w')) = map Inr (published (w_calls w)) @ take n ps
        \<and> (r = Inr () \<longrightarrow> n = length ps)))"

lemma emitsD:
  assumes "emits ps m" and "m w = (r, w')"
  obtains n where "n \<le> length ps"
    "map Inr (published (w_calls w')) = map Inr (published (w_calls w)) @ take n ps"
    "r = Inr () \<longrightarrow> n = length ps"
  using assms unfolding emits_def by blast

lemma emits_row:
  "emits [encode_row_changed (py op') t row prev] (publish_row_changed B op' t row prev)"
  unfolding emits_def
proof (intro allI impI)
  fix w r w' assume run: "publish_row_changed B op' t row prev w = (r, w')"
  show "\<exists>n \<le> length [encode_row_changed (py op') t row prev].
      map Inr (published (w_calls w')) = map Inr (published (w_calls w)) @ take n [encode_row_changed (py op') t row prev]
        \<and> (r = Inr () \<longrightarrow> n = length [encode_row_changed (py op') t row prev])"
  proof (cases "encode_row_changed (py op') t row prev")
    case (Inl e)
    with run show ?thesis
      by (intro exI [of _ 0]) (auto simp: publish_row_changed_def seq_def lift_res_def)
  next
    case (Inr payload)
    obtain r1 w1 where p: "b_publish B (row_args payload) w = (r1, w1)" by fastforce
    have c: "w_calls w1 = w_calls w @ [Published (row_args payload) r1]" by (rule b_publish_calls [OF p])
    show ?thesis
    proof (cases r1)
      case (Inl e)
      with run Inr p c \<open>encode_row_changed (py op') t row prev = Inr payload\<close> show ?thesis
        by (intro exI [of _ 0]) (auto simp: publish_row_changed_def seq_def lift_res_def published_def)
    next
      case (Inr i)
      with run p c \<open>encode_row_changed (py op') t row prev = Inr payload\<close> show ?thesis
        by (intro exI [of _ 1])
           (auto simp: publish_row_changed_def seq_def lift_res_def ret_def published_def row_args_def)
    qed
  qed
qed

lemma emits_each:
  assumes "\<And>x. emits [f x] (g x)"
  shows "emits (map f xs) (for_each g xs)"
proof (induction xs)
  case Nil
  show ?case by (auto simp: emits_def)
next
  case (Cons x xs)
  show ?case
    unfolding emits_def
  proof (intro allI impI)
    fix w r w' assume run: "for_each g (x # xs) w = (r, w')"
    obtain r1 w1 where g: "g x w = (r1, w1)" by fastforce
    from assms g obtain n where n: "n \<le> length [f x]"
      "map Inr (published (w_calls w1)) = map Inr (published (w_calls w)) @ take n [f x]"
      "r1 = Inr () \<longrightarrow> n = length [f x]" by (rule emitsD)
    show "\<exists>n \<le> length (map f (x # xs)).
      map Inr (published (w_calls w')) = map Inr (published (w_calls w)) @ take n (map f (x # xs))
        \<and> (r = Inr () \<longrightarrow> n = length (map f (x # xs)))"
    proof (cases r1)
      case (Inl e)
      with run g n show ?thesis by (intro exI [of _ n]) (auto simp: take_Cons')
    next
      case (Inr u)
      with run g have "for_each g xs w1 = (r, w')" by simp
      with Cons.IH obtain k where k: "k \<le> length (map f xs)"
        "map Inr (published (w_calls w')) = map Inr (published (w_calls w1)) @ take k (map f xs)"
        "r = Inr () \<longrightarrow> k = length (map f xs)" by (rule emitsD)
      with n Inr show ?thesis by (intro exI [of _ "Suc k"]) auto
    qed
  qed
qed

lemma emits_event: "emits (event_payloads e) (cdc_event B e)"
proof (cases e)
  case (WriteRows t rows)
  then show ?thesis using emits_each [OF emits_row] by simp
next
  case (UpdateRows t rows)
  have "emits [case p of (b, a) \<Rightarrow> encode_row_changed (py ''update'') t a (Some b)]
      (case p of (b, a) \<Rightarrow> publish_row_changed B ''update'' t a (Some b))" for p
    by (cases p) (simp add: emits_row)
  then have "emits (map (\<lambda>p. case p of (b, a) \<Rightarrow> encode_row_changed (py ''update'') t a (Some b)) rows)
      (for_each (\<lambda>p. case p of (b, a) \<Rightarrow> publish_row_changed B ''update'' t a (Some b)) rows)"
    by (rule emits_each)
  then show ?thesis using UpdateRows by simp
next
  case (DeleteRows t rows)
  then show ?thesis using emits_each [OF emits_row] by simp
qed

text \<open>A pass publishes the payloads of a prefix of its row events, all of them if it saw no shutdown.\<close>

lemma cdc_pass_publishes:
  "cdc_pass B stop_at es w = (r, w') \<Longrightarrow>
   \<exists>n \<le> length (concat (map event_payloads es)).
     map Inr (published (w_calls w')) = map Inr (published (w_calls w)) @ take n (concat (map event_payloads es))
     \<and> (r = Inr False \<longrightarrow> n = length (concat (map event_payloads es)))"
proof (induction es arbitrary: w)
  case Nil
  then show ?case by simp
next
  case (Cons e es)
  obtain r1 w1 where ev: "cdc_event B e w = (r1, w1)" by fastforce
  from emits_event ev obtain n where n: "n \<le> length (event_payloads e)"
    "map Inr (published (w_calls w1)) = map Inr (published (w_calls w)) @ take n (event_payloads e)"
    "r1 = Inr () \<longrightarrow> n = length (event_payloads e)" by (rule emitsD)
  let ?w2 = "w1\<lparr>w_tick := Suc (w_tick w1)\<rparr>"
  show ?case
  proof (cases r1)
    case (Inl x)
    with Cons.prems ev n show ?thesis
      by (intro exI [of _ n]) (auto simp: seq_def)
  next
    case (Inr u)
    show ?thesis
    proof (cases "stop_at (w_tick w1)")
      case True
      with Cons.prems ev n Inr show ?thesis
        by (intro exI [of _ n]) (auto simp: seq_def tick_def ret_def)
    next
      case False
      with Cons.prems ev Inr have "cdc_pass B stop_at es ?w2 = (r, w')" by (simp add: seq_def tick_def)
      from Cons.IH [OF this] obtain k where k: "k \<le> length (concat (map event_payloads es))"
        "map Inr (published (w_calls w')) = map Inr (published (w_calls w1)) @ take k (concat (map event_payloads es))"
        "r = Inr False \<longrightarrow> k = length (concat (map event_payloads es))" by auto
      with n Inr show ?thesis by (intro exI [of _ "n + k"]) auto
    qed
  qed
qed

lemma cdc_pass_stopped:
  "cdc_pass B stop_at es w = (Inr True, w') \<Longrightarrow> \<exists>t. w_tick w' = Suc t \<and> stop_at t"
proof (induction es arbitrary: w)
  case (Cons e es)
  obtain r1 w1 where ev: "cdc_event B e w = (r1, w1)" by fastforce
  with Cons.prems obtain u where r1: "r1 = Inr u" by (cases r1) (auto simp: seq_def)
  show ?case
  proof (cases "stop_at (w_tick w1)")
    case True
    with Cons.prems ev r1 show ?thesis by (auto simp: seq_def tick_def ret_def)
  next
    case False
    with Cons.prems ev r1 have "cdc_pass B stop_at es (w1\<lparr>w_tick := Suc (w_tick w1)\<rparr>) = (Inr True, w')"
      by (simp add: seq_def tick_def)
    then show ?thesis by (rule Cons.IH)
  qed
qed simp

lemma run_stream_stopped:
  assumes "stop_at (w_tick w)" and "run_stream B stop_at passes w = (r, st, w')"
  shows "w_calls w' = w_calls w \<and> (r = None \<longrightarrow> w' = w)"
  using assms by (cases passes) auto

text \<open>The whole stream, over any number of passes, when a shutdown once set stays set.\<close>

lemma run_stream_publishes:
  assumes mono: "\<forall>t. stop_at t \<longrightarrow> stop_at (Suc t)"
  shows "run_stream B stop_at passes w = (r, st, w') \<Longrightarrow>
   \<exists>n \<le> length (concat (map event_payloads (concat passes))).
     map Inr (published (w_calls w')) =
       map Inr (published (w_calls w)) @ take n (concat (map event_payloads (concat passes)))
     \<and> (r = None \<and> \<not> stop_at (w_tick w') \<longrightarrow> n = length (concat (map event_payloads (concat passes))))
     \<and> (r \<noteq> None \<longrightarrow> st = Closed)"
proof (induction passes arbitrary: w)
  case Nil
  then show ?case by simp
next
  case (Cons es passes)
  let ?w1 = "w\<lparr>w_tick := Suc (w_tick w)\<rparr>"
  show ?case
  proof (cases "stop_at (w_tick w)")
    case True
    with Cons.prems show ?thesis by (intro exI [of _ 0]) auto
  next
    case False
    obtain r2 w2 where p: "cdc_pass B stop_at es ?w1 = (r2, w2)" by fastforce
    from cdc_pass_publishes [OF p] obtain n where n: "n \<le> length (concat (map event_payloads es))"
      "map Inr (published (w_calls w2)) = map Inr (published (w_calls w)) @ take n (concat (map event_payloads es))"
      "r2 = Inr False \<longrightarrow> n = length (concat (map event_payloads es))" by auto
    show ?thesis
    proof (cases r2)
      case (Inl e)
      with Cons.prems False p n show ?thesis by (intro exI [of _ n]) auto
    next
      case (Inr b)
      with Cons.prems False p have rest: "run_stream B stop_at passes w2 = (r, st, w')" by simp
      show ?thesis
      proof (cases b)
        case True
        with p Inr cdc_pass_stopped [of B stop_at es ?w1 w2] mono have stop: "stop_at (w_tick w2)" by auto
        from run_stream_stopped [OF this rest] stop Cons.IH [OF rest] n show ?thesis
          by (intro exI [of _ n]) auto
      next
        case False
        from Cons.IH [OF rest] obtain k where k: "k \<le> length (concat (map event_payloads (concat passes)))"
          "map Inr (published (w_calls w')) =
             map Inr (published (w_calls w2)) @ take k (concat (map event_payloads (concat passes)))"
          "r = None \<and> \<not> stop_at (w_tick w') \<longrightarrow> k = length (concat (map event_payloads (concat passes)))"
          "r \<noteq> None \<longrightarrow> st = Closed" by blast
        with n False Inr show ?thesis by (intro exI [of _ "n + k"]) auto
      qed
    qed
  qed
qed

section \<open>Properties\<close>

definition demo_order :: received_event where
  "demo_order = plain_event (json_bytes (JDict
     [(py ''orderId'', JStr (py ''o-1'')), (py ''item'', JStr (py ''pen'')), (py ''quantity'', JInt 3)]))"

definition demo_row :: "string \<Rightarrow> string \<Rightarrow> int \<Rightarrow> pystr \<times> sql_row" where
  "demo_row oid item q = (py oid,
     [py ''order_id'' \<mapsto> SqlStr (py oid), py ''item'' \<mapsto> SqlStr (py item), py ''quantity'' \<mapsto> SqlInt q])"

definition demo_db :: "(unit, (pystr, sql_row) pydict) db_world" where
  "demo_db = \<lparr>w_client = (), w_calls = [], w_tick = 0, w_db = [demo_row ''o-1'' ''ink'' 1, demo_row ''o-2'' ''cap'' 9]\<rparr>"

lemma demo_upsert:
  "upsert table_engine req w = (Inr (), w\<lparr>w_db := dict_set (or_order_id req)
     (upsert_row UPSERT_SQL (upsert_params req) (dict_get (w_db w) (or_order_id req))) (w_db w)\<rparr>)"
  by (simp add: upsert_def table_engine_def upsert_key)

lemma demo_order_decodes:
  "decode_order_created (re_payload demo_order) = Inr \<lparr>or_order_id = py ''o-1'', or_item = py ''pen'', or_quantity = 3\<rparr>"
  unfolding demo_order_def plain_event_def using json_ok_JInt [of 3]
  by (simp add: decode_order_of del: json_ok.simps(3))

text \<open>
  The decoder of orders either yields a request with a non-empty id, a non-empty item
  and a quantity of at least one, or raises one of three exceptions, of which the handler
  catches the first only.
\<close>

lemma decode_order_bounds:
  "decode_order_created raw \<in> {Inl MalformedPayloadError, Inl ValueErr, Inl UnicodeDecodeError}
   \<or> (\<exists>r. decode_order_created raw = Inr r \<and> or_order_id r \<noteq> [] \<and> or_item r \<noteq> [] \<and> 1 \<le> or_quantity r)"
  by (rule decode_order_created_cases)

text \<open>Whatever the write handler publishes, and what the table holds by then.\<close>

lemma db_write_publishes:
  assumes "engine_ok E" and "a \<in> publishes (new_calls w (snd (db_write_handle B H E ev w)))"
  shows "\<exists>req now. decode_order_created (re_payload ev) = Inr req
    \<and> a = reply_args ev ORDER_PERSISTED_SUBJECT ''OrderPersisted'' (encode_order_persisted (or_order_id req) None now)
    \<and> eng_lookup E (w_db (snd (db_write_handle B H E ev w))) =
        (\<lambda>k. if eng_key E k = eng_key E (or_order_id req) then Some (or_item req, or_quantity req)
             else eng_lookup E (w_db w) k)"
proof -
  obtain r w' where run: "db_write_handle B H E ev w = (r, w')" by fastforce
  with assms(2) have a: "a \<in> publishes (new_calls w w')" by simp
  from run have "\<exists>req now. decode_order_created (re_payload ev) = Inr req
    \<and> a = reply_args ev ORDER_PERSISTED_SUBJECT ''OrderPersisted'' (encode_order_persisted (or_order_id req) None now)
    \<and> eng_lookup E (w_db w') =
        (\<lambda>k. if eng_key E k = eng_key E (or_order_id req) then Some (or_item req, or_quantity req)
             else eng_lookup E (w_db w) k)"
  proof (cases rule: db_write_cases)
    case (failed req e)
    with a new_calls_none [OF upsert_calls [OF failed(2)]] show ?thesis by simp
  next
    case (completed req w1 now)
    from upsert_ok [OF assms(1) completed(2)] completed a show ?thesis by auto
  qed (use a in simp_all)
  with run show ?thesis by simp
qed


text \<open>
  C19: \<open>OrderPersisted\<close> is published only when the order's row holds exactly the requested
  item and quantity, all other rows are as they were, and it names the order and the command.
\<close>

theorem order_persisted_truthful:
  assumes "engine_ok E" and "a \<in> publishes (new_calls w (snd (db_write_handle B H E ev w)))"
  shows "\<exists>req now. decode_order_created (re_payload ev) = Inr req
    \<and> a = reply_args ev ORDER_PERSISTED_SUBJECT ''OrderPersisted'' (encode_order_persisted (or_order_id req) None now)
    \<and> eng_lookup E (w_db (snd (db_write_handle B H E ev w))) =
        (\<lambda>k. if eng_key E k = eng_key E (or_order_id req) then Some (or_item req, or_quantity req)
             else eng_lookup E (w_db w) k)"
  by (rule db_write_publishes [OF assms])

theorem order_persisted_truthful_witness:
  "eng_lookup table_engine (w_db (snd (db_write_handle calm_bus calm_host table_engine demo_order demo_db)))
     (py ''o-1'') = Some (py ''pen'', 3)"
proof -
  have "reply_args demo_order ORDER_PERSISTED_SUBJECT ''OrderPersisted'' (encode_order_persisted (py ''o-1'') None 0)
      \<in> publishes (new_calls demo_db (snd (db_write_handle calm_bus calm_host table_engine demo_order demo_db)))"
    by (simp add: db_write_handle_def demo_order_decodes try_else_def lift_res_def demo_upsert
        demo_db_def publish_reply_def seq_def utc_now_def tick_def ret_def b_publish_def b_ack_def via_def
        calm_bus_def calm_host_def publishes_def new_calls_def reply_args_def)
  from order_persisted_truthful [OF table_engine_ok this] show ?thesis
    by (auto simp: demo_order_decodes)
qed

text \<open>
  C20: redelivery is harmless for the table: once the handler has reported an order as
  persisted, handling the same event again before anything else writes to the table, whatever
  fails this time, leaves item and quantity of every row as they are. That is a property of the
  statement the handler sends, whose assignments read the new row only.
\<close>

theorem order_redelivery_idempotent:
  assumes "engine_ok E" and "publishes (new_calls w (snd (db_write_handle B H E ev w))) \<noteq> {}"
    and "w_db w2 = w_db (snd (db_write_handle B H E ev w))"
  shows "eng_lookup E (w_db (snd (db_write_handle B' H' E ev w2))) = eng_lookup E (w_db w2)"
proof -
  obtain r w' where run: "db_write_handle B H E ev w = (r, w')" by fastforce
  from run obtain req w1 where d: "decode_order_created (re_payload ev) = Inr req"
    and u: "upsert E req w = (Inr (), w1)" and db: "w_db w' = w_db w1"
  proof (cases rule: db_write_cases)
    case (failed req e)
    with run assms(2) new_calls_none [OF upsert_calls [OF failed(2)]] show ?thesis by simp
  qed (use run assms(2) in simp_all)
  have look: "eng_lookup E (w_db w2) = (\<lambda>k. if eng_key E k = eng_key E (or_order_id req)
      then Some (or_item req, or_quantity req) else eng_lookup E (w_db w) k)"
    using upsert_ok [OF assms(1) u] db run assms(3) by simp
  have again: "eng_lookup E (w_db w4) = eng_lookup E (w_db w2)" if up: "upsert E req w2 = (r4, w4)" for r4 w4
  proof -
    have "eng_execute E UPSERT_SQL (upsert_params req) (w_db w2) = (r4, w_db w4)"
      using up by (auto simp: upsert_def split: prod.splits)
    from execute_upsert [OF assms(1) this] show ?thesis using look by auto
  qed
  obtain r3 w3 where run2: "db_write_handle B' H' E ev w2 = (r3, w3)" by fastforce
  then have "eng_lookup E (w_db w3) = eng_lookup E (w_db w2)"
    by (cases rule: db_write_cases) (use d again in auto)
  with run2 show ?thesis by simp
qed

theorem order_redelivery_idempotent_witness:
  "eng_lookup table_engine (w_db (snd (db_write_handle calm_bus calm_host table_engine demo_order
       (snd (db_write_handle calm_bus calm_host table_engine demo_order demo_db)))))
   = eng_lookup table_engine (w_db (snd (db_write_handle calm_bus calm_host table_engine demo_order demo_db)))"
proof (rule order_redelivery_idempotent [OF table_engine_ok])
  show "publishes (new_calls demo_db (snd (db_write_handle calm_bus calm_host table_engine demo_order demo_db))) \<noteq> {}"
    by (simp add: db_write_handle_def demo_order_decodes try_else_def lift_res_def demo_upsert
        demo_db_def publish_reply_def seq_def utc_now_def tick_def ret_def b_publish_def b_ack_def via_def
        calm_bus_def calm_host_def publishes_def new_calls_def reply_args_def)
qed simp

text \<open>
  C21: the change stream publishes the row changes of the binlog in order and without gaps:
  what it published at any point is a prefix of the encoded changes, all of them when it is
  still running without a shutdown; and it ends only with the stream closed.
\<close>

theorem row_changes_in_order:
  assumes "\<forall>t. stop_at t \<longrightarrow> stop_at (Suc t)" and "run_stream B stop_at passes w = (r, st, w')"
  shows "\<exists>n \<le> length (concat (map event_payloads (concat passes))).
     map Inr (published (w_calls w')) =
       map Inr (published (w_calls w)) @ take n (concat (map event_payloads (concat passes)))
     \<and> (r = None \<and> \<not> stop_at (w_tick w') \<longrightarrow> n = length (concat (map event_payloads (concat passes))))
     \<and> (r \<noteq> None \<longrightarrow> st = Closed)"
  using run_stream_publishes [OF assms] .

theorem row_changes_in_order_witness:
  "length (published (w_calls (snd (snd (run_stream calm_bus (\<lambda>_. False)
     [[WriteRows (py ''orders'') [[(py ''item'', Plain (JStr (py ''pen'')))]]], []] demo_db))))) = 1"
proof -
  let ?s = "run_stream calm_bus (\<lambda>_. False)
     [[WriteRows (py ''orders'') [[(py ''item'', Plain (JStr (py ''pen'')))]]], []] demo_db"
  obtain r st w' where run: "?s = (r, st, w')" by (cases ?s)
  have m: "\<forall>t. (\<lambda>_. False) t \<longrightarrow> (\<lambda>_. False) (Suc t)" by simp
  have none: "r = None"
    using run by (auto simp: seq_def publish_row_changed_def lift_res_def encode_row_changed_def
        b_publish_def via_def calm_bus_def ret_def tick_def)
  from row_changes_in_order [OF m run] none have
    "length (map Inr (published (w_calls w')) :: bytes res list) = 1"
    by (auto simp: demo_db_def published_def)
  with run show ?thesis by simp
qed

end
