(* ===== verification/Http_Adapters.thy ===== *)
theory Http_Adapters
  imports Bus_Iface
begin

text \<open>
  The HTTP adapter (\<open>http_adapter/trigger_handler.py\<close>, \<open>payloads.py\<close>) and the webhook sender
  (\<open>webhook_sender/relay_handler.py\<close>). \<open>httpx\<close> is a parameter: a POST over a state of any type
  that answers or raises. Every POST is kept with its outcome in the adapter's world.
\<close>

record http_response =
  status_code :: nat
  content :: bytes

text \<open>\<open>response.is_success\<close> and \<open>response.raise_for_status()\<close>\<close>

definition is_success :: "http_response \<Rightarrow> bool" where
  "is_success r \<longleftrightarrow> 200 \<le> status_code r \<and> status_code r \<le> 299"

definition raise_for_status :: "http_response \<Rightarrow> unit res" where
  "raise_for_status r = (if is_success r then Inr () else Inl HTTPStatusError)"

text \<open>\<open>isinstance(e, httpx.HTTPError)\<close>\<close>

definition is_http_error :: "exn \<Rightarrow> bool" where
  "is_http_error e \<longleftrightarrow> e \<in> {RequestError, HTTPStatusError}"

type_synonym headers = "(pystr, pystr) pydict"

record post =
  po_url :: pystr
  po_content :: bytes
  po_headers :: headers
  po_result :: "http_response res"

type_synonym 'h http_client = "pystr \<Rightarrow> bytes \<Rightarrow> headers \<Rightarrow> ('h, http_response) comp"

record ('c, 'h) http_world = "'c world" +
  w_http :: 'h
  w_posts :: "post list"

definition http_post :: "'h http_client \<Rightarrow> pystr \<Rightarrow> bytes \<Rightarrow> headers \<Rightarrow> (('c, 'h) http_world, http_response) comp" where
  "http_post C url body hs w = (case C url body hs (w_http w) of (r, h) \<Rightarrow>
     (r, w\<lparr>w_http := h,
          w_posts := w_posts w @ [\<lparr>po_url = url, po_content = body, po_headers = hs, po_result = r\<rparr>]\<rparr>))"

section \<open>\<open>http_adapter\<close>\<close>

definition REQUEST_COMPLETED_SUBJECT :: pystr where
  "REQUEST_COMPLETED_SUBJECT = py ''events.http.RequestCompleted''"

definition encode_request_completed :: "pystr \<Rightarrow> nat \<Rightarrow> bytes \<Rightarrow> datetime option \<Rightarrow> datetime \<Rightarrow> bytes" where
  "encode_request_completed status code body occurred_at now =
     json_bytes (JDict
       [(py ''status'', JStr status), (py ''statusCode'', JInt (int code)), (py ''body'', JStr (b64encode body)),
        (py ''occurredAt'', JStr (iso_utc (case occurred_at of Some t \<Rightarrow> t | None \<Rightarrow> now)))])"

record trigger_handler =
  th_subject :: pystr
  th_target_base_url :: pystr
  th_auth_token :: "pystr option"

definition trigger_start :: "'c bus \<Rightarrow> trigger_handler \<Rightarrow> pystr option \<Rightarrow> (('c, 'z) world_scheme, pystr) comp" where
  "trigger_start B T durable_name = b_subscribe B (th_subject T) durable_name"

definition trigger_headers :: "trigger_handler \<Rightarrow> headers" where
  "trigger_headers T = (case th_auth_token T of None \<Rightarrow> dict_empty
     | Some token \<Rightarrow> dict_set (py ''Authorization'') (py ''Bearer '' @ token) dict_empty)"

definition trigger_handle ::
  "'c bus \<Rightarrow> host \<Rightarrow> 'h http_client \<Rightarrow> trigger_handler \<Rightarrow> received_event \<Rightarrow> (('c, 'h) http_world, unit) comp" where
  "trigger_handle B H C T ev =
     try_else (\<lambda>e. e = RequestError) (http_post C (th_target_base_url T) (re_payload ev) (trigger_headers T))
       (b_nak B ev) (\<lambda>response.
     let status = (if is_success response then py ''success'' else py ''error'') in
     seq (publish_reply B H ev REQUEST_COMPLETED_SUBJECT (py ''RequestCompleted'')
            (encode_request_completed status (status_code response) (content response) None)) (\<lambda>_. b_ack B ev))"

definition trigger_run_once ::
  "'c bus \<Rightarrow> host \<Rightarrow> 'h http_client \<Rightarrow> trigger_handler \<Rightarrow> pystr \<Rightarrow> nat \<Rightarrow> (('c, 'h) http_world, nat) comp" where
  "trigger_run_once B H C T = run_once B (trigger_handle B H C T)"

section \<open>\<open>webhook_sender\<close>\<close>

record relay_handler =
  rh_subject :: pystr
  rh_target_url :: pystr
  rh_outbound_secret :: "pystr option"

definition relay_start :: "'c bus \<Rightarrow> relay_handler \<Rightarrow> pystr option \<Rightarrow> (('c, 'z) world_scheme, pystr) comp" where
  "relay_start B R durable_name = b_subscribe B (rh_subject R) durable_name"

definition relay_headers :: "relay_handler \<Rightarrow> received_event \<Rightarrow> headers" where
  "relay_headers R ev =
     (let base = dict_set (py ''X-Event-Id'') (event_id (details ev))
                   (dict_set (py ''X-Event-Type'') (event_type (details ev)) dict_empty) in
      case rh_outbound_secret R of None \<Rightarrow> base | Some s \<Rightarrow> dict_set (py ''X-Webhook-Secret'') s base)"

definition relay_post :: "'h http_client \<Rightarrow> relay_handler \<Rightarrow> received_event \<Rightarrow> (('c, 'h) http_world, unit) comp" where
  "relay_post C R ev =
     seq (http_post C (rh_target_url R) (re_payload ev) (relay_headers R ev)) (\<lambda>response.
     lift_res (raise_for_status response))"

definition relay_handle ::
  "'c bus \<Rightarrow> 'h http_client \<Rightarrow> relay_handler \<Rightarrow> received_event \<Rightarrow> (('c, 'h) http_world, unit) comp" where
  "relay_handle B C R ev = try_else is_http_error (relay_post C R ev) (b_ack B ev) (\<lambda>_. b_ack B ev)"

definition relay_run_once ::
  "'c bus \<Rightarrow> 'h http_client \<Rightarrow> relay_handler \<Rightarrow> pystr \<Rightarrow> nat \<Rightarrow> (('c, 'h) http_world, nat) comp" where
  "relay_run_once B C R = run_once B (relay_handle B C R)"

section \<open>Both meet the contract of a command handler\<close>

lemma silent_http_post [settling_intros]: "silent (http_post C url body hs)"
  by (auto simp: silent_def http_post_def split: prod.splits)

lemma silent_relay_post [settling_intros]: "silent (relay_post C R ev)"
  unfolding relay_post_def by (intro settling_intros)

interpretation trigger_cmd: command_handler "trigger_handle B H C T" for B H C T
  by (rule command_handlerI)
     (unfold trigger_handle_def Let_def, intro settling_try silent_http_post settling_nak settling_reply settling_ack)

interpretation relay_cmd: command_handler "relay_handle B C R" for B C R
  by (rule command_handlerI) (unfold relay_handle_def, intro settling_try silent_relay_post settling_ack)

section \<open>What an event leads to\<close>

lemma w_posts_bus: "bus_only m \<Longrightarrow> m w = (r, w') \<Longrightarrow> w_posts w' = w_posts w"
proof -
  assume "bus_only m" and "m w = (r, w')"
  then have "world.more w' = world.more w" by (rule bus_onlyD)
  then show ?thesis by (cases w; cases w') simp
qed

lemma http_post_outcome:
  assumes "http_post C url body hs w = (r, w')"
  shows "w_posts w' = w_posts w @ [\<lparr>po_url = url, po_content = body, po_headers = hs, po_result = r\<rparr>]
    \<and> w_calls w' = w_calls w"
  using assms by (auto simp: http_post_def split: prod.splits)

section \<open>Properties\<close>

text \<open>
  C38: the HTTP adapter makes exactly one request per event, with the event's payload and the
  token. It publishes a \<open>RequestCompleted\<close> with the status, code and body of the response
  exactly when there was one, whatever its status; an unreachable target is a negative
  acknowledgement and nothing is reported.
\<close>

theorem trigger_reports:
  "\<exists>res. w_posts (snd (trigger_handle B H C T ev w)) = w_posts w @
       [\<lparr>po_url = th_target_base_url T, po_content = re_payload ev, po_headers = trigger_headers T, po_result = res\<rparr>]
   \<and> (case res of
        Inl e \<Rightarrow> new_calls w (snd (trigger_handle B H C T ev w)) =
          (if e = RequestError then [Naked (re_msg ev) (fst (trigger_handle B H C T ev w))] else [])
      | Inr resp \<Rightarrow> \<exists>now. publishes (new_calls w (snd (trigger_handle B H C T ev w))) =
          {reply_args ev REQUEST_COMPLETED_SUBJECT ''RequestCompleted''
             (encode_request_completed (if 200 \<le> status_code resp \<and> status_code resp \<le> 299 then py ''success'' else py ''error'')
                (status_code resp) (content resp) None now)})"
proof -
  obtain r w' where run: "trigger_handle B H C T ev w = (r, w')" by fastforce
  obtain res w1 where p: "http_post C (th_target_base_url T) (re_payload ev) (trigger_headers T) w = (res, w1)" by fastforce
  note out = http_post_outcome [OF p]
  show ?thesis
  proof (cases res)
    case (Inl e)
    show ?thesis
    proof (cases "e = RequestError")
      case True
      with run p Inl have n: "b_nak B ev w1 = (r, w')" by (simp add: trigger_handle_def try_else_def)
      with run out Inl True w_posts_bus [OF bus_only_calls(2) n] b_nak_calls [OF n] show ?thesis
        by (intro exI [of _ res]) (simp add: new_calls_def)
    next
      case False
      with run p Inl have "r = Inl e" "w' = w1" by (simp_all add: trigger_handle_def try_else_def)
      with run out Inl False show ?thesis by (intro exI [of _ res]) (simp add: new_calls_def)
    qed
  next
    case (Inr resp)
    let ?s = "if is_success resp then py ''success'' else py ''error''"
    have k: "bus_only (seq (publish_reply B H ev s t q) (\<lambda>_. b_ack B ev))" for s t q by (intro bus_only_intros)
    from run p Inr have q: "seq (publish_reply B H ev REQUEST_COMPLETED_SUBJECT (py ''RequestCompleted'')
        (encode_request_completed ?s (status_code resp) (content resp) None)) (\<lambda>_. b_ack B ev) w1 = (r, w')"
      by (simp add: trigger_handle_def try_else_def Let_def)
    from reply_ack_publishes [OF q] obtain now where "publishes (new_calls w1 w') =
        {reply_args ev REQUEST_COMPLETED_SUBJECT ''RequestCompleted'' (encode_request_completed ?s (status_code resp) (content resp) None now)}"
      by blast
    with run out Inr w_posts_bus [OF k q] new_calls_same [of w1 w w'] show ?thesis
      by (intro exI [of _ res]) (auto simp: is_success_def)
  qed
qed

text \<open>
  C39: the webhook sender makes one attempt per event, publishes nothing, and acknowledges the
  event whatever the target answered or failed with; only an exception that is none of the
  HTTP library's keeps it from doing so.
\<close>

theorem relay_best_effort:
  "\<exists>res. w_posts (snd (relay_handle B C R ev w)) = w_posts w @
       [\<lparr>po_url = rh_target_url R, po_content = re_payload ev, po_headers = relay_headers R ev, po_result = res\<rparr>]
   \<and> new_calls w (snd (relay_handle B C R ev w)) =
       (case res of
          Inl e \<Rightarrow> if is_http_error e then [Acked (re_msg ev) (fst (relay_handle B C R ev w))] else []
        | Inr resp \<Rightarrow> [Acked (re_msg ev) (fst (relay_handle B C R ev w))])"
proof -
  obtain r w' where run: "relay_handle B C R ev w = (r, w')" by fastforce
  obtain res w1 where p: "http_post C (rh_target_url R) (re_payload ev) (relay_headers R ev) w = (res, w1)" by fastforce
  note out = http_post_outcome [OF p]
  have acked: "w_posts w' = w_posts w1 \<and> new_calls w w' = [Acked (re_msg ev) r]" if a: "b_ack B ev w1 = (r, w')"
    using w_posts_bus [OF bus_only_calls(1) a] b_ack_calls [OF a] out by (simp add: new_calls_def)
  show ?thesis
  proof (cases res)
    case (Inl e)
    show ?thesis
    proof (cases "is_http_error e")
      case True
      with run p Inl have "b_ack B ev w1 = (r, w')" by (simp add: relay_handle_def relay_post_def try_else_def seq_def)
      with acked run out Inl True show ?thesis by (intro exI [of _ res]) simp
    next
      case False
      with run p Inl have "w' = w1" by (simp add: relay_handle_def relay_post_def try_else_def seq_def)
      with run out Inl False show ?thesis by (intro exI [of _ res]) (simp add: new_calls_def)
    qed
  next
    case (Inr resp)
    with run p have "b_ack B ev w1 = (r, w')"
      by (cases "is_success resp") (simp_all add: relay_handle_def relay_post_def try_else_def seq_def lift_res_def
          raise_for_status_def is_http_error_def)
    with acked run out Inr show ?thesis by (intro exI [of _ res]) simp
  qed
qed

end
