(* ===== verification/Nats_Iface.thy ===== *)
theory Nats_Iface
  imports Bus_Iface
begin

text \<open>
  What \<open>jetcore\<close> calls of \<open>nats-py\<close>: JetStream publishing and pull consumers, and key-value
  buckets. The server is not part of the repository: the operations are a record over a
  server state of any type. The second part is a small server in memory, after the documented
  behaviour, on which closed instances of the theorems are evaluated.
\<close>

section \<open>The operations\<close>

datatype kv_operation = KV_PUT | KV_DEL | KV_PURGE

record kv_entry =
  ke_key :: pystr
  ke_operation :: kv_operation
  ke_value :: "bytes option"

text \<open>
  What \<open>KeyWatcher.updates\<close> gives: nothing within the timeout (it raises), the marker \<open>None\<close> at
  the end of the stored entries, an entry, or another exception.
\<close>

datatype watch_item = Idle | CaughtUp | Update kv_entry | WatchError exn

record pub_ack =
  ack_stream :: pystr
  ack_seq :: nat
  ack_duplicate :: bool

datatype ack_policy = AckExplicit
datatype deliver_policy = DeliverAll

record consumer_config =
  cc_filter_subject :: pystr
  cc_ack_policy :: ack_policy
  cc_deliver_policy :: deliver_policy
  cc_max_deliver :: nat
  cc_backoff :: "int list"

text \<open>
  \<open>kv_watch\<close> yields the items the watcher delivers until the task that started it runs again.
  \<open>js_publish\<close> takes the \<open>Nats-Msg-Id\<close> header and the time to live, if any. A subscription is
  named by a number.
\<close>

record 'n jetstream =
  nats_connect :: "pystr \<Rightarrow> pystr \<Rightarrow> ('n, unit) comp"
  js_key_value :: "pystr \<Rightarrow> ('n, unit) comp"
  kv_put :: "pystr \<Rightarrow> pystr \<Rightarrow> bytes \<Rightarrow> ('n, unit) comp"
  kv_delete :: "pystr \<Rightarrow> pystr \<Rightarrow> ('n, unit) comp"
  kv_get :: "pystr \<Rightarrow> pystr \<Rightarrow> ('n, bytes option) comp"
  kv_keys :: "pystr \<Rightarrow> pystr list \<Rightarrow> ('n, pystr list) comp"
  kv_watch :: "pystr \<Rightarrow> pystr \<Rightarrow> ('n, watch_item list) comp"
  js_publish :: "pystr \<Rightarrow> bytes \<Rightarrow> pystr option \<Rightarrow> int option \<Rightarrow> ('n, pub_ack) comp"
  js_get_msg :: "pystr \<Rightarrow> nat \<Rightarrow> ('n, bytes option) comp"
  js_pull_subscribe :: "pystr \<Rightarrow> pystr \<Rightarrow> consumer_config \<Rightarrow> ('n, nat) comp"
  sub_fetch :: "nat \<Rightarrow> nat \<Rightarrow> ('n, msg list) comp"
  m_ack :: "msg \<Rightarrow> ('n, unit) comp"
  m_nak :: "msg \<Rightarrow> int \<Rightarrow> ('n, unit) comp"
  nc_close :: "('n, unit) comp"

section \<open>A server in memory\<close>

record mem_nats =
  mem_kv :: "(pystr \<times> pystr, bytes) pydict"
  mem_log :: "(pystr \<times> pystr option \<times> bytes) list"
  mem_subs :: "(pystr \<times> nat) list"
  mem_acks :: "msg list"

definition empty_nats :: mem_nats where
  "empty_nats = \<lparr>mem_kv = [], mem_log = [], mem_subs = [], mem_acks = []\<rparr>"

fun starts_with :: "'a list \<Rightarrow> 'a list \<Rightarrow> bool" where
  "starts_with [] s = True"
| "starts_with (c # cs) [] = False"
| "starts_with (c # cs) (x # s) = (c = x \<and> starts_with cs s)"

text \<open>\<open>f in key\<close>\<close>

fun is_substring :: "'a list \<Rightarrow> 'a list \<Rightarrow> bool" where
  "is_substring f [] = (f = [])"
| "is_substring f (c # s) = (starts_with f (c # s) \<or> is_substring f s)"

text \<open>Subject matching token by token: \<open>*\<close> stands for one token.\<close>

fun tokens_match :: "pystr list \<Rightarrow> pystr list \<Rightarrow> bool" where
  "tokens_match [] [] = True"
| "tokens_match (p # ps) (t # ts) = ((p = py ''*'' \<or> p = t) \<and> tokens_match ps ts)"
| "tokens_match _ _ = False"

definition subject_matches :: "pystr \<Rightarrow> pystr \<Rightarrow> bool" where
  "subject_matches pat s = tokens_match (split_on 46 pat) (split_on 46 s)"

definition mem_keys :: "pystr \<Rightarrow> mem_nats \<Rightarrow> (pystr \<times> bytes) list" where
  "mem_keys b n = [(k, v). ((b', k), v) \<leftarrow> mem_kv n, b' = b]"

definition seq_of_id :: "pystr option \<Rightarrow> mem_nats \<Rightarrow> nat option" where
  "seq_of_id mid n = (if mid = None then None
     else (case filter (\<lambda>i. fst (snd (mem_log n ! i)) = mid) [0..<length (mem_log n)] of [] \<Rightarrow> None | i # _ \<Rightarrow> Some i))"

definition mem_append :: "pystr \<Rightarrow> bytes \<Rightarrow> pystr option \<Rightarrow> (mem_nats, pub_ack) comp" where
  "mem_append s data mid n =
     (case seq_of_id mid n of
        Some i \<Rightarrow> (Inr \<lparr>ack_stream = py ''EVENTS'', ack_seq = i, ack_duplicate = True\<rparr>, n)
      | None \<Rightarrow> (Inr \<lparr>ack_stream = py ''EVENTS'', ack_seq = length (mem_log n), ack_duplicate = False\<rparr>,
           n\<lparr>mem_log := mem_log n @ [(s, mid, data)]\<rparr>))"

definition mem_publish :: "pystr \<Rightarrow> bytes \<Rightarrow> pystr option \<Rightarrow> int option \<Rightarrow> (mem_nats, pub_ack) comp" where
  "mem_publish s data mid ttl n =
     (case split_on 46 s of
        p # b # k # ks \<Rightarrow>
          if p = py ''$KV'' then
            (Inr \<lparr>ack_stream = b, ack_seq = 0, ack_duplicate = False\<rparr>,
             n\<lparr>mem_kv := dict_set (b, join_on 46 (k # ks)) data (mem_kv n)\<rparr>)
          else mem_append s data mid n
      | _ \<Rightarrow> mem_append s data mid n)"

definition mem_fetch :: "nat \<Rightarrow> nat \<Rightarrow> (mem_nats, msg list) comp" where
  "mem_fetch h batch n =
     (if h < length (mem_subs n) then
        let (s, from) = mem_subs n ! h;
            hits = take batch [i. i \<leftarrow> [from..<length (mem_log n)], fst (mem_log n ! i) = s] in
        (case hits of
           [] \<Rightarrow> (Inl TimeoutErr, n)
         | _ \<Rightarrow> (Inr (map (\<lambda>i. \<lparr>msg_subject = s, msg_data = snd (snd (mem_log n ! i)), msg_num_delivered = 1,
                     msg_token = i\<rparr>) hits), n\<lparr>mem_subs := (mem_subs n)[h := (s, Suc (last hits))]\<rparr>))
      else (Inl (LibraryErr 1), n))"

definition mem_js :: "mem_nats jetstream" where
  "mem_js = \<lparr>
     nats_connect = (\<lambda>_ _. ret ()), js_key_value = (\<lambda>_. ret ()),
     kv_put = (\<lambda>b k v n. (Inr (), n\<lparr>mem_kv := dict_set (b, k) v (mem_kv n)\<rparr>)),
     kv_delete = (\<lambda>b k n. (Inr (), n\<lparr>mem_kv := dict_pop (b, k) (mem_kv n)\<rparr>)),
     kv_get = (\<lambda>b k n. (case dict_get (mem_kv n) (b, k) of None \<Rightarrow> (Inl KeyNotFoundError, n) | Some v \<Rightarrow> (Inr (Some v), n))),
     kv_keys = (\<lambda>b fs n. (case filter (\<lambda>k. \<exists>f \<in> set fs. is_substring f k) (map fst (mem_keys b n)) of
        [] \<Rightarrow> (Inl NoKeysError, n) | ks \<Rightarrow> (Inr ks, n))),
     kv_watch = (\<lambda>b pat n. (Inr (map (\<lambda>(k, v). Update \<lparr>ke_key = k, ke_operation = KV_PUT, ke_value = Some v\<rparr>)
        (filter (\<lambda>(k, v). subject_matches pat k) (mem_keys b n)) @ [CaughtUp]), n)),
     js_publish = mem_publish,
     js_get_msg = (\<lambda>_ i n. (if i < length (mem_log n) then (Inr (Some (snd (snd (mem_log n ! i)))), n) else (Inl (LibraryErr 2), n))),
     js_pull_subscribe = (\<lambda>s d c n. (Inr (length (mem_subs n)), n\<lparr>mem_subs := mem_subs n @ [(s, 0)]\<rparr>)),
     sub_fetch = mem_fetch,
     m_ack = (\<lambda>m n. (Inr (), n\<lparr>mem_acks := mem_acks n @ [m]\<rparr>)), m_nak = (\<lambda>_ _. ret ()), nc_close = ret ()\<rparr>"

end
