(* ===== verification/Registry.thy ===== *)
theory Registry
  imports Nats_Iface
begin

text \<open>
  \<open>jetcore/registry.py\<close>: the service directory and the identity directory in two key-value
  buckets, the one-shot lookup, and the recipient cache that a watch keeps up to date. The
  state of a cache is a record; its watch task is a step function on the items the watcher
  delivers. The cache is shown to refine a view of the bucket computed from the history of
  its entries.
\<close>

section \<open>Keys and values\<close>

definition BUCKET_NAME :: pystr where "BUCKET_NAME = py ''service-directory''"
definition IDENTITY_BUCKET_NAME :: pystr where "IDENTITY_BUCKET_NAME = py ''service-identity''"
definition IDENTITY_TTL_SECONDS :: int where "IDENTITY_TTL_SECONDS = 90 * 24 * 60 * 60"
definition LOOKUP_RETRY_ATTEMPTS :: nat where "LOOKUP_RETRY_ATTEMPTS = 3"

text \<open>\<open>isoformat()\<close> of a UTC time stamp ends with its offset.\<close>

definition isoformat :: "datetime \<Rightarrow> pystr" where
  "isoformat t = butlast (iso_utc t) @ py ''+00:00''"

definition registration_value :: "pystr \<Rightarrow> pystr \<Rightarrow> pystr \<Rightarrow> datetime \<Rightarrow> bytes" where
  "registration_value service_id adapter_type encryption_public_key now =
     json_bytes (JDict
       [(py ''serviceId'', JStr service_id), (py ''adapterType'', JStr adapter_type),
        (py ''encryptionPublicKey'', JStr encryption_public_key), (py ''registeredAt'', JStr (isoformat now))])"

definition kv_key :: "pystr \<Rightarrow> pystr \<Rightarrow> pystr" where
  "kv_key subject service_id = subject @ py ''.'' @ service_id"

definition identity_value :: "pystr \<Rightarrow> pystr \<Rightarrow> pystr \<Rightarrow> datetime \<Rightarrow> bytes" where
  "identity_value service_id adapter_type key now =
     json_bytes (JDict
       [(py ''serviceId'', JStr service_id), (py ''adapterType'', JStr adapter_type),
        (py ''signingPublicKey'', JStr key), (py ''registeredAt'', JStr (isoformat now))])"

text \<open>
  \<open>json.loads(value)[name]\<close> under \<open>except (JSONDecodeError, KeyError)\<close>: \<open>None\<close> for a malformed
  entry; every other exception goes on.
\<close>

definition entry_item :: "string \<Rightarrow> bytes \<Rightarrow> json option res" where
  "entry_item name v =
     (case rbind (json_loads v) (\<lambda>j. json_item j (py name)) of
        Inr x \<Rightarrow> Inr (Some x)
      | Inl e \<Rightarrow> if e \<in> {JSONDecodeError, KeyErr} then Inr None else Inl e)"

text \<open>\<open>str(v)\<close>; the text of floats, lists and dictionaries is the argument \<open>text_of\<close>.\<close>

fun py_str :: "(json \<Rightarrow> pystr) \<Rightarrow> json \<Rightarrow> pystr" where
  "py_str text_of (JStr s) = s"
| "py_str text_of (JInt i) = int_str i"
| "py_str text_of (JBool b) = (if b then py ''True'' else py ''False'')"
| "py_str text_of JNull = py ''None''"
| "py_str text_of j = text_of j"

section \<open>\<open>RegistryClient\<close>\<close>

definition registry_connect :: "'n jetstream \<Rightarrow> ('n, unit) comp" where
  "registry_connect J =
     seq (js_key_value J BUCKET_NAME) (\<lambda>_. seq (js_key_value J IDENTITY_BUCKET_NAME) (\<lambda>_. ret ()))"

definition register :: "'n jetstream \<Rightarrow> pystr \<Rightarrow> pystr \<Rightarrow> pystr \<Rightarrow> pystr \<Rightarrow> datetime \<Rightarrow> ('n, unit) comp" where
  "register J subject service_id adapter_type encryption_public_key now =
     kv_put J BUCKET_NAME (kv_key subject service_id)
       (registration_value service_id adapter_type encryption_public_key now)"

definition deregister :: "'n jetstream \<Rightarrow> pystr \<Rightarrow> pystr \<Rightarrow> ('n, unit) comp" where
  "deregister J subject service_id = kv_delete J BUCKET_NAME (kv_key subject service_id)"

definition register_identity :: "'n jetstream \<Rightarrow> pystr \<Rightarrow> pystr \<Rightarrow> pystr \<Rightarrow> datetime \<Rightarrow> ('n, unit) comp" where
  "register_identity J service_id adapter_type key now =
     seq (js_publish J (py ''$KV.'' @ IDENTITY_BUCKET_NAME @ py ''.'' @ service_id)
            (identity_value service_id adapter_type key now) None (Some IDENTITY_TTL_SECONDS)) (\<lambda>_. ret ())"

definition lookup_signing_key :: "'n jetstream \<Rightarrow> (json \<Rightarrow> pystr) \<Rightarrow> pystr \<Rightarrow> ('n, pystr option) comp" where
  "lookup_signing_key J text_of service_id =
     try_else (\<lambda>e. e = KeyNotFoundError) (kv_get J IDENTITY_BUCKET_NAME service_id) (ret None) (\<lambda>value.
     case value of
       None \<Rightarrow> ret None
     | Some v \<Rightarrow> lift_res (rmap (map_option (py_str text_of)) (entry_item ''signingPublicKey'' v)))"

text \<open>
  The background loop of \<open>heartbeat\<close>. An element of the list is one round: \<open>None\<close> if the task is
  cancelled in its sleep, otherwise the time of the registration. It ends only by cancellation.
\<close>

fun heartbeat_loop :: "'n jetstream \<Rightarrow> pystr \<Rightarrow> pystr \<Rightarrow> pystr \<Rightarrow> pystr \<Rightarrow> datetime option list \<Rightarrow> ('n, unit) comp" where
  "heartbeat_loop J subject sid atype pk [] n = (Inr (), n)"
| "heartbeat_loop J subject sid atype pk (None # ts) n = (Inl CancelledErr, n)"
| "heartbeat_loop J subject sid atype pk (Some t # ts) n =
     (case register J subject sid atype pk t n of
        (Inr _, n') \<Rightarrow> heartbeat_loop J subject sid atype pk ts n'
      | (Inl e, n') \<Rightarrow> if is_exception e then heartbeat_loop J subject sid atype pk ts n' else (Inl e, n'))"

text \<open>\<open>heartbeat\<close>: the first registration is awaited; then the task is created.\<close>

record heartbeat_task =
  hb_subject :: pystr
  hb_service_id :: pystr
  hb_adapter_type :: pystr
  hb_public_key :: pystr
  hb_cancelled :: bool

definition heartbeat :: "'n jetstream \<Rightarrow> pystr \<Rightarrow> pystr \<Rightarrow> pystr \<Rightarrow> pystr \<Rightarrow> datetime \<Rightarrow> ('n, heartbeat_task) comp" where
  "heartbeat J subject service_id adapter_type encryption_public_key now =
     seq (register J subject service_id adapter_type encryption_public_key now) (\<lambda>_.
     ret \<lparr>hb_subject = subject, hb_service_id = service_id, hb_adapter_type = adapter_type,
          hb_public_key = encryption_public_key, hb_cancelled = False\<rparr>)"

text \<open>\<open>lookup_recipients\<close>: attempts left; \<open>None\<close> once the last one found no keys.\<close>

fun lookup_keys :: "'n jetstream \<Rightarrow> pystr \<Rightarrow> nat \<Rightarrow> ('n, pystr list option) comp" where
  "lookup_keys J prefix 0 n = (Inr None, n)"
| "lookup_keys J prefix (Suc k) n =
     (case kv_keys J BUCKET_NAME [prefix] n of
        (Inr ks, n') \<Rightarrow> (Inr (Some ks), n')
      | (Inl e, n') \<Rightarrow> if e = NoKeysError then lookup_keys J prefix k n' else (Inl e, n'))"

fun lookup_values :: "'n jetstream \<Rightarrow> pystr list \<Rightarrow> ('n, json list) comp" where
  "lookup_values J [] n = (Inr [], n)"
| "lookup_values J (key # ks) n =
     seq (kv_get J BUCKET_NAME key) (\<lambda>value.
     seq (case value of None \<Rightarrow> ret None | Some v \<Rightarrow> lift_res (entry_item ''encryptionPublicKey'' v)) (\<lambda>x.
     seq (lookup_values J ks) (\<lambda>xs. ret (case x of None \<Rightarrow> xs | Some j \<Rightarrow> j # xs)))) n"

definition lookup_recipients :: "'n jetstream \<Rightarrow> pystr \<Rightarrow> ('n, json list) comp" where
  "lookup_recipients J subject =
     seq (lookup_keys J (subject @ py ''.'') LOOKUP_RETRY_ATTEMPTS) (\<lambda>keys.
     case keys of None \<Rightarrow> ret [] | Some ks \<Rightarrow> lookup_values J ks)"

section \<open>\<open>RecipientCache\<close>\<close>

datatype watch_task = NotStarted | Running | Failed exn | Stopped

record recipient_cache =
  rc_subject :: pystr
  rc_entries :: "(pystr, json) pydict"
  rc_ready :: bool
  rc_task :: watch_task

definition new_cache :: "pystr \<Rightarrow> recipient_cache" where
  "new_cache subject = \<lparr>rc_subject = subject, rc_entries = dict_empty, rc_ready = False, rc_task = NotStarted\<rparr>"

text \<open>One turn of \<open>_consume\<close>. An exception ends the task and with it every later turn.\<close>

definition consume_entry :: "kv_entry \<Rightarrow> recipient_cache \<Rightarrow> recipient_cache" where
  "consume_entry e c =
     (if ke_operation e \<in> {KV_DEL, KV_PURGE} then c\<lparr>rc_entries := dict_pop (ke_key e) (rc_entries c)\<rparr>
      else (case ke_value e of
          None \<Rightarrow> c\<lparr>rc_task := Failed TypeErr\<rparr>
        | Some v \<Rightarrow> (case entry_item ''encryptionPublicKey'' v of
              Inr (Some x) \<Rightarrow> c\<lparr>rc_entries := dict_set (ke_key e) x (rc_entries c)\<rparr>
            | Inr None \<Rightarrow> c
            | Inl x \<Rightarrow> c\<lparr>rc_task := Failed x\<rparr>)))"

fun consume :: "watch_item \<Rightarrow> recipient_cache \<Rightarrow> recipient_cache" where
  "consume Idle c = c"
| "consume CaughtUp c = (if rc_task c = Running then c\<lparr>rc_ready := True\<rparr> else c)"
| "consume (Update e) c = (if rc_task c = Running then consume_entry e c else c)"
| "consume (WatchError x) c = (if rc_task c = Running then c\<lparr>rc_task := Failed x\<rparr> else c)"

definition cache_start :: "'n jetstream \<Rightarrow> recipient_cache \<Rightarrow> ('n, recipient_cache) comp" where
  "cache_start J c =
     seq (kv_watch J BUCKET_NAME (rc_subject c @ py ''.*'')) (\<lambda>items.
     let c' = fold consume items (c\<lparr>rc_task := Running\<rparr>) in
     if rc_ready c' then ret c' else raise Blocked)"

definition watch :: "'n jetstream \<Rightarrow> pystr \<Rightarrow> ('n, recipient_cache) comp" where
  "watch J subject = cache_start J (new_cache subject)"

definition current :: "recipient_cache \<Rightarrow> json list" where
  "current c = dict_values (rc_entries c)"

text \<open>\<open>stop\<close>: awaiting a task that has failed raises its exception again.\<close>

definition cache_stop :: "recipient_cache \<Rightarrow> unit res \<times> recipient_cache" where
  "cache_stop c = (case rc_task c of
     NotStarted \<Rightarrow> (Inr (), c)
   | Running \<Rightarrow> (Inr (), c\<lparr>rc_task := Stopped\<rparr>)
   | Stopped \<Rightarrow> (Inr (), c)
   | Failed e \<Rightarrow> if e = CancelledErr then (Inr (), c\<lparr>rc_task := Stopped\<rparr>) else (Inl e, c))"

section \<open>The view of a bucket\<close>

text \<open>
  The specification: what a history of entries, newest first, says about a key. An entry of
  another key changes nothing, a deletion or purge removes, a readable value replaces, and a
  malformed one is skipped.
\<close>

definition entry_key :: "kv_entry \<Rightarrow> json option" where
  "entry_key e = (case ke_value e of None \<Rightarrow> None
     | Some v \<Rightarrow> (case entry_item ''encryptionPublicKey'' v of Inr x \<Rightarrow> x | Inl _ \<Rightarrow> None))"

definition entry_effect :: "kv_entry \<Rightarrow> json option \<Rightarrow> json option" where
  "entry_effect e old = (if ke_operation e \<in> {KV_DEL, KV_PURGE} then None
     else case entry_key e of None \<Rightarrow> old | Some x \<Rightarrow> Some x)"

primrec bucket_view :: "kv_entry list \<Rightarrow> pystr \<Rightarrow> json option" where
  "bucket_view [] k = None"
| "bucket_view (e # h) k = (if ke_key e = k then entry_effect e (bucket_view h k) else bucket_view h k)"

text \<open>The entries that end no watch: deletions, and values that are JSON objects or no JSON.\<close>

definition harmless :: "kv_entry \<Rightarrow> bool" where
  "harmless e \<longleftrightarrow> ke_operation e \<in> {KV_DEL, KV_PURGE} \<or>
     (\<exists>v x. ke_value e = Some v \<and> entry_item ''encryptionPublicKey'' v = Inr x)"

text \<open>The contract of a live view, and what follows for a whole history.\<close>

locale live_view =
  fixes upd :: "kv_entry \<Rightarrow> 's \<Rightarrow> 's" and look :: "'s \<Rightarrow> pystr \<Rightarrow> json option" and ok :: "'s \<Rightarrow> bool"
  assumes upd_ok: "ok s \<Longrightarrow> harmless e \<Longrightarrow> ok (upd e s)"
    and look_upd: "ok s \<Longrightarrow> harmless e \<Longrightarrow>
      look (upd e s) k = (if ke_key e = k then entry_effect e (look s k) else look s k)"
begin

lemma history:
  "ok s \<Longrightarrow> look s = bucket_view h \<Longrightarrow> \<forall>e \<in> set es. harmless e \<Longrightarrow>
   ok (fold upd es s) \<and> look (fold upd es s) = bucket_view (rev es @ h)"
proof (induction es arbitrary: s h)
  case (Cons e es)
  then have "look (upd e s) = bucket_view (e # h)" using look_upd [of s e] by (intro ext) simp
  with Cons.IH [of "upd e s" "e # h"] upd_ok [of s e] Cons.prems show ?case by simp
qed simp

lemma purged: "ok s \<Longrightarrow> ke_operation e \<in> {KV_DEL, KV_PURGE} \<Longrightarrow> look (upd e s) (ke_key e) = None"
  by (subst look_upd) (auto simp: harmless_def entry_effect_def)

end

definition cache_ok :: "recipient_cache \<Rightarrow> bool" where
  "cache_ok c \<longleftrightarrow> rc_task c = Running \<and> dict_ok (rc_entries c)"

lemma consume_entry_ok: "cache_ok c \<Longrightarrow> harmless e \<Longrightarrow> cache_ok (consume_entry e c)"
  by (auto simp: cache_ok_def consume_entry_def harmless_def split: option.splits)

lemma consume_entry_get:
  "harmless e \<Longrightarrow> dict_get (rc_entries (consume_entry e c)) k =
     (if ke_key e = k then entry_effect e (dict_get (rc_entries c) k) else dict_get (rc_entries c) k)"
  by (auto simp: consume_entry_def harmless_def entry_effect_def entry_key_def dict_simps split: option.splits)

lemma consume_running: "rc_task c = Running \<Longrightarrow> consume (Update e) c = consume_entry e c"
  by simp

interpretation recipient_view: live_view "\<lambda>e. consume (Update e)" "\<lambda>c. dict_get (rc_entries c)" cache_ok
proof
  fix c e assume c: "cache_ok c" and e: "harmless e"
  then have r: "consume (Update e) c = consume_entry e c" by (intro consume_running) (simp add: cache_ok_def)
  show "cache_ok (consume (Update e) c)" unfolding r using c e by (rule consume_entry_ok)
  show "dict_get (rc_entries (consume (Update e) c)) k =
      (if ke_key e = k then entry_effect e (dict_get (rc_entries c) k) else dict_get (rc_entries c) k)" for k
    unfolding r using e by (rule consume_entry_get)
qed

text \<open>The updates among the items of a watch, and the items that end it.\<close>

fun updates :: "watch_item list \<Rightarrow> kv_entry list" where
  "updates [] = []"
| "updates (Update e # is) = e # updates is"
| "updates (_ # is) = updates is"

fun item_harmless :: "watch_item \<Rightarrow> bool" where
  "item_harmless (Update e) = harmless e"
| "item_harmless (WatchError x) = False"
| "item_harmless _ = True"

lemma consume_ready: "rc_ready (consume i c) \<longleftrightarrow> rc_ready c \<or> i = CaughtUp \<and> rc_task c = Running"
  by (cases i) (auto simp: consume_entry_def split: option.splits sum.splits)

lemma fold_consume:
  "cache_ok c \<Longrightarrow> dict_get (rc_entries c) = bucket_view h \<Longrightarrow> \<forall>i \<in> set its. item_harmless i \<Longrightarrow>
   cache_ok (fold consume its c)
   \<and> dict_get (rc_entries (fold consume its c)) = bucket_view (rev (updates its) @ h)
   \<and> (rc_ready (fold consume its c) \<longleftrightarrow> rc_ready c \<or> CaughtUp \<in> set its)"
proof (induction its arbitrary: c h)
  case (Cons i its)
  have run: "rc_task c = Running" using Cons.prems(1) by (simp add: cache_ok_def)
  show ?case
  proof (cases i)
    case (Update e)
    with Cons.prems have "\<forall>e \<in> set [e]. harmless e" by simp
    from recipient_view.history [OF Cons.prems(1,2) this] have
      s: "cache_ok (consume i c)" "dict_get (rc_entries (consume i c)) = bucket_view (e # h)" using Update by simp_all
    from Cons.IH [OF s] Cons.prems(3) Update consume_ready [of i c] show ?thesis by auto
  next
    case CaughtUp
    with Cons.prems run have "cache_ok (consume i c)" "dict_get (rc_entries (consume i c)) = bucket_view h"
      by (simp_all add: cache_ok_def)
    from Cons.IH [OF this] Cons.prems(3) CaughtUp run show ?thesis by auto
  qed (use Cons in auto)
qed simp

lemma consume_dead: "rc_task c \<noteq> Running \<Longrightarrow> fold consume its c = c"
proof (induction its)
  case (Cons i its)
  then show ?case by (cases i) simp_all
qed simp

lemma consume_harmful: "\<not> item_harmless i \<Longrightarrow> rc_task c = Running \<Longrightarrow> \<exists>x. rc_task (consume i c) = Failed x"
  by (cases i) (auto simp: harmless_def consume_entry_def split: option.splits sum.splits)

lemma fresh_cache_ok:
  "cache_ok ((new_cache s)\<lparr>rc_task := Running\<rparr>)"
  "dict_get (rc_entries ((new_cache s)\<lparr>rc_task := Running\<rparr>)) = bucket_view []"
  by (simp_all add: cache_ok_def new_cache_def fun_eq_iff)

lemma current_view:
  assumes "cache_ok c" shows "set (current c) = ran (dict_get (rc_entries c))"
    and "length (current c) = card (dom (dict_get (rc_entries c)))"
proof -
  have d: "dict_ok (rc_entries c)" using assms by (simp add: cache_ok_def)
  then show "set (current c) = ran (dict_get (rc_entries c))" by (simp add: current_def dict_values_set)
  have "dom (dict_get (rc_entries c)) = set (map fst (rc_entries c))"
    by (simp add: dict_get_def [abs_def] dom_map_of_conv_image_fst)
  moreover have "card (set (map fst (rc_entries c))) = length (map fst (rc_entries c))"
    using d by (intro distinct_card) (simp add: dict_ok_def)
  ultimately show "length (current c) = card (dom (dict_get (rc_entries c)))"
    by (simp add: current_def dict_values_def)
qed

section \<open>When a watch ends\<close>

text \<open>Whether the first item that is a marker or harmful is the marker.\<close>

fun caught_up_first :: "watch_item list \<Rightarrow> bool" where
  "caught_up_first [] = False"
| "caught_up_first (i # its) = (i = CaughtUp \<or> item_harmless i \<and> caught_up_first its)"

lemma ready_stays: "rc_ready c \<Longrightarrow> rc_ready (fold consume its c)"
proof (induction its arbitrary: c)
  case (Cons i its)
  then show ?case using consume_ready [of i c] by simp
qed simp

lemma ready_iff:
  "cache_ok c \<Longrightarrow> rc_ready (fold consume its c) \<longleftrightarrow> rc_ready c \<or> caught_up_first its"
proof (induction its arbitrary: c)
  case (Cons i its)
  have run: "rc_task c = Running" using Cons.prems by (simp add: cache_ok_def)
  show ?case
  proof (cases "item_harmless i")
    case True
    have "cache_ok (consume i c)"
      using True Cons.prems run consume_entry_ok by (cases i) (auto simp: cache_ok_def)
    from Cons.IH [OF this] True consume_ready [of i c] run show ?thesis by auto
  next
    case False
    from consume_harmful [OF this run] obtain x where "rc_task (consume i c) = Failed x" ..
    with consume_dead [of "consume i c" its] consume_ready [of i c] False show ?thesis by auto
  qed
qed simp

section \<open>Entries the registry writes\<close>

lemma scalar_isoformat [simp]: "scalar_str (isoformat t)"
proof -
  have "plain_ascii (butlast (iso_utc t))"
    using plain_ascii_iso_utc [of t] by (auto simp: plain_ascii_def dest: in_set_butlastD)
  then have "scalar_str (butlast (iso_utc t))" by (rule plain_ascii_scalar)
  then show ?thesis by (auto simp: isoformat_def scalar_str_def) (auto simp: py_def is_surrogate_def code_point_def)
qed

lemma identity_item:
  "scalar_str sid \<Longrightarrow> scalar_str at \<Longrightarrow> scalar_str key \<Longrightarrow>
   entry_item ''signingPublicKey'' (identity_value sid at key now) = Inr (Some (JStr key))"
  by (simp add: entry_item_def identity_value_def json.dec_enc)

lemma registration_item:
  "scalar_str sid \<Longrightarrow> scalar_str at \<Longrightarrow> scalar_str key \<Longrightarrow>
   entry_item ''encryptionPublicKey'' (registration_value sid at key now) = Inr (Some (JStr key))"
  by (simp add: entry_item_def registration_value_def json.dec_enc)

section \<open>Properties\<close>

text \<open>
  C9: the recipient cache refines the bucket: as long as no entry ends the watch, the cached
  keys are exactly the view of the bucket's history, one per key with a live readable entry,
  deletions and expiries included, and the cache is ready once the stored entries are loaded.
\<close>

theorem cache_refines_bucket:
  assumes "\<forall>i \<in> set its. item_harmless i"
  shows "let c = fold consume its ((new_cache subject)\<lparr>rc_task := Running\<rparr>) in
    set (current c) = ran (bucket_view (rev (updates its)))
    \<and> length (current c) = card (dom (bucket_view (rev (updates its))))
    \<and> rc_task c = Running \<and> (rc_ready c \<longleftrightarrow> CaughtUp \<in> set its)"
proof -
  let ?c = "fold consume its ((new_cache subject)\<lparr>rc_task := Running\<rparr>)"
  from fold_consume [OF fresh_cache_ok assms] have "cache_ok ?c"
    "dict_get (rc_entries ?c) = bucket_view (rev (updates its))" "rc_ready ?c \<longleftrightarrow> CaughtUp \<in> set its"
    by (simp_all add: new_cache_def)
  with current_view [of ?c] show ?thesis by (simp add: cache_ok_def)
qed

definition demo_put :: "string \<Rightarrow> string \<Rightarrow> kv_entry" where
  "demo_put k v = \<lparr>ke_key = py k, ke_operation = KV_PUT, ke_value = Some (registration_value (py k) [] (py v) 0)\<rparr>"

definition demo_purge :: "string \<Rightarrow> kv_entry" where
  "demo_purge k = \<lparr>ke_key = py k, ke_operation = KV_PURGE, ke_value = None\<rparr>"

lemma demo_put_simps:
  "harmless (demo_put k v)" "entry_key (demo_put k v) = Some (JStr (py v))"
  by (auto simp: harmless_def entry_key_def demo_put_def registration_item)

theorem cache_refines_bucket_witness:
  "set (current (fold consume [Update (demo_put ''s.a'' ''k1''), Update (demo_put ''s.b'' ''k2''), CaughtUp, Idle,
       Update (demo_put ''s.a'' ''k3''), Update (demo_purge ''s.b'')] ((new_cache (py ''s''))\<lparr>rc_task := Running\<rparr>)))
   = {JStr (py ''k3'')}"
proof -
  let ?its = "[Update (demo_put ''s.a'' ''k1''), Update (demo_put ''s.b'' ''k2''), CaughtUp, Idle,
       Update (demo_put ''s.a'' ''k3''), Update (demo_purge ''s.b'')]"
  have h: "\<forall>i \<in> set ?its. item_harmless i" by (simp add: demo_put_simps) (simp add: harmless_def demo_purge_def)
  have "bucket_view (rev (updates ?its)) = [py ''s.a'' \<mapsto> JStr (py ''k3'')]"
    by (rule ext) (simp add: entry_effect_def demo_put_simps, auto simp: demo_put_def demo_purge_def)
  then have "ran (bucket_view (rev (updates ?its))) = {JStr (py ''k3'')}" by simp
  with cache_refines_bucket [OF h, of "py ''s''"] show ?thesis unfolding Let_def by argo
qed

text \<open>
  C31: starting a watch returns exactly when the marker of the stored entries arrives before
  any entry or error that ends the watch; otherwise the caller waits for ever.
\<close>

theorem watch_returns_iff:
  assumes "kv_watch J BUCKET_NAME (subject @ py ''.*'') n = (Inr its, n')"
  shows "fst (watch J subject n) = (if caught_up_first its
     then Inr (fold consume its ((new_cache subject)\<lparr>rc_task := Running\<rparr>)) else Inl Blocked)"
  using assms ready_iff [OF fresh_cache_ok(1), of its subject]
  by (simp add: watch_def cache_start_def new_cache_def seq_def Let_def ret_def raise_def)

theorem watch_returns_iff_witness:
  "fst (watch mem_js (py ''s'') empty_nats) = Inr ((new_cache (py ''s''))\<lparr>rc_task := Running, rc_ready := True\<rparr>)"
proof -
  have w: "kv_watch mem_js BUCKET_NAME (py ''s'' @ py ''.*'') empty_nats = (Inr [CaughtUp], empty_nats)"
    by (simp add: mem_js_def empty_nats_def mem_keys_def)
  show ?thesis by (subst watch_returns_iff [OF w]) simp
qed

text \<open>
  C32: a stored value that is JSON but no object ends the watch: the cache keeps what it had,
  no later entry, expiry or registration changes it again, and stopping the cache raises.
\<close>

theorem non_object_entry_ends_watch:
  assumes "cache_ok c" and "ke_operation e = KV_PUT" and "ke_value e = Some v"
    and "json_loads v = Inr j" and "\<nexists>ps. j = JDict ps"
  shows "fold consume (Update e # its) c = c\<lparr>rc_task := Failed TypeErr\<rparr>
    \<and> current (fold consume (Update e # its) c) = current c
    \<and> fst (cache_stop (fold consume (Update e # its) c)) = Inl TypeErr"
proof -
  have "entry_item ''encryptionPublicKey'' v = Inl TypeErr"
    using assms(4,5) by (cases j) (auto simp: entry_item_def)
  then have "consume (Update e) c = c\<lparr>rc_task := Failed TypeErr\<rparr>"
    using assms by (simp add: cache_ok_def consume_entry_def)
  then have "fold consume (Update e # its) c = c\<lparr>rc_task := Failed TypeErr\<rparr>"
    using consume_dead [of "c\<lparr>rc_task := Failed TypeErr\<rparr>" its] by simp
  then show ?thesis by (simp add: current_def cache_stop_def)
qed

theorem non_object_entry_ends_watch_witness:
  "current (fold consume [Update \<lparr>ke_key = py ''s.b'', ke_operation = KV_PUT, ke_value = Some (json_bytes (JInt 5))\<rparr>,
       Update (demo_purge ''s.a'')] \<lparr>rc_subject = py ''s'', rc_entries = [(py ''s.a'', JStr (py ''old''))],
       rc_ready = True, rc_task = Running\<rparr>) = [JStr (py ''old'')]"
proof -
  let ?c = "\<lparr>rc_subject = py ''s'', rc_entries = [(py ''s.a'', JStr (py ''old''))], rc_ready = True, rc_task = Running\<rparr>"
  have "cache_ok ?c" by (simp add: cache_ok_def dict_ok_def)
  moreover have "json_loads (json_bytes (JInt 5)) = Inr (JInt 5)" by (rule json.dec_enc) (rule json_ok_JInt, simp)
  ultimately show ?thesis
    using non_object_entry_ends_watch [of ?c "\<lparr>ke_key = py ''s.b'', ke_operation = KV_PUT, ke_value = Some (json_bytes (JInt 5))\<rparr>"
        "json_bytes (JInt 5)" "JInt 5" "[Update (demo_purge ''s.a'')]"] by (simp add: current_def dict_values_def)
qed

text \<open>
  C33: what a service registers as its identity is what every recipient looks up: the stored
  value yields the registered signing key, character for character.
\<close>

theorem identity_roundtrip:
  assumes "scalar_str sid" and "scalar_str at" and "scalar_str key"
    and "kv_get J IDENTITY_BUCKET_NAME sid n = (Inr (Some (identity_value sid at key now)), n')"
  shows "lookup_signing_key J text_of sid n = (Inr (Some key), n')"
  using identity_item [OF assms(1-3), of now] assms(4)
  by (simp add: lookup_signing_key_def try_else_def lift_res_def)

theorem identity_roundtrip_witness:
  "fst (lookup_signing_key mem_js (\<lambda>_. []) (py ''svc'')
     \<lparr>mem_kv = [((IDENTITY_BUCKET_NAME, py ''svc''), identity_value (py ''svc'') (py ''t'') (py ''UKEY'') 0)],
      mem_log = [], mem_subs = [], mem_acks = []\<rparr>) = Inr (Some (py ''UKEY''))"
  by (subst identity_roundtrip) (auto simp: mem_js_def dict_get_def)

text \<open>
  The heartbeat does not die of failed registrations: whatever exceptions the server
  raises, every round registers again with its own time, until the task is cancelled.
\<close>

lemma heartbeat_survives:
  assumes "\<And>k v n e. fst (kv_put J BUCKET_NAME k v n) = Inl e \<Longrightarrow> is_exception e"
  shows "heartbeat_loop J subject sid at pk (map Some ts @ None # rest) n =
     (Inl CancelledErr, fold (\<lambda>t n. snd (register J subject sid at pk t n)) ts n)"
proof (induction ts arbitrary: n)
  case (Cons t ts)
  obtain r n1 where r: "register J subject sid at pk t n = (r, n1)" by fastforce
  with assms have "r = Inl e \<Longrightarrow> is_exception e" for e by (simp add: register_def) (metis fst_conv)
  with Cons r show ?case by (cases r) simp_all
qed simp

lemma heartbeat_survives_witness:
  "fst (heartbeat_loop (mem_js\<lparr>kv_put := \<lambda>_ _ _. raise ConnectionErr\<rparr>) [] [] [] [] [Some 1, Some 2, None] empty_nats)
   = Inl CancelledErr"
  using heartbeat_survives [of "mem_js\<lparr>kv_put := \<lambda>_ _ _. raise ConnectionErr\<rparr>" "[]" "[]" "[]" "[]" "[1, 2]" "[]" empty_nats]
  by (simp add: raise_def is_exception_def)

text \<open>
  The one-shot lookup reads more than it is asked for: its filter is a substring, so the
  recipients of a longer subject are returned for its prefix, which the watch does not see.
\<close>

lemma lookup_finds_longer_subjects:
  "let n = snd (register mem_js (py ''events.files.Foo.Bar'') (py ''svc'') (py ''t'') (py ''age1'') 0 empty_nats) in
   fst (lookup_recipients mem_js (py ''events.files.Foo'') n) = Inr [JStr (py ''age1'')]
   \<and> rmap current (fst (watch mem_js (py ''events.files.Foo'') n)) = Inr []"
proof -
  let ?k = "py ''events.files.Foo.Bar.svc''"
  let ?v = "registration_value (py ''svc'') (py ''t'') (py ''age1'') 0"
  let ?n = "empty_nats\<lparr>mem_kv := [((BUCKET_NAME, ?k), ?v)]\<rparr>"
  have k: "py ''events.files.Foo.Bar'' @ py ''.'' @ py ''svc'' = ?k" by (simp add: py_def)
  have n: "snd (register mem_js (py ''events.files.Foo.Bar'') (py ''svc'') (py ''t'') (py ''age1'') 0 empty_nats) = ?n"
    by (simp add: register_def mem_js_def empty_nats_def kv_key_def k dict_set_def)
  have sub: "is_substring (py ''events.files.Foo'' @ py ''.'') ?k" "\<not> subject_matches (py ''events.files.Foo'' @ py ''.*'') ?k"
    by (simp add: py_def, simp add: py_def subject_matches_def)
  have item: "entry_item ''encryptionPublicKey'' ?v = Inr (Some (JStr (py ''age1'')))" by (rule registration_item) simp_all
  have "fst (lookup_recipients mem_js (py ''events.files.Foo'') ?n) = Inr [JStr (py ''age1'')]"
    using sub(1) item
    by (simp add: lookup_recipients_def LOOKUP_RETRY_ATTEMPTS_def numeral_3_eq_3 seq_def mem_js_def mem_keys_def
        empty_nats_def dict_get_def lift_res_def ret_def)
  moreover have "rmap current (fst (watch mem_js (py ''events.files.Foo'') ?n)) = Inr []"
    using sub(2)
    by (simp add: watch_def cache_start_def new_cache_def seq_def mem_js_def mem_keys_def empty_nats_def ret_def
        Let_def current_def dict_values_def dict_empty_def)
  ultimately show ?thesis unfolding n Let_def ..
qed

end
