(* ===== verification/Config.thy ===== *)
theory Config
  imports Envelope
begin

text \<open>
  Configuration: \<open>jetcore/config.py\<close> (the settings every adapter loads and the parser of the
  subject list) and the settings each adapter adds to them. \<open>pydantic-settings\<close> is not part of
  the repository: the environment is a lookup of raw strings (merged from variables and
  \<open>.env\<close>), files a predicate, and the number parsers arguments.
\<close>

section \<open>\<open>str.strip()\<close>\<close>

definition is_space :: "nat \<Rightarrow> bool" where
  "is_space c \<longleftrightarrow> 9 \<le> c \<and> c \<le> 13 \<or> 28 \<le> c \<and> c \<le> 32 \<or> c = 0x85 \<or> c = 0xA0 \<or> c = 0x1680
     \<or> 0x2000 \<le> c \<and> c \<le> 0x200A \<or> c = 0x2028 \<or> c = 0x2029 \<or> c = 0x202F \<or> c = 0x205F \<or> c = 0x3000"

definition py_strip :: "pystr \<Rightarrow> pystr" where
  "py_strip s = strip_by is_space s"

section \<open>\<open>AdapterSettings\<close>\<close>

datatype log_level = DEBUG | INFO | WARNING | ERROR | CRITICAL

record adapter_settings =
  cfg_service_id :: pystr
  cfg_nats_url :: pystr
  cfg_nats_creds_path :: pystr
  cfg_subjects :: "pystr list"
  cfg_log_level :: log_level

text \<open>\<open>_parse_subjects\<close>: the value may be a string or, from Python, already a list.\<close>

fun parse_subjects :: "json \<Rightarrow> json res" where
  "parse_subjects (JStr v) =
     (let stripped = py_strip v in
      if stripped = [] then Inr (JList [])
      else if hd stripped = of_char (CHR ''['') then json_loads_str stripped
      else Inr (JList (map JStr (filter (\<lambda>s. s \<noteq> []) (map py_strip (split_on 44 stripped))))))"
| "parse_subjects v = Inr v"

definition parse_log_level :: "pystr \<Rightarrow> log_level res" where
  "parse_log_level s =
     (if s = py ''DEBUG'' then Inr DEBUG else if s = py ''INFO'' then Inr INFO
      else if s = py ''WARNING'' then Inr WARNING else if s = py ''ERROR'' then Inr ERROR
      else if s = py ''CRITICAL'' then Inr CRITICAL else Inl ValidationError)"

definition env_required :: "(pystr \<Rightarrow> pystr option) \<Rightarrow> string \<Rightarrow> pystr res" where
  "env_required env name = (case env (py ''JETCORE_'' @ py name) of None \<Rightarrow> Inl ValidationError | Some v \<Rightarrow> Inr v)"

definition env_default :: "(pystr \<Rightarrow> pystr option) \<Rightarrow> string \<Rightarrow> (pystr \<Rightarrow> 'a res) \<Rightarrow> 'a \<Rightarrow> 'a res" where
  "env_default env name parse dflt = (case env (py ''JETCORE_'' @ py name) of None \<Rightarrow> Inr dflt | Some v \<Rightarrow> parse v)"

definition load_adapter_settings :: "(pystr \<Rightarrow> bool) \<Rightarrow> (pystr \<Rightarrow> pystr option) \<Rightarrow> adapter_settings res" where
  "load_adapter_settings is_file env =
     rbind (env_required env ''SERVICE_ID'') (\<lambda>sid.
     rbind (env_default env ''NATS_URL'' Inr (py ''nats://nats:4222'')) (\<lambda>url.
     rbind (env_required env ''NATS_CREDS_PATH'') (\<lambda>creds.
     rbind (if is_file creds then Inr () else Inl ValidationError) (\<lambda>_.
     rbind (env_default env ''SUBJECTS''
              (\<lambda>v. rbind (catch_as is_value_error ValidationError (parse_subjects (JStr v))) (\<lambda>j. as_str_list (Some j))) []) (\<lambda>subs.
     rbind (env_default env ''LOG_LEVEL'' parse_log_level INFO) (\<lambda>level.
     Inr \<lparr>cfg_service_id = sid, cfg_nats_url = url, cfg_nats_creds_path = creds,
          cfg_subjects = subs, cfg_log_level = level\<rparr>))))))"

section \<open>The adapters' own settings\<close>

record file_storage_settings = adapter_settings +
  cfg_watch_dir :: pystr

record db_adapter_settings = adapter_settings +
  cfg_mysql_host :: pystr
  cfg_mysql_port :: int
  cfg_mysql_database :: pystr
  cfg_mysql_write_user :: pystr
  cfg_mysql_write_password :: pystr
  cfg_mysql_cdc_user :: pystr
  cfg_mysql_cdc_password :: pystr

record http_adapter_settings = adapter_settings +
  cfg_target_base_url :: pystr
  cfg_auth_token :: "pystr option"

record webhook_sender_settings = adapter_settings +
  cfg_target_url :: pystr
  cfg_outbound_secret :: "pystr option"

record webhook_listener_settings = adapter_settings +
  cfg_webhook_secret :: pystr
  cfg_listener_port :: int

text \<open>Durations are integers in microseconds.\<close>

record rest_api_settings = adapter_settings +
  cfg_rest_port :: int
  cfg_default_reply_timeout :: int

definition optional_str :: "(pystr \<Rightarrow> pystr option) \<Rightarrow> string \<Rightarrow> pystr option res" where
  "optional_str env name = env_default env name (\<lambda>v. Inr (Some v)) None"

definition load_file_storage_settings ::
  "(pystr \<Rightarrow> bool) \<Rightarrow> (pystr \<Rightarrow> bool) \<Rightarrow> (pystr \<Rightarrow> pystr option) \<Rightarrow> file_storage_settings res" where
  "load_file_storage_settings is_file is_dir env =
     rbind (load_adapter_settings is_file env) (\<lambda>base.
     rbind (env_required env ''WATCH_DIR'') (\<lambda>d.
     if is_dir d then Inr (adapter_settings.extend base \<lparr>cfg_watch_dir = d\<rparr>)
     else Inl ValidationError))"

definition load_db_adapter_settings ::
  "(pystr \<Rightarrow> bool) \<Rightarrow> (pystr \<Rightarrow> int res) \<Rightarrow> (pystr \<Rightarrow> pystr option) \<Rightarrow> db_adapter_settings res" where
  "load_db_adapter_settings is_file parse_int env =
     rbind (load_adapter_settings is_file env) (\<lambda>base.
     rbind (env_default env ''MYSQL_HOST'' Inr (py ''mysql'')) (\<lambda>host.
     rbind (env_default env ''MYSQL_PORT'' parse_int 3306) (\<lambda>port.
     rbind (env_default env ''MYSQL_DATABASE'' Inr (py ''jetcore'')) (\<lambda>db.
     rbind (env_required env ''MYSQL_WRITE_USER'') (\<lambda>wu.
     rbind (env_required env ''MYSQL_WRITE_PASSWORD'') (\<lambda>wp.
     rbind (env_required env ''MYSQL_CDC_USER'') (\<lambda>cu.
     rbind (env_required env ''MYSQL_CDC_PASSWORD'') (\<lambda>cp.
     Inr (adapter_settings.extend base (db_adapter_settings.fields host port db wu wp cu cp))))))))))"

definition load_http_adapter_settings ::
  "(pystr \<Rightarrow> bool) \<Rightarrow> (pystr \<Rightarrow> pystr option) \<Rightarrow> http_adapter_settings res" where
  "load_http_adapter_settings is_file env =
     rbind (load_adapter_settings is_file env) (\<lambda>base.
     rbind (env_required env ''TARGET_BASE_URL'') (\<lambda>url.
     rbind (optional_str env ''AUTH_TOKEN'') (\<lambda>tok.
     Inr (adapter_settings.extend base (http_adapter_settings.fields url tok)))))"

definition load_webhook_sender_settings ::
  "(pystr \<Rightarrow> bool) \<Rightarrow> (pystr \<Rightarrow> pystr option) \<Rightarrow> webhook_sender_settings res" where
  "load_webhook_sender_settings is_file env =
     rbind (load_adapter_settings is_file env) (\<lambda>base.
     rbind (env_required env ''TARGET_URL'') (\<lambda>url.
     rbind (optional_str env ''OUTBOUND_SECRET'') (\<lambda>sec.
     Inr (adapter_settings.extend base (webhook_sender_settings.fields url sec)))))"

definition load_webhook_listener_settings ::
  "(pystr \<Rightarrow> bool) \<Rightarrow> (pystr \<Rightarrow> int res) \<Rightarrow> (pystr \<Rightarrow> pystr option) \<Rightarrow> webhook_listener_settings res" where
  "load_webhook_listener_settings is_file parse_int env =
     rbind (load_adapter_settings is_file env) (\<lambda>base.
     rbind (env_required env ''WEBHOOK_SECRET'') (\<lambda>sec.
     rbind (env_default env ''HTTP_PORT'' parse_int 8080) (\<lambda>port.
     Inr (adapter_settings.extend base (webhook_listener_settings.fields sec port)))))"

definition load_rest_api_settings ::
  "(pystr \<Rightarrow> bool) \<Rightarrow> (pystr \<Rightarrow> int res) \<Rightarrow> (pystr \<Rightarrow> int res) \<Rightarrow> (pystr \<Rightarrow> pystr option) \<Rightarrow> rest_api_settings res" where
  "load_rest_api_settings is_file parse_int parse_seconds env =
     rbind (load_adapter_settings is_file env) (\<lambda>base.
     rbind (env_default env ''HTTP_PORT'' parse_int 8080) (\<lambda>port.
     rbind (env_default env ''DEFAULT_REPLY_TIMEOUT_SECONDS'' parse_seconds 30000000) (\<lambda>t.
     Inr (adapter_settings.extend base (rest_api_settings.fields port t)))))"

section \<open>The subject list\<close>

definition clean_subject :: "pystr \<Rightarrow> bool" where
  "clean_subject s \<longleftrightarrow> s \<noteq> [] \<and> \<not> is_space (hd s) \<and> \<not> is_space (last s) \<and> 44 \<notin> set s"

lemma clean_strip: "clean_subject s \<Longrightarrow> py_strip s = s"
  unfolding py_strip_def clean_subject_def by (rule strip_by_id) simp

lemma join_ends:
  "ss \<noteq> [] \<Longrightarrow> \<forall>s \<in> set ss. clean_subject s \<Longrightarrow>
   join_on 44 ss \<noteq> [] \<and> hd (join_on 44 ss) = hd (hd ss) \<and> last (join_on 44 ss) = last (last ss)"
  by (induction "44 :: nat" ss rule: join_on.induct) (auto simp: clean_subject_def hd_append)

lemma parse_comma:
  assumes "ss \<noteq> []" and clean: "\<forall>s \<in> set ss. clean_subject s" and "hd (hd ss) \<noteq> of_char (CHR ''['')"
  shows "parse_subjects (JStr (join_on 44 ss)) = Inr (JList (map JStr ss))"
proof -
  note ends = join_ends [OF assms(1,2)]
  have "hd ss \<in> set ss" "last ss \<in> set ss" using assms(1) by simp_all
  with clean ends have s: "py_strip (join_on 44 ss) = join_on 44 ss"
    unfolding py_strip_def by (intro strip_by_id) (auto simp: clean_subject_def)
  have split: "split_on 44 (join_on 44 ss) = ss"
    using assms(1) clean by (intro split_join) (auto simp: clean_subject_def)
  have m: "map py_strip ss = ss" using clean by (intro map_idI) (auto simp: clean_strip)
  have f: "filter (\<lambda>s. s \<noteq> []) ss = ss" using clean by (intro filter_True) (auto simp: clean_subject_def)
  show ?thesis using ends assms(3) by (simp add: Let_def s split m f)
qed

lemma parse_json:
  assumes "\<forall>s \<in> set ss. scalar_str s"
  shows "parse_subjects (JStr (json_dumps (JList (map JStr ss)))) = Inr (JList (map JStr ss))"
proof -
  let ?t = "json_dumps (JList (map JStr ss))"
  have t: "?t \<noteq> []" "hd ?t = 91" "last ?t = 93" by simp_all
  have s: "py_strip ?t = ?t"
    unfolding py_strip_def using t by (intro strip_by_id) (simp add: is_space_def)
  have "json_ok (JList (map JStr ss))" using assms by simp
  then show ?thesis using t by (simp add: Let_def s json_loads_str_dumps del: json_dumps.simps)
qed

section \<open>Loading fails in one way only\<close>

lemma env_required_raises [raises_intros]: "raises_only {ValidationError} (env_required env n)"
  by (simp add: env_required_def raises_only_def split: option.splits)

lemma env_default_raises [raises_intros]:
  "(\<And>v. raises_only E (parse v)) \<Longrightarrow> raises_only E (env_default env n parse d)"
  by (simp add: env_default_def raises_only_def split: option.splits)

lemma parse_log_level_raises [raises_intros]: "raises_only {ValidationError} (parse_log_level v)"
  by (simp add: parse_log_level_def raises_only_def)

lemma parse_subjects_raises [raises_intros]:
  "raises_only {ValidationError} (catch_as is_value_error ValidationError (parse_subjects (JStr v)))"
proof -
  have "e \<in> {JSONDecodeError, ValueErr}" if "parse_subjects (JStr v) = Inl e" for e
    using that by (auto simp: Let_def dest: json_loads_str_error split: if_splits)
  then show ?thesis by (auto simp: raises_only_def catch_as_Inl_iff is_value_error_def)
qed

lemma load_adapter_settings_raises: "raises_only {ValidationError} (load_adapter_settings is_file env)"
  unfolding load_adapter_settings_def by (intro raises_intros) simp_all

section \<open>Properties\<close>

text \<open>
  C40: the two ways to write the subject list in the environment agree: whether
  \<open>JETCORE_SUBJECTS\<close> holds the names separated by commas or a JSON array of them, the settings
  load in both cases or in neither, are the same settings, and list exactly these names.
  A name is clean when it is not empty, has no comma and no white space at its ends; and the
  first must not begin with the bracket that marks an array.
\<close>

theorem subjects_comma_or_json:
  assumes "ss \<noteq> []" and "\<forall>s \<in> set ss. clean_subject s \<and> scalar_str s" and "hd (hd ss) \<noteq> of_char (CHR ''['')"
    and "comma = env(py ''JETCORE_SUBJECTS'' \<mapsto> join_on 44 ss)"
    and "array = env(py ''JETCORE_SUBJECTS'' \<mapsto> json_dumps (JList (map JStr ss)))"
  shows "load_adapter_settings is_file comma = load_adapter_settings is_file array
    \<and> (case load_adapter_settings is_file comma of Inl _ \<Rightarrow> True | Inr s \<Rightarrow> cfg_subjects s = ss)"
proof -
  have p: "parse_subjects (JStr (join_on 44 ss)) = Inr (JList (map JStr ss))"
    "parse_subjects (JStr (json_dumps (JList (map JStr ss)))) = Inr (JList (map JStr ss))"
    using parse_comma [OF assms(1) _ assms(3)] parse_json [of ss] assms(2) by simp_all
  have l: "as_str_list (Some (JList (map JStr ss))) = Inr ss" by (induction ss) simp_all
  have load: "load_adapter_settings is_file (env(py ''JETCORE_SUBJECTS'' \<mapsto> v)) =
     rbind (env_required env ''SERVICE_ID'') (\<lambda>sid.
     rbind (env_default env ''NATS_URL'' Inr (py ''nats://nats:4222'')) (\<lambda>url.
     rbind (env_required env ''NATS_CREDS_PATH'') (\<lambda>creds.
     rbind (if is_file creds then Inr () else Inl ValidationError) (\<lambda>_.
     rbind (rbind (catch_as is_value_error ValidationError (parse_subjects (JStr v))) (\<lambda>j. as_str_list (Some j))) (\<lambda>subs.
     rbind (env_default env ''LOG_LEVEL'' parse_log_level INFO) (\<lambda>level.
     Inr \<lparr>cfg_service_id = sid, cfg_nats_url = url, cfg_nats_creds_path = creds,
          cfg_subjects = subs, cfg_log_level = level\<rparr>))))))" for v
    by (simp add: load_adapter_settings_def env_required_def env_default_def py_def)
  show ?thesis
    unfolding assms(4,5) load p by (auto simp: l catch_as_def rbind_Inr_iff split: sum.splits)
qed

theorem subjects_comma_or_json_witness:
  "let env = [py ''JETCORE_SERVICE_ID'' \<mapsto> py ''svc'', py ''JETCORE_NATS_CREDS_PATH'' \<mapsto> py ''c''];
       s = load_adapter_settings (\<lambda>_. True) (env(py ''JETCORE_SUBJECTS'' \<mapsto> join_on 44 [py ''e.a'', py ''e.b''])) in
   s = load_adapter_settings (\<lambda>_. True) (env(py ''JETCORE_SUBJECTS'' \<mapsto> json_dumps (JList [JStr (py ''e.a''), JStr (py ''e.b'')])))
   \<and> (\<exists>r. s = Inr r \<and> cfg_subjects r = [py ''e.a'', py ''e.b''])"
proof -
  let ?env = "[py ''JETCORE_SERVICE_ID'' \<mapsto> py ''svc'', py ''JETCORE_NATS_CREDS_PATH'' \<mapsto> py ''c'']"
  let ?ss = "[py ''e.a'', py ''e.b'']"
  have "clean_subject (py ''e.a'')" "clean_subject (py ''e.b'')" "hd (hd ?ss) \<noteq> of_char (CHR ''['')"
    by (simp_all add: clean_subject_def is_space_def py_def)
  moreover have "\<not> isl (load_adapter_settings (\<lambda>_. True) (?env(py ''JETCORE_SUBJECTS'' \<mapsto> join_on 44 ?ss)))"
    by code_simp
  then have "\<exists>r. load_adapter_settings (\<lambda>_. True) (?env(py ''JETCORE_SUBJECTS'' \<mapsto> join_on 44 ?ss)) = Inr r"
    unfolding isl_def by (metis sum.exhaust)
  ultimately show ?thesis
    using subjects_comma_or_json [OF _ _ _ refl refl, of ?ss "\<lambda>_. True" ?env] by (auto simp: Let_def)
qed


end
