(* ===== verification/Py_Base32.thy ===== *)
theory Py_Base32
  imports Py_Codec
begin

text \<open>
  \<open>base64.b32encode\<close> and \<open>base64.b32decode\<close> of the standard library (RFC 4648, upper case),
  on byte strings, and the big-endian digit expansions both are made of. Eight characters of
  five bits stand for five bytes.
\<close>

section \<open>Digit expansions\<close>

definition of_digits :: "nat \<Rightarrow> nat list \<Rightarrow> nat" where
  "of_digits b ds = foldl (\<lambda>acc d. acc * b + d) 0 ds"

fun to_digits :: "nat \<Rightarrow> nat \<Rightarrow> nat \<Rightarrow> nat list" where
  "to_digits b 0 x = []"
| "to_digits b (Suc n) x = to_digits b n (x div b) @ [x mod b]"

lemma of_digits_simps [simp]:
  "of_digits b [] = 0" "of_digits b (ds @ [d]) = of_digits b ds * b + d"
  by (simp_all add: of_digits_def)

lemma length_to_digits [simp]: "length (to_digits b n x) = n"
  by (induction n arbitrary: x) simp_all

lemma to_digits_bound: "0 < b \<Longrightarrow> d \<in> set (to_digits b n x) \<Longrightarrow> d < b"
  by (induction n arbitrary: x) auto

lemma of_to_digits: "of_digits b (to_digits b n x) = x mod b ^ n"
proof (induction n arbitrary: x)
  case (Suc n)
  have "x mod (b * b ^ n) = b * (x div b mod b ^ n) + x mod b" by (rule mod_mult2_eq)
  with Suc show ?case by (simp add: mult.commute)
qed simp

lemma to_of_digits: "\<forall>d \<in> set ds. d < b \<Longrightarrow> to_digits b (length ds) (of_digits b ds) = ds"
proof (induction ds rule: rev_induct)
  case (snoc d ds)
  then show ?case by simp
qed simp

lemma of_digits_bound: "\<forall>d \<in> set ds. d < b \<Longrightarrow> of_digits b ds < b ^ length ds"
proof (induction ds rule: rev_induct)
  case (snoc d ds)
  then have "of_digits b ds < b ^ length ds" and "d < b" by simp_all
  then have "of_digits b ds * b + d < (of_digits b ds + 1) * b" by simp
  also have "(of_digits b ds + 1) * b \<le> b ^ length ds * b"
    using \<open>of_digits b ds < b ^ length ds\<close> by (intro mult_right_mono) simp_all
  finally show ?case by (simp add: mult.commute)
qed simp

section \<open>The alphabet\<close>

definition b32_char :: "nat \<Rightarrow> nat" where
  "b32_char v = (if v < 26 then 65 + v else 24 + v)"

definition b32_val :: "nat \<Rightarrow> nat option" where
  "b32_val c = (if 65 \<le> c \<and> c \<le> 90 then Some (c - 65)
     else if 50 \<le> c \<and> c \<le> 55 then Some (c - 24) else None)"

lemma b32_val_char [simp]: "v < 32 \<Longrightarrow> b32_val (b32_char v) = Some v"
  by (auto simp: b32_val_def b32_char_def)

lemma b32_val_Some: "b32_val c = Some v \<Longrightarrow> v < 32 \<and> c = b32_char v"
  by (auto simp: b32_val_def b32_char_def split: if_splits)

lemma b32_char_range: "v < 32 \<Longrightarrow> b32_char v < 128 \<and> b32_char v \<noteq> 61"
  by (auto simp: b32_char_def)

section \<open>Encoding and decoding\<close>

text \<open>Whole groups only: the caller's 35 bytes are seven groups of five, so no padding arises.\<close>

definition b32_group :: "bytes \<Rightarrow> bytes" where
  "b32_group g = map (byte \<circ> b32_char) (to_digits 32 8 (of_digits 256 (map unat g)))"

fun b32encode :: "bytes \<Rightarrow> bytes" where
  "b32encode (a # b # c # d # e # r) = b32_group [a, b, c, d, e] @ b32encode r"
| "b32encode _ = []"

fun b32_digits :: "bytes \<Rightarrow> nat list option" where
  "b32_digits [] = Some []"
| "b32_digits (c # cs) = (case b32_val (unat c) of
     None \<Rightarrow> None
   | Some v \<Rightarrow> (case b32_digits cs of None \<Rightarrow> None | Some vs \<Rightarrow> Some (v # vs)))"

text \<open>The groups of eight characters, the last of which may be shorter.\<close>

fun quanta :: "'a list \<Rightarrow> 'a list list" where
  "quanta (a # b # c # d # e # f # g # h # r) = [a, b, c, d, e, f, g, h] # quanta r"
| "quanta [] = []"
| "quanta r = [r]"

definition five_bytes :: "nat \<Rightarrow> bytes" where
  "five_bytes acc = map byte (to_digits 256 5 acc)"

text \<open>
  \<open>b32decode(s)\<close>: the length must be a multiple of eight with the padding; the padding is
  stripped and, for the last group, the null bits it stands for are shifted in and the bytes
  they would give dropped. The padding counts that no encoder produces are refused.
\<close>

definition b32decode :: "bytes \<Rightarrow> bytes res" where
  "b32decode s =
     (if length s mod 8 \<noteq> 0 then Inl BinasciiError
      else
        let body = rev (dropWhile (\<lambda>c. c = 61) (rev s)); padchars = length s - length body in
        (case b32_digits body of
           None \<Rightarrow> Inl BinasciiError
         | Some vs \<Rightarrow>
             let accs = map (of_digits 32) (quanta vs) in
             if padchars \<notin> {0, 1, 3, 4, 6} then Inl BinasciiError
             else if padchars \<noteq> 0 \<and> accs \<noteq> [] then
               Inr (concat (map five_bytes (butlast accs))
                    @ take ((43 - 5 * padchars) div 8) (five_bytes (last accs * 32 ^ padchars)))
             else Inr (concat (map five_bytes accs))))"

section \<open>Exactly one text per value\<close>

lemma b32_digits_Some: "b32_digits s = Some vs \<longleftrightarrow> (\<forall>v \<in> set vs. v < 32) \<and> s = map (byte \<circ> b32_char) vs"
proof (induction s arbitrary: vs)
  case Nil
  then show ?case by auto
next
  case (Cons c s)
  have b: "byte (b32_char v) = c \<longleftrightarrow> b32_char v = unat c" if "v < 32" for v
  proof
    assume "byte (b32_char v) = c"
    then have "unat c = unat (byte (b32_char v))" by simp
    also have "\<dots> = b32_char v" using b32_char_range [OF that] by (intro unat_byte) simp
    finally show "b32_char v = unat c" by simp
  qed simp
  show ?case
  proof
    assume "b32_digits (c # s) = Some vs"
    then obtain v ws where v: "b32_val (unat c) = Some v" and ws: "b32_digits s = Some ws" "vs = v # ws"
      by (auto split: option.splits)
    with Cons b32_val_Some [OF v] b show "(\<forall>v \<in> set vs. v < 32) \<and> c # s = map (byte \<circ> b32_char) vs"
      by (auto simp: o_def)
  next
    assume r: "(\<forall>v \<in> set vs. v < 32) \<and> c # s = map (byte \<circ> b32_char) vs"
    then obtain v ws where vs: "vs = v # ws" by (cases vs) auto
    with r have "v < 32" and c: "byte (b32_char v) = c" and s: "s = map (byte \<circ> b32_char) ws"
      and ws: "\<forall>v \<in> set ws. v < 32" by auto
    from b [OF \<open>v < 32\<close>] c have "unat c = b32_char v" by simp
    with \<open>v < 32\<close> have "b32_val (unat c) = Some v" by simp
    moreover have "b32_digits s = Some ws" using Cons s ws by blast
    ultimately show "b32_digits (c # s) = Some vs" using vs by simp
  qed
qed

lemma five_bytes_of: "length g = 5 \<Longrightarrow> five_bytes (of_digits 256 (map unat g)) = g"
proof -
  assume "length g = 5"
  then have "to_digits 256 5 (of_digits 256 (map unat g)) = map unat g"
    using to_of_digits [of "map unat g" 256] by simp
  then show ?thesis by (simp add: five_bytes_def o_def)
qed

lemma of_five_bytes: "acc < 256 ^ 5 \<Longrightarrow> of_digits 256 (map unat (five_bytes acc)) = acc"
proof -
  assume a: "acc < 256 ^ 5"
  have "map unat (five_bytes acc) = to_digits 256 5 acc"
    unfolding five_bytes_def map_map
    by (rule map_idI) (use to_digits_bound [of 256 _ 5 acc] in simp)
  with a of_to_digits [of 256 5 acc] show ?thesis by simp
qed

lemma length_five_bytes [simp]: "length (five_bytes acc) = 5"
  by (simp add: five_bytes_def)

lemma b32_group_digits:
  assumes "length vs = 8" and "\<forall>v \<in> set vs. v < 32"
  shows "b32_group (five_bytes (of_digits 32 vs)) = map (byte \<circ> b32_char) vs"
proof -
  have "of_digits 32 vs < 256 ^ 5" using of_digits_bound [of vs 32] assms by simp
  then have "of_digits 256 (map unat (five_bytes (of_digits 32 vs))) = of_digits 32 vs" by (rule of_five_bytes)
  with to_of_digits [of vs 32] assms show ?thesis by (simp add: b32_group_def)
qed

lemma five_of: "length l = 5 \<Longrightarrow> \<exists>a b c d e. l = [a, b, c, d, e]"
  by (auto simp: numeral_eq_Suc length_Suc_conv)

lemma split_five: "length bs = 5 * Suc n \<Longrightarrow> \<exists>a b c d e r. bs = a # b # c # d # e # r \<and> length r = 5 * n"
proof -
  assume l: "length bs = 5 * Suc n"
  then obtain a b c d e where "take 5 bs = [a, b, c, d, e]" using five_of [of "take 5 bs"] by auto
  then have "bs = a # b # c # d # e # drop 5 bs" by (metis append_Cons append_Nil append_take_drop_id)
  with l show ?thesis by (intro exI [of _ a] exI [of _ b] exI [of _ c] exI [of _ d] exI [of _ e]) auto
qed

lemma eight_of: "length l = 8 \<Longrightarrow> \<exists>a b c d e f g h. l = [a, b, c, d, e, f, g, h]"
  by (auto simp: numeral_eq_Suc length_Suc_conv)

lemma quanta_eight: "length g = 8 \<Longrightarrow> quanta (g @ r) = g # quanta r"
  by (drule eight_of) auto

lemma b32encode_five: "length g = 5 \<Longrightarrow> b32encode (g @ r) = b32_group g @ b32encode r"
  by (drule five_of) auto

lemma quanta_decode:
  "length vs = 8 * n \<Longrightarrow> \<forall>v \<in> set vs. v < 32 \<Longrightarrow>
   b32encode (concat (map five_bytes (map (of_digits 32) (quanta vs)))) = map (byte \<circ> b32_char) vs
   \<and> length (concat (map five_bytes (map (of_digits 32) (quanta vs)))) = 5 * n"
proof (induction n arbitrary: vs)
  case (Suc n)
  let ?g = "take 8 vs" and ?r = "drop 8 vs"
  have g: "length ?g = 8" "\<forall>v \<in> set ?g. v < 32" and r: "length ?r = 8 * n" "\<forall>v \<in> set ?r. v < 32"
    using Suc.prems set_take_subset [of 8 vs] set_drop_subset [of 8 vs] by auto
  have q: "quanta vs = ?g # quanta ?r" using quanta_eight [OF g(1), of ?r] by simp
  have m: "map (byte \<circ> b32_char) vs = map (byte \<circ> b32_char) ?g @ map (byte \<circ> b32_char) ?r"
    by (metis append_take_drop_id map_append)
  show ?case
    unfolding q m using Suc.IH [OF r] b32_group_digits [OF g] by (simp add: b32encode_five)
qed simp

lemma quanta_encode:
  "length bs = 5 * n \<Longrightarrow> \<exists>vs. length vs = 8 * n \<and> (\<forall>v \<in> set vs. v < 32)
     \<and> b32encode bs = map (byte \<circ> b32_char) vs \<and> concat (map five_bytes (map (of_digits 32) (quanta vs))) = bs"
proof (induction n arbitrary: bs)
  case (Suc n)
  from split_five [OF Suc.prems] obtain a b c d e r where bs: "bs = a # b # c # d # e # r"
    and len: "length r = 5 * n" by blast
  from Suc.IH [OF len] obtain vs where vs: "length vs = 8 * n" "\<forall>v \<in> set vs. v < 32"
    "b32encode r = map (byte \<circ> b32_char) vs" "concat (map five_bytes (map (of_digits 32) (quanta vs))) = r"
    by blast
  let ?x = "of_digits 256 (map unat [a, b, c, d, e])"
  let ?ws = "to_digits 32 8 ?x"
  have x: "?x < 256 ^ 5" using of_digits_bound [of "map unat [a, b, c, d, e]" 256] by simp
  then have inv: "of_digits 32 ?ws = ?x" using of_to_digits [of 32 8 ?x] by simp
  have "quanta (?ws @ vs) = ?ws # quanta vs"
    by (rule quanta_eight) simp
  then have "concat (map five_bytes (map (of_digits 32) (quanta (?ws @ vs)))) = bs"
    using inv five_bytes_of [of "[a, b, c, d, e]"] vs(4) bs by (simp del: to_digits.simps)
  moreover have "\<forall>v \<in> set (?ws @ vs). v < 32" using vs to_digits_bound [of 32 _ 8 ?x] by auto
  moreover have "b32encode bs = map (byte \<circ> b32_char) (?ws @ vs)" using bs vs by (simp add: b32_group_def)
  ultimately show ?case using vs by (intro exI [of _ "?ws @ vs"]) simp
qed simp

text \<open>The texts that decode to a given number of whole groups without padding.\<close>

lemma no_pad_body:
  assumes "\<forall>v \<in> set vs. v < 32"
  shows "rev (dropWhile (\<lambda>c. c = 61) (rev (map (byte \<circ> b32_char) vs))) = map (byte \<circ> b32_char) vs"
proof -
  have "(byte \<circ> b32_char) v \<noteq> 61" if "v < 32" for v
  proof
    assume "(byte \<circ> b32_char) v = 61"
    then have "unat (byte (b32_char v)) = 61" by simp
    with b32_char_range [OF that] show False by simp
  qed
  with assms have "\<forall>c \<in> set (map (byte \<circ> b32_char) vs). c \<noteq> 61" by auto
  then have "dropWhile (\<lambda>c. c = 61) (rev (map (byte \<circ> b32_char) vs)) = rev (map (byte \<circ> b32_char) vs)"
    unfolding dropWhile_eq_self_iff by (metis hd_in_set set_rev)
  then show ?thesis by simp
qed

lemma b32decode_encode:
  assumes "length bs = 5 * n" shows "b32decode (b32encode bs) = Inr bs"
proof -
  obtain vs where vs: "length vs = 8 * n" "\<forall>v \<in> set vs. v < 32"
    "b32encode bs = map (byte \<circ> b32_char) vs" "concat (map five_bytes (map (of_digits 32) (quanta vs))) = bs"
    using quanta_encode [OF assms] by blast
  have "b32_digits (map (byte \<circ> b32_char) vs) = Some vs" using vs by (simp add: b32_digits_Some)
  with vs no_pad_body [OF vs(2)] show ?thesis by (simp add: b32decode_def Let_def)
qed

text \<open>
  A text that decodes to whole groups has no padding and is the encoding of what it decodes
  to: no second text decodes to the same bytes.
\<close>

lemma b32decode_unique:
  assumes dec: "b32decode s = Inr bs" and len: "length bs = 5 * n" "0 < n"
  shows "s = b32encode bs"
proof -
  define body where "body = rev (dropWhile (\<lambda>c. c = 61) (rev s))"
  define p where "p = length s - length body"
  obtain vs where vs: "b32_digits body = Some vs"
    using dec by (auto simp: b32decode_def Let_def body_def split: if_splits option.splits)
  note d = iffD1 [OF b32_digits_Some vs]
  let ?accs = "map (of_digits 32) (quanta vs)"
  from dec vs have mod: "length s mod 8 = 0" and p: "p \<in> {0, 1, 3, 4, 6}"
    and bs: "bs = (if p \<noteq> 0 \<and> ?accs \<noteq> [] then concat (map five_bytes (butlast ?accs))
        @ take ((43 - 5 * p) div 8) (five_bytes (last ?accs * 32 ^ p)) else concat (map five_bytes ?accs))"
    by (auto simp: b32decode_def Let_def body_def p_def split: if_splits)
  have bytes: "length (concat (map five_bytes as)) = 5 * length as" for as by (induction as) auto
  have p0: "p = 0"
  proof (rule ccontr)
    assume "p \<noteq> 0"
    with p have "p \<in> {1, 3, 4, 6}" by simp
    then have q: "(43 - 5 * p) div 8 \<in> {1, 2, 3, 4}" by auto
    show False
    proof (cases "?accs = []")
      case True
      with bs len show False by simp
    next
      case False
      with bs \<open>p \<noteq> 0\<close> have "length bs = 5 * length (butlast ?accs) + (43 - 5 * p) div 8"
        using q by (auto simp: bytes)
      with len(1) have "(5 * n) mod 5 = ((43 - 5 * p) div 8 + 5 * length (butlast ?accs)) mod 5"
        by (simp add: add.commute)
      with q show False by auto
    qed
  qed
  have pre: "\<exists>t. s = body @ t"
    unfolding body_def by (metis rev_append rev_rev_ident takeWhile_dropWhile_id)
  then have s: "s = body" using p0 by (auto simp: p_def)
  then have len_vs: "length vs = 8 * (length s div 8)" using d mod by (metis length_map mult_div_mod_eq add_0_right)
  from quanta_decode [OF len_vs] d bs p0 s show ?thesis by simp
qed

end
