(* ===== verification/Py_Sha256.thy ===== *)
theory Py_Sha256
  imports Py_Codec
begin

text \<open>
  \<open>hashlib.sha256(m).digest()\<close> (FIPS 180-4) on 32-bit words: padding, message schedule,
  the 64 rounds of the compression function and the big-endian digest, with the fact the
  signing code relies on: the digest always has 32 bytes.
\<close>

unbundle bit_operations_syntax

type_synonym u32 = "32 word"

definition K256 :: "u32 list" where
  "K256 =
    [1116352408, 1899447441, 3049323471, 3921009573, 961987163, 1508970993, 2453635748, 2870763221,
     3624381080, 310598401, 607225278, 1426881987, 1925078388, 2162078206, 2614888103, 3248222580,
     3835390401, 4022224774, 264347078, 604807628, 770255983, 1249150122, 1555081692, 1996064986,
     2554220882, 2821834349, 2952996808, 3210313671, 3336571891, 3584528711, 113926993, 338241895,
     666307205, 773529912, 1294757372, 1396182291, 1695183700, 1986661051, 2177026350, 2456956037,
     2730485921, 2820302411, 3259730800, 3345764771, 3516065817, 3600352804, 4094571909, 275423344,
     430227734, 506948616, 659060556, 883997877, 958139571, 1322822218, 1537002063, 1747873779,
     1955562222, 2024104815, 2227730452, 2361852424, 2428436474, 2756734187, 3204031479, 3329325298]"

type_synonym hstate = "u32 \<times> u32 \<times> u32 \<times> u32 \<times> u32 \<times> u32 \<times> u32 \<times> u32"

definition H256 :: hstate where
  "H256 = (1779033703, 3144134277, 1013904242, 2773480762,
           1359893119, 2600822924, 528734635, 1541459225)"

definition rotr :: "nat \<Rightarrow> u32 \<Rightarrow> u32" where
  "rotr n x = drop_bit n x OR push_bit (32 - n) x"

definition ch :: "u32 \<Rightarrow> u32 \<Rightarrow> u32 \<Rightarrow> u32" where
  "ch x y z = (x AND y) XOR (NOT x AND z)"

definition maj :: "u32 \<Rightarrow> u32 \<Rightarrow> u32 \<Rightarrow> u32" where
  "maj x y z = (x AND y) XOR (x AND z) XOR (y AND z)"

definition bsig0 :: "u32 \<Rightarrow> u32" where
  "bsig0 x = rotr 2 x XOR rotr 13 x XOR rotr 22 x"

definition bsig1 :: "u32 \<Rightarrow> u32" where
  "bsig1 x = rotr 6 x XOR rotr 11 x XOR rotr 25 x"

definition ssig0 :: "u32 \<Rightarrow> u32" where
  "ssig0 x = rotr 7 x XOR rotr 18 x XOR drop_bit 3 x"

definition ssig1 :: "u32 \<Rightarrow> u32" where
  "ssig1 x = rotr 17 x XOR rotr 19 x XOR drop_bit 10 x"

text \<open>The message schedule, the last sixteen words kept newest first.\<close>

fun schedule :: "nat \<Rightarrow> u32 list \<Rightarrow> u32 list" where
  "schedule 0 w = rev w"
| "schedule (Suc n) w = schedule n ((ssig1 (w ! 1) + w ! 6 + ssig0 (w ! 14) + w ! 15) # w)"

fun round256 :: "hstate \<Rightarrow> u32 \<times> u32 \<Rightarrow> hstate" where
  "round256 (a, b, c, d, e, f, g, h) (k, w) =
     (let t1 = h + bsig1 e + ch e f g + k + w; t2 = bsig0 a + maj a b c
      in (t1 + t2, a, b, c, d + t1, e, f, g))"

fun add_state :: "hstate \<Rightarrow> hstate \<Rightarrow> hstate" where
  "add_state (a, b, c, d, e, f, g, h) (a', b', c', d', e', f', g', h') =
     (a + a', b + b', c + c', d + d', e + e', f + f', g + g', h + h')"

fun be_words :: "bytes \<Rightarrow> u32 list" where
  "be_words (a # b # c # d # r) =
     of_nat (unat a * 16777216 + unat b * 65536 + unat c * 256 + unat d) # be_words r"
| "be_words bs = []"

definition be_bytes :: "u32 \<Rightarrow> bytes" where
  "be_bytes w = [byte (unat w div 16777216), byte (unat w div 65536 mod 256),
     byte (unat w div 256 mod 256), byte (unat w mod 256)]"

definition compress :: "hstate \<Rightarrow> u32 list \<Rightarrow> hstate" where
  "compress h w = add_state h (foldl round256 h (zip K256 (schedule 48 (rev w))))"

function blocks :: "'a list \<Rightarrow> 'a list list" where
  "blocks xs = (if length xs < 16 then [] else take 16 xs # blocks (drop 16 xs))"
  by pat_completeness auto
termination
  by (relation "measure length") auto

declare blocks.simps [simp del]

definition pad256 :: "bytes \<Rightarrow> bytes" where
  "pad256 m = m @ byte 128 # replicate ((119 - length m mod 64) mod 64) 0
     @ be_bytes (of_nat (8 * length m div 4294967296)) @ be_bytes (of_nat (8 * length m))"

fun state_bytes :: "hstate \<Rightarrow> bytes" where
  "state_bytes (a, b, c, d, e, f, g, h) = concat (map be_bytes [a, b, c, d, e, f, g, h])"

definition sha256 :: "bytes \<Rightarrow> bytes" where
  "sha256 m = state_bytes (foldl compress H256 (blocks (be_words (pad256 m))))"

lemma length_state_bytes [simp]: "length (state_bytes s) = 32"
  by (induction s rule: state_bytes.induct) (simp add: be_bytes_def)

lemma length_sha256 [simp]: "length (sha256 m) = 32"
  by (simp add: sha256_def)

end
