(* ===== verification/Crypto.thy ===== *)
theory Crypto
  imports Py_Json Py_Base32 Py_Sha256
begin

text \<open>
  \<open>jetcore/crypto.py\<close>: payload encryption, event signing and the decoder of public nkeys.
  The libraries behind it (\<open>pyrage\<close>, \<open>nkeys\<close>, \<open>nacl\<close>) and the system's entropy are the
  parameter \<open>crypto_lib\<close>; a number names the entropy a call draws. Base32, UTF-8 and SHA-256
  are those of the standard library.
\<close>

section \<open>The libraries\<close>

record ('i, 'r, 'k) crypto_lib =
  identity_generate :: "nat \<Rightarrow> 'i"
  identity_str :: "'i \<Rightarrow> pystr"
  identity_to_public :: "'i \<Rightarrow> 'r"
  recipient_str :: "'r \<Rightarrow> pystr"
  identity_from_str :: "pystr \<Rightarrow> 'i res"
  recipient_from_str :: "pystr \<Rightarrow> 'r res"
  age_encrypt :: "nat \<Rightarrow> bytes \<Rightarrow> 'r list \<Rightarrow> bytes res"
  age_decrypt :: "bytes \<Rightarrow> 'i list \<Rightarrow> bytes res"
  os_urandom :: "nat \<Rightarrow> nat \<Rightarrow> bytes"
  nk_encode_seed :: "bytes \<Rightarrow> nat \<Rightarrow> bytes"
  nk_from_seed :: "bytes \<Rightarrow> 'k res"
  nk_public_key :: "'k \<Rightarrow> bytes"
  nk_sign :: "'k \<Rightarrow> bytes \<Rightarrow> bytes"
  nk_crc16 :: "bytes \<Rightarrow> nat"
  prefix_byte_user :: nat
  nacl_verify :: "bytes \<Rightarrow> bytes \<Rightarrow> bytes \<Rightarrow> unit res"

section \<open>Key pairs\<close>

record encryption_key_pair =
  kp_private_key :: pystr
  kp_public_key :: pystr

record signing_key_pair =
  sk_seed :: pystr
  sk_public_key :: pystr

definition generate_encryption_keypair :: "('i, 'r, 'k) crypto_lib \<Rightarrow> nat \<Rightarrow> encryption_key_pair" where
  "generate_encryption_keypair L n =
     (let identity = identity_generate L n in
      \<lparr>kp_private_key = identity_str L identity, kp_public_key = recipient_str L (identity_to_public L identity)\<rparr>)"

definition keypair_from_seed :: "('i, 'r, 'k) crypto_lib \<Rightarrow> pystr \<Rightarrow> signing_key_pair res" where
  "keypair_from_seed L s =
     rbind (utf8_encode s) (\<lambda>raw.
     rbind (nk_from_seed L raw) (\<lambda>k.
     rbind (utf8_decode False (nk_public_key L k)) (\<lambda>pub.
     Inr \<lparr>sk_seed = s, sk_public_key = pub\<rparr>)))"

definition generate_signing_keypair :: "('i, 'r, 'k) crypto_lib \<Rightarrow> nat \<Rightarrow> signing_key_pair res" where
  "generate_signing_keypair L n =
     (let raw_seed = os_urandom L n 32 in
      rbind (utf8_decode False (nk_encode_seed L raw_seed (prefix_byte_user L))) (keypair_from_seed L))"

section \<open>Encryption\<close>

text \<open>
  The recipient keys come from parsed registry entries, so they may be any JSON value; only a
  string is accepted.
\<close>

fun recipient_of :: "('i, 'r, 'k) crypto_lib \<Rightarrow> json \<Rightarrow> 'r res" where
  "recipient_of L (JStr s) = recipient_from_str L s"
| "recipient_of L _ = Inl TypeErr"

fun map_res :: "('a \<Rightarrow> 'b res) \<Rightarrow> 'a list \<Rightarrow> 'b list res" where
  "map_res f [] = Inr []"
| "map_res f (x # xs) = rbind (f x) (\<lambda>y. rbind (map_res f xs) (\<lambda>ys. Inr (y # ys)))"

definition encrypt_for_recipients ::
  "('i, 'r, 'k) crypto_lib \<Rightarrow> nat \<Rightarrow> bytes \<Rightarrow> json list \<Rightarrow> bytes res" where
  "encrypt_for_recipients L n plaintext recipient_public_keys =
     rbind (map_res (recipient_of L) recipient_public_keys) (\<lambda>recipients.
     age_encrypt L n plaintext recipients)"

definition decrypt :: "('i, 'r, 'k) crypto_lib \<Rightarrow> bytes \<Rightarrow> pystr \<Rightarrow> bytes res" where
  "decrypt L ciphertext private =
     rbind (identity_from_str L private) (\<lambda>identity. age_decrypt L ciphertext [identity])"

section \<open>Signatures\<close>

definition digest :: "bytes \<Rightarrow> bytes" where
  "digest plaintext = sha256 plaintext"

definition sign :: "('i, 'r, 'k) crypto_lib \<Rightarrow> pystr \<Rightarrow> bytes \<Rightarrow> bytes res" where
  "sign L s plaintext =
     rbind (utf8_encode s) (\<lambda>raw.
     rbind (nk_from_seed L raw) (\<lambda>keypair.
     Inr (nk_sign L keypair (digest plaintext))))"

definition le16 :: "bytes \<Rightarrow> nat" where
  "le16 b = unat (b ! 0) + 256 * unat (b ! 1)"

definition decode_nkey_public :: "('i, 'r, 'k) crypto_lib \<Rightarrow> pystr \<Rightarrow> bytes res" where
  "decode_nkey_public L key_text =
     rbind (utf8_encode key_text) (\<lambda>enc.
     let padding = replicate (nat ((- int (length enc)) mod 8)) 61 in
     rbind (catch_as (\<lambda>e. e = BinasciiError) ValueErr (b32decode (enc @ padding))) (\<lambda>raw.
     if length raw \<noteq> 35 then Inl ValueErr
     else
       let prefix = unat (raw ! 0); key = take 32 (drop 1 raw); crc_given = le16 (drop 33 raw) in
       if crc_given \<noteq> nk_crc16 L (take 33 raw) then Inl ValueErr
       else if prefix \<noteq> prefix_byte_user L then Inl ValueErr
       else Inr key))"

definition verify :: "('i, 'r, 'k) crypto_lib \<Rightarrow> pystr \<Rightarrow> bytes \<Rightarrow> bytes \<Rightarrow> bool res" where
  "verify L key_text plaintext sig =
     rbind (decode_nkey_public L key_text) (\<lambda>key.
     case nacl_verify L key (digest plaintext) sig of
       Inr _ \<Rightarrow> Inr True
     | Inl e \<Rightarrow> if e = BadSignatureError then Inr False else Inl e)"

section \<open>What the code relies on\<close>

definition nkey_body :: "('i, 'r, 'k) crypto_lib \<Rightarrow> bytes \<Rightarrow> bytes" where
  "nkey_body L key = byte (prefix_byte_user L) # key"

text \<open>The text of a public nkey: prefix, key and checksum, in base32.\<close>

definition nkey_text :: "('i, 'r, 'k) crypto_lib \<Rightarrow> bytes \<Rightarrow> pystr" where
  "nkey_text L key = map unat (b32encode (nkey_body L key @
     [byte (nk_crc16 L (nkey_body L key) mod 256), byte (nk_crc16 L (nkey_body L key) div 256)]))"

definition nkeys_ok :: "('i, 'r, 'k) crypto_lib \<Rightarrow> bool" where
  "nkeys_ok L \<longleftrightarrow> (\<forall>b. nk_crc16 L b < 65536) \<and> prefix_byte_user L < 256"

text \<open>
  A public nkey starts with the prefix of the kind its seed was made for; only user keys are
  what the verifier expects.
\<close>

definition nkey_text_as :: "('i, 'r, 'k) crypto_lib \<Rightarrow> nat \<Rightarrow> bytes \<Rightarrow> pystr" where
  "nkey_text_as L p key = (let body = byte p # key; crc = nk_crc16 L body in
     map unat (b32encode (body @ [byte (crc mod 256), byte (crc div 256)])))"

definition user_key :: "('i, 'r, 'k) crypto_lib \<Rightarrow> pystr \<Rightarrow> bool" where
  "user_key L t \<longleftrightarrow> (\<exists>key. length key = 32 \<and> t = nkey_text L key)"

text \<open>
  Ed25519: every key pair has a 32-byte public key, printed as an nkey of the kind of its seed,
  against which its signatures verify and which rejects with \<open>BadSignatureError\<close> or, for a
  signature that is not 64 bytes long, \<open>ValueError\<close>.
\<close>

definition signing_ok :: "('i, 'r, 'k) crypto_lib \<Rightarrow> bool" where
  "signing_ok L \<longleftrightarrow> nkeys_ok L \<and>
     (\<forall>k. \<exists>p key. length key = 32 \<and> nk_public_key L k = map byte (nkey_text_as L p key)
        \<and> (\<forall>m. nacl_verify L key m (nk_sign L k m) = Inr ()))
     \<and> (\<forall>key m sig. nacl_verify L key m sig \<in> {Inr (), Inl BadSignatureError, Inl ValueErr})"

text \<open>
  age: keys print and parse back, encryption to at least one recipient succeeds, and exactly
  the identities whose public key is among the recipients decrypt.
\<close>

definition age_ok :: "('i, 'r, 'k) crypto_lib \<Rightarrow> bool" where
  "age_ok L \<longleftrightarrow> (\<forall>i. identity_from_str L (identity_str L i) = Inr i)
     \<and> (\<forall>r. recipient_from_str L (recipient_str L r) = Inr r \<and> scalar_str (recipient_str L r))
     \<and> (\<forall>n p rs. rs \<noteq> [] \<longrightarrow> (\<exists>c. age_encrypt L n p rs = Inr c))
     \<and> (\<forall>n p rs c i. age_encrypt L n p rs = Inr c \<longrightarrow>
          age_decrypt L c [i] = (if identity_to_public L i \<in> set rs then Inr p else Inl DecryptError))"

section \<open>Public nkeys\<close>

lemma high_cont: "(0x80 :: nat) + n mod 64 < 256" "128 \<le> 0x80 + n mod 64"
  using mod_less_divisor [of 64 n] by simp_all

lemma utf8_char_ascii: "\<forall>b \<in> set (utf8_char c). unat b < 128 \<Longrightarrow> c < 128 \<and> utf8_char c = [byte c]"
proof (rule ccontr)
  assume a: "\<forall>b \<in> set (utf8_char c). unat b < 128" and "\<not> (c < 128 \<and> utf8_char c = [byte c])"
  then have "\<not> c < 128" by (auto simp: utf8_char_def)
  then have "byte (0x80 + c mod 64) \<in> set (utf8_char c)" by (auto simp: utf8_char_def)
  with a have "unat (byte (0x80 + c mod 64)) < 128" by blast
  then show False using high_cont [of c] by simp
qed

lemma utf8_encode_ascii_iff:
  assumes "\<forall>b \<in> set bs. unat b < 128"
  shows "utf8_encode s = Inr bs \<longleftrightarrow> s = map unat bs"
proof
  assume enc: "utf8_encode s = Inr bs"
  then have bs: "bs = concat (map utf8_char s)" by (simp add: utf8_encode_def split: if_splits)
  have "s = map unat (concat (map utf8_char s))" if "\<forall>b \<in> set (concat (map utf8_char s)). unat b < 128"
    using that
  proof (induction s)
    case (Cons c s)
    then have c: "\<forall>b \<in> set (utf8_char c). unat b < 128" by auto
    show ?case using utf8_char_ascii [OF c] Cons by simp
  qed simp
  with assms bs show "s = map unat bs" by simp
next
  assume s: "s = map unat bs"
  have "\<forall>c \<in> set s. c < 128" using assms s by auto
  then show "utf8_encode s = Inr bs"
    using utf8_encode_scalar [OF scalar_str_ascii, of s] utf8_bytes_ascii [of s] s by (simp add: o_def)
qed

lemma b32encode_ascii: "length bs = 5 * n \<Longrightarrow> \<forall>b \<in> set (b32encode bs). unat b < 128"
proof -
  assume "length bs = 5 * n"
  from quanta_encode [OF this] obtain vs where v: "\<forall>v \<in> set vs. v < 32"
    and e: "b32encode bs = map (byte \<circ> b32_char) vs" by blast
  have "unat (byte (b32_char w)) < 128" if "w \<in> set vs" for w
    using b32_char_range [of w] v that by simp
  with e show ?thesis by auto
qed

lemma length_b32encode: "length bs = 5 * n \<Longrightarrow> length (b32encode bs) = 8 * n"
  using quanta_encode [of bs n] by auto

lemma pad_byte: "x < 65536 \<Longrightarrow> le16 [byte (x mod 256), byte (x div 256)] = x"
proof -
  assume "x < 65536"
  then have "x div 256 < 256" by simp
  then show ?thesis by (simp add: le16_def)
qed

lemma decode_nkey_text:
  assumes ok: "nkeys_ok L" and key: "length key = 32"
  shows "decode_nkey_public L (nkey_text L key) = Inr key"
proof -
  let ?crc = "nk_crc16 L (nkey_body L key)"
  let ?raw = "nkey_body L key @ [byte (?crc mod 256), byte (?crc div 256)]"
  have len: "length ?raw = 5 * 7" using key by (simp add: nkey_body_def)
  have enc: "utf8_encode (nkey_text L key) = Inr (b32encode ?raw)"
    unfolding nkey_text_def using utf8_encode_ascii_iff [OF b32encode_ascii [OF len]] by blast
  have pad: "nat ((- int (length (b32encode ?raw))) mod 8) = 0"
    unfolding length_b32encode [OF len] by simp
  have parts: "take 33 ?raw = nkey_body L key" "drop 33 ?raw = [byte (?crc mod 256), byte (?crc div 256)]"
    "take 32 (drop 1 ?raw) = key" "unat (?raw ! 0) = prefix_byte_user L"
    using ok key by (simp_all add: nkey_body_def nkeys_ok_def)
  have "le16 (drop 33 ?raw) = ?crc" using ok unfolding parts by (intro pad_byte) (simp add: nkeys_ok_def)
  then show ?thesis
    unfolding decode_nkey_public_def enc rbind.simps pad Let_def
    using b32decode_encode [OF len] len parts key by simp
qed

lemma nkey_split:
  assumes "length raw = 35" and "unat (raw ! 0) = prefix_byte_user L"
    and "le16 (drop 33 raw) = nk_crc16 L (take 33 raw)"
  shows "raw = nkey_body L (take 32 (drop 1 raw)) @
     [byte (nk_crc16 L (take 33 raw) mod 256), byte (nk_crc16 L (take 33 raw) div 256)]
   \<and> take 33 raw = nkey_body L (take 32 (drop 1 raw))"
proof -
  obtain p r where r: "raw = p # r" and lr: "length r = 34" using assms(1) by (cases raw) auto
  have "length (drop 32 r) = Suc (Suc 0)" using lr by simp
  then obtain x y where xy: "drop 32 r = [x, y]" by (cases "drop 32 r"; cases "tl (drop 32 r)") auto
  have body: "take 33 raw = nkey_body L (take 32 (drop 1 raw))"
  proof -
    have "byte (prefix_byte_user L) = p" using assms(2) r by (simp flip: assms(2))
    then show ?thesis using r by (simp add: nkey_body_def)
  qed
  have crc: "nk_crc16 L (take 33 raw) = unat x + 256 * unat y" using assms(3) r xy by (simp add: le16_def)
  have "unat x < 256" by simp
  then have "(unat x + 256 * unat y) mod 256 = unat x" "(unat x + 256 * unat y) div 256 = unat y" by auto
  then have "drop 33 raw = [byte (nk_crc16 L (take 33 raw) mod 256), byte (nk_crc16 L (take 33 raw) div 256)]"
    using r xy unfolding crc by simp
  with body append_take_drop_id [of 33 raw] show ?thesis by simp
qed

lemma decode_nkey_only:
  assumes dec: "decode_nkey_public L s = Inr key"
  shows "length key = 32 \<and> s = nkey_text L key"
proof -
  obtain enc raw where enc: "utf8_encode s = Inr enc"
    and raw: "b32decode (enc @ replicate (nat ((- int (length enc)) mod 8)) 61) = Inr raw"
    and len: "length raw = 35" and key: "key = take 32 (drop 1 raw)"
    and crc: "le16 (drop 33 raw) = nk_crc16 L (take 33 raw)" and pre: "unat (raw ! 0) = prefix_byte_user L"
    using dec by (auto simp: decode_nkey_public_def Let_def rbind_Inr_iff split: if_splits)
  let ?pad = "replicate (nat ((- int (length enc)) mod 8)) (61 :: 8 word)"
  have whole: "enc @ ?pad = b32encode raw" using b32decode_unique [OF raw, of 7] len by simp
  obtain vs where vs: "\<forall>v \<in> set vs. v < 32" "b32encode raw = map (byte \<circ> b32_char) vs"
    using quanta_encode [of raw 7] len by auto
  have "61 \<notin> set (b32encode raw)"
  proof
    assume "61 \<in> set (b32encode raw)"
    then obtain v where v: "v \<in> set vs" and b: "byte (b32_char v) = 61" using vs by auto
    from b have "unat (byte (b32_char v)) = 61" by simp
    with b32_char_range [of v] vs v show False by simp
  qed
  then have "61 \<notin> set (enc @ ?pad)" unfolding whole .
  then have "nat ((- int (length enc)) mod 8) = 0" by auto
  with whole have e: "enc = b32encode raw" by simp
  have "\<forall>b \<in> set enc. unat b < 128" unfolding e using b32encode_ascii [of raw 7] len by simp
  from utf8_encode_ascii_iff [OF this] enc e have "s = map unat (b32encode raw)" by simp
  note split = nkey_split [OF len pre crc]
  have body: "take 33 raw = nkey_body L key" unfolding key using split by blast
  have "raw = nkey_body L key @ [byte (nk_crc16 L (take 33 raw) mod 256), byte (nk_crc16 L (take 33 raw) div 256)]"
    unfolding key using split by blast
  then have "nkey_text L key = map unat (b32encode raw)" unfolding body by (simp only: nkey_text_def)
  with \<open>s = map unat (b32encode raw)\<close> key len show ?thesis by simp
qed

section \<open>Signing and sealing\<close>

lemma decode_nkey_error:
  "decode_nkey_public L s = Inl e \<Longrightarrow> e = ValueErr \<or> e = UnicodeEncodeError"
proof -
  assume dec: "decode_nkey_public L s = Inl e"
  have b32: "b32decode t = Inl x \<Longrightarrow> x = BinasciiError" for t x
    by (auto simp: b32decode_def Let_def split: if_splits option.splits)
  show ?thesis
  proof (cases "utf8_encode s")
    case (Inl x)
    with dec show ?thesis by (simp add: decode_nkey_public_def utf8_encode_def split: if_splits)
  next
    case (Inr enc)
    show ?thesis
    proof (cases "b32decode (enc @ replicate (nat ((- int (length enc)) mod 8)) 61)")
      case (Inl x)
      with dec Inr b32 [OF Inl] show ?thesis by (simp add: decode_nkey_public_def)
    next
      case (Inr raw)
      with dec \<open>utf8_encode s = Inr enc\<close> show ?thesis
        by (simp add: decode_nkey_public_def Let_def split: if_splits)
    qed
  qed
qed

lemma decode_nkey_ascii_error:
  assumes "utf8_encode s = Inr enc" and dec: "decode_nkey_public L s = Inl e" shows "e = ValueErr"
proof -
  have b32: "b32decode t = Inl x \<Longrightarrow> x = BinasciiError" for t x
    by (auto simp: b32decode_def Let_def split: if_splits option.splits)
  with assms show ?thesis
    by (auto simp: decode_nkey_public_def Let_def rbind_Inl_iff catch_as_Inl_iff split: if_splits)
qed

lemma nkey_text_as_user: "nkey_text_as L (prefix_byte_user L) key = nkey_text L key"
  by (simp add: nkey_text_as_def nkey_text_def nkey_body_def Let_def)

lemma nkey_text_as_ascii:
  assumes "length key = 32" shows "\<forall>c \<in> set (nkey_text_as L p key). c < 128"
proof -
  have "length ((byte p # key) @ [byte x, byte y]) = 5 * 7" for x y using assms by simp
  then show ?thesis unfolding nkey_text_as_def Let_def using b32encode_ascii by fastforce
qed

lemma public_key_text:
  assumes "signing_ok L"
  obtains p key where "length key = 32" "utf8_decode False (nk_public_key L k) = Inr (nkey_text_as L p key)"
    "\<forall>m. nacl_verify L key m (nk_sign L k m) = Inr ()"
proof -
  obtain p key where key: "length key = 32" "nk_public_key L k = map byte (nkey_text_as L p key)"
    "\<forall>m. nacl_verify L key m (nk_sign L k m) = Inr ()"
    using assms unfolding signing_ok_def by blast
  note a = nkey_text_as_ascii [OF key(1), of L p]
  have "utf8_decode False (utf8_bytes (nkey_text_as L p key)) = Inr (nkey_text_as L p key)"
    by (rule utf8.dec_enc) (rule scalar_str_ascii [OF a])
  with key utf8_bytes_ascii [OF a] that show thesis by simp
qed

text \<open>What a key pair made from a seed is: its signatures, and the text of its public key.\<close>

lemma keypair_text:
  assumes "signing_ok L" and "keypair_from_seed L s = Inr kp"
  obtains p key sign' where "length key = 32" "sk_public_key kp = nkey_text_as L p key"
    "\<And>m. sign L s m = Inr (sign' m)" "\<And>m. nacl_verify L key (digest m) (sign' m) = Inr ()"
proof -
  obtain raw k where raw: "utf8_encode s = Inr raw" "nk_from_seed L raw = Inr k"
    and pub: "utf8_decode False (nk_public_key L k) = Inr (sk_public_key kp)"
    using assms(2) by (auto simp: keypair_from_seed_def rbind_Inr_iff)
  obtain p key where key: "length key = 32" "utf8_decode False (nk_public_key L k) = Inr (nkey_text_as L p key)"
    "\<forall>m. nacl_verify L key m (nk_sign L k m) = Inr ()" by (rule public_key_text [OF assms(1)])
  with pub raw show thesis
    by (intro that [of key p "\<lambda>m. nk_sign L k (digest m)"]) (simp_all add: sign_def)
qed

lemma sign_succeeds: "keypair_from_seed L s = Inr kp \<Longrightarrow> \<exists>sig. sign L s p = Inr sig"
  by (auto simp: keypair_from_seed_def sign_def rbind_Inr_iff)

lemma keypair_scalar:
  assumes "signing_ok L" and "keypair_from_seed L s = Inr kp" shows "scalar_str (sk_public_key kp)"
proof -
  obtain p key where "length key = 32" "sk_public_key kp = nkey_text_as L p key"
    by (rule keypair_text [OF assms])
  then show ?thesis using scalar_str_ascii [OF nkey_text_as_ascii [of key L p]] by simp
qed

text \<open>The text of another prefix decodes to no user key, with a \<open>ValueError\<close>.\<close>

lemma decode_other_nkey:
  assumes "length key = 32" and "\<not> user_key L (nkey_text_as L p key)"
  shows "decode_nkey_public L (nkey_text_as L p key) = Inl ValueErr"
proof (cases "decode_nkey_public L (nkey_text_as L p key)")
  case (Inl e)
  have "utf8_encode (nkey_text_as L p key) = Inr (utf8_bytes (nkey_text_as L p key))"
    by (rule utf8_encode_scalar [OF scalar_str_ascii [OF nkey_text_as_ascii [OF assms(1)]]])
  then have "e \<noteq> UnicodeEncodeError"
    using Inl decode_nkey_ascii_error [OF _ Inl] by auto
  with decode_nkey_error [OF Inl] Inl show ?thesis by simp
next
  case (Inr k)
  with decode_nkey_only [OF Inr] assms(2) show ?thesis by (auto simp: user_key_def)
qed

text \<open>Two prefixes never give one text, so the prefix of a user key is the user prefix.\<close>

lemma user_text_key:
  assumes "length key = 32" and "user_key L (nkey_text_as L p key)" and "nkeys_ok L"
  shows "decode_nkey_public L (nkey_text_as L p key) = Inr key"
proof -
  from assms(2) obtain k where k: "length k = 32" "nkey_text_as L p key = nkey_text L k"
    by (auto simp: user_key_def)
  let ?raw = "\<lambda>q c. (byte q # c) @ [byte (nk_crc16 L (byte q # c) mod 256), byte (nk_crc16 L (byte q # c) div 256)]"
  have inj: "inj (unat :: 8 word \<Rightarrow> nat)" by (rule injI) (simp only: word_unat_eq_iff)
  have "map unat (b32encode (?raw p key)) = map unat (b32encode (?raw (prefix_byte_user L) k))"
    using k(2) by (simp add: nkey_text_as_def nkey_text_def nkey_body_def Let_def)
  then have "b32encode (?raw p key) = b32encode (?raw (prefix_byte_user L) k)"
    using inj by (simp add: inj_map_eq_map)
  moreover have "b32decode (b32encode (?raw p key)) = Inr (?raw p key)"
    "b32decode (b32encode (?raw (prefix_byte_user L) k)) = Inr (?raw (prefix_byte_user L) k)"
    using assms(1) k(1) by (intro b32decode_encode [of _ 7]; simp)+
  ultimately have "?raw p key = ?raw (prefix_byte_user L) k" by simp
  then have "key = k" using assms(1) k(1) by simp
  with k decode_nkey_text [OF assms(3) k(1)] show ?thesis by simp
qed

lemma signed_verifies:
  assumes "signing_ok L" and "keypair_from_seed L s = Inr kp" and "sign L s p = Inr sig"
  shows "verify L (sk_public_key kp) p sig = (if user_key L (sk_public_key kp) then Inr True else Inl ValueErr)"
proof -
  obtain q key sign' where key: "length key = 32" "sk_public_key kp = nkey_text_as L q key"
    and sg: "\<And>m. sign L s m = Inr (sign' m)" "\<And>m. nacl_verify L key (digest m) (sign' m) = Inr ()"
    by (rule keypair_text [OF assms(1,2)]) blast
  have "nkeys_ok L" using assms(1) by (simp add: signing_ok_def)
  with key sg assms(3) user_text_key [OF key(1), of L q] decode_other_nkey [OF key(1), of L q]
  show ?thesis by (auto simp: verify_def)
qed

text \<open>Sealing for a list of recipients, as a codec for each of them.\<close>

lemma map_res_recipients:
  "age_ok L \<Longrightarrow> map_res (recipient_of L) (map (\<lambda>r. JStr (recipient_str L r)) rs) = Inr rs"
  by (induction rs) (simp_all add: age_ok_def)

lemma decrypt_sealed:
  assumes "age_ok L" and "encrypt_for_recipients L n p (map (\<lambda>r. JStr (recipient_str L r)) rs) = Inr c"
  shows "decrypt L c (identity_str L i) = (if identity_to_public L i \<in> set rs then Inr p else Inl DecryptError)"
  using assms map_res_recipients [OF assms(1), of rs]
  by (simp add: encrypt_for_recipients_def decrypt_def) (simp add: age_ok_def)

definition seal :: "('i, 'r, 'k) crypto_lib \<Rightarrow> nat \<Rightarrow> 'r list \<Rightarrow> bytes \<Rightarrow> bytes" where
  "seal L n rs p = (case encrypt_for_recipients L n p (map (\<lambda>r. JStr (recipient_str L r)) rs) of
     Inr c \<Rightarrow> c | Inl e \<Rightarrow> [])"

lemma seal_succeeds:
  "age_ok L \<Longrightarrow> rs \<noteq> [] \<Longrightarrow>
   encrypt_for_recipients L n p (map (\<lambda>r. JStr (recipient_str L r)) rs) = Inr (seal L n rs p)"
proof -
  assume a: "age_ok L" and "rs \<noteq> []"
  then obtain c where "age_encrypt L n p rs = Inr c" unfolding age_ok_def by blast
  with map_res_recipients [OF a, of rs] show ?thesis by (simp add: seal_def encrypt_for_recipients_def)
qed

interpretation age_box: codec "seal L n rs" "\<lambda>c. decrypt L c (identity_str L i)"
  "\<lambda>_. age_ok L \<and> identity_to_public L i \<in> set rs" for L n rs i
proof
  fix p assume a: "age_ok L \<and> identity_to_public L i \<in> set rs"
  then have "rs \<noteq> []" by auto
  with a seal_succeeds decrypt_sealed show "decrypt L (seal L n rs p) (identity_str L i) = Inr p" by metis
qed

section \<open>A library that satisfies the contract\<close>

text \<open>
  Identities are octets, printed as one character; a sealed text carries its recipients in
  front; a key pair is 32 octets, an operator's if they start with \<open>O\<close>, and a signature the key
  before the digest.
\<close>

fun open_box :: "8 word \<Rightarrow> bool \<Rightarrow> bytes \<Rightarrow> bytes res" where
  "open_box i found (m # r # c) = (if m = 1 then open_box i (found \<or> r = i) c
     else if found then Inr (r # c) else Inl DecryptError)"
| "open_box i found _ = (if found then Inr [] else Inl DecryptError)"

definition box_key :: "pystr \<Rightarrow> exn \<Rightarrow> 8 word res" where
  "box_key s e = (if length s = 1 \<and> 256 \<le> hd s \<and> hd s < 512 then Inr (byte (hd s - 256)) else Inl e)"

definition toy_crypto :: "(8 word, 8 word, bytes) crypto_lib" where
  "toy_crypto = \<lparr>
     identity_generate = byte, identity_str = (\<lambda>i. [unat i + 256]), identity_to_public = (\<lambda>i. i),
     recipient_str = (\<lambda>i. [unat i + 256]), identity_from_str = (\<lambda>s. box_key s IdentityError),
     recipient_from_str = (\<lambda>s. box_key s RecipientError),
     age_encrypt = (\<lambda>n p rs. Inr (concat (map (\<lambda>r. [1, r]) rs) @ (if p = [] then [] else 0 # p))),
     age_decrypt = (\<lambda>c ids. case ids of [i] \<Rightarrow> open_box i False c | _ \<Rightarrow> Inl DecryptError),
     os_urandom = (\<lambda>n k. replicate k (byte (n mod 128))), nk_encode_seed = (\<lambda>raw p. raw),
     nk_from_seed = (\<lambda>s. Inr (take 32 (s @ replicate 32 0))),
     nk_public_key = (\<lambda>k. b32encode ((if take 1 k = [79] then 112 else 160) # take 32 (k @ replicate 32 0) @ [0, 0])),
     nk_sign = (\<lambda>k m. take 32 (k @ replicate 32 0) @ m), nk_crc16 = (\<lambda>_. 0), prefix_byte_user = 160,
     nacl_verify = (\<lambda>key m sig. if sig = key @ m then Inr () else if length sig = 64 then Inl BadSignatureError
       else Inl ValueErr)\<rparr>"

lemma open_box_sealed:
  "open_box i f (concat (map (\<lambda>r. [1, r]) rs) @ (if p = [] then [] else 0 # p)) =
     (if f \<or> i \<in> set rs then Inr p else Inl DecryptError)"
proof (induction rs arbitrary: f)
  case Nil
  show ?case by (cases p) auto
next
  case (Cons r rs)
  then show ?case by (simp add: eq_commute [of r i])
qed

lemma toy_age_ok: "age_ok toy_crypto"
proof -
  have "byte (unat i + 256 - 256) = i" for i :: "8 word" by simp
  moreover have "unat (i :: 8 word) + 256 < 512" for i by simp
  moreover have "scalar_str [unat (i :: 8 word) + 256]" for i
  proof -
    have "unat i < 256" by simp
    then show ?thesis unfolding scalar_str_def is_surrogate_def code_point_def by (simp del: unat_lt_256)
  qed
  ultimately show ?thesis
    using open_box_sealed [of _ False] by (simp add: age_ok_def toy_crypto_def box_key_def)
qed

lemma toy_empty_box: "age_decrypt toy_crypto [] [i] = Inl DecryptError"
  by (simp add: toy_crypto_def)

lemma toy_signing_ok: "signing_ok toy_crypto"
proof -
  have printed: "map byte (nkey_text_as toy_crypto p key) = b32encode (byte p # key @ [0, 0])" for p key
    by (simp add: nkey_text_as_def toy_crypto_def o_def byte_def)
  show ?thesis
    unfolding signing_ok_def
  proof (intro conjI allI)
    fix k :: bytes
    let ?key = "take 32 (k @ replicate 32 0)" and ?p = "if take 1 k = [79] then 112 else 160"
    have "length ?key = 32" by simp
    moreover have "nk_public_key toy_crypto k = map byte (nkey_text_as toy_crypto ?p ?key)"
      unfolding printed by (simp add: toy_crypto_def byte_def)
    ultimately show "\<exists>p key. length key = 32 \<and> nk_public_key toy_crypto k = map byte (nkey_text_as toy_crypto p key)
        \<and> (\<forall>m. nacl_verify toy_crypto key m (nk_sign toy_crypto k m) = Inr ())"
      by (intro exI [of _ ?p] exI [of _ ?key]) (simp add: toy_crypto_def)
  qed (simp_all add: nkeys_ok_def toy_crypto_def)
qed

lemma toy_keypair: "scalar_str s \<Longrightarrow> \<exists>t. keypair_from_seed toy_crypto s = Inr \<lparr>sk_seed = s, sk_public_key = t\<rparr>"
proof -
  assume "scalar_str s"
  then have "utf8_encode s = Inr (utf8_bytes s)" by (rule utf8_encode_scalar)
  moreover obtain k where "nk_from_seed toy_crypto (utf8_bytes s) = Inr k" by (simp add: toy_crypto_def)
  moreover obtain t where "utf8_decode False (nk_public_key toy_crypto k) = Inr t"
    by (rule public_key_text [OF toy_signing_ok])
  ultimately show ?thesis by (simp add: keypair_from_seed_def)
qed

section \<open>Properties\<close>

text \<open>
  C17: a public nkey has exactly one text: the decoder accepts the base32 of prefix, key and
  checksum of a 32-byte key, gives that key back, and accepts nothing else.
\<close>

theorem nkey_text_unique:
  assumes "nkeys_ok L"
  shows "decode_nkey_public L s = Inr key \<longleftrightarrow> length key = 32 \<and> s = nkey_text L key"
  using decode_nkey_text [OF assms] decode_nkey_only by blast

theorem nkey_text_unique_witness:
  "decode_nkey_public toy_crypto (nkey_text toy_crypto (replicate 32 7)) = Inr (replicate 32 7)"
  by (subst nkey_text_unique) (simp_all add: nkeys_ok_def toy_crypto_def)

text \<open>
  C16: a signature made with a seed verifies under the public key derived from that seed when
  the seed is a user's; for any other kind of seed verifying raises \<open>ValueError\<close>. Whatever it is
  asked, the verifier answers or raises \<open>ValueError\<close> (a malformed key, a signature of a wrong
  length) or \<open>UnicodeEncodeError\<close> (a key that is no text), never anything else.
\<close>

theorem sign_verify:
  assumes "signing_ok L" and "keypair_from_seed L s = Inr kp"
  shows "(\<exists>sig. sign L s p = Inr sig \<and> verify L (sk_public_key kp) p sig =
        (if user_key L (sk_public_key kp) then Inr True else Inl ValueErr))
     \<and> verify L t q sig' \<in> {Inr True, Inr False, Inl ValueErr, Inl UnicodeEncodeError}"
proof
  show "\<exists>sig. sign L s p = Inr sig \<and> verify L (sk_public_key kp) p sig =
      (if user_key L (sk_public_key kp) then Inr True else Inl ValueErr)"
    using sign_succeeds [OF assms(2), of p] signed_verifies [OF assms] by blast
next
  show "verify L t q sig' \<in> {Inr True, Inr False, Inl ValueErr, Inl UnicodeEncodeError}"
  proof (cases "decode_nkey_public L t")
    case (Inl e)
    then show ?thesis using decode_nkey_error [OF Inl] by (auto simp: verify_def)
  next
    case (Inr key)
    have "nacl_verify L key (digest q) sig' \<in> {Inr (), Inl BadSignatureError, Inl ValueErr}"
      using assms(1) unfolding signing_ok_def by blast
    with Inr show ?thesis by (auto simp: verify_def)
  qed
qed

lemma toy_user_key:
  assumes "scalar_str s" and "take 1 (utf8_bytes s) \<noteq> [79]" and "keypair_from_seed toy_crypto s = Inr kp"
  shows "user_key toy_crypto (sk_public_key kp)"
proof -
  define k where "k = take 32 (utf8_bytes s @ replicate 32 0)"
  have first: "take 1 k \<noteq> [79]" using assms(2) by (cases "utf8_bytes s") (auto simp: k_def)
  have len: "length k = 32" by (simp add: k_def)
  have a: "\<forall>c \<in> set (nkey_text toy_crypto k). c < 128"
    using nkey_text_as_ascii [OF len] nkey_text_as_user by metis
  have "nk_public_key toy_crypto k = map byte (nkey_text toy_crypto k)"
    using first len by (simp add: nkey_text_def nkey_body_def toy_crypto_def o_def byte_def)
  also have "utf8_decode False \<dots> = Inr (nkey_text toy_crypto k)"
    using utf8.dec_enc [OF scalar_str_ascii [OF a]] utf8_bytes_ascii [OF a] by simp
  finally have "utf8_decode False (nk_public_key toy_crypto k) = Inr (nkey_text toy_crypto k)" .
  moreover have "nk_from_seed toy_crypto (utf8_bytes s) = Inr k" by (simp add: toy_crypto_def k_def)
  ultimately have "sk_public_key kp = nkey_text toy_crypto k"
    using assms(3) utf8_encode_scalar [OF assms(1)] by (auto simp: keypair_from_seed_def)
  with len show ?thesis by (auto simp: user_key_def)
qed

theorem sign_verify_witness:
  "\<exists>kp sig. keypair_from_seed toy_crypto (py ''SU'') = Inr kp \<and> sign toy_crypto (py ''SU'') [104, 105] = Inr sig
     \<and> verify toy_crypto (sk_public_key kp) [104, 105] sig = Inr True"
proof -
  obtain t where kp: "keypair_from_seed toy_crypto (py ''SU'') = Inr \<lparr>sk_seed = py ''SU'', sk_public_key = t\<rparr>"
    using toy_keypair [of "py ''SU''"] by auto
  have "take 1 (utf8_bytes (py ''SU'')) \<noteq> [79]" by code_simp
  from toy_user_key [OF _ this kp] have "user_key toy_crypto t" by simp
  with sign_verify [OF toy_signing_ok kp] kp show ?thesis by fastforce
qed


end
