(* ===== verification/Creds.thy ===== *)
theory Creds
  imports Config Crypto "HOL-Library.Sublist"
begin

text \<open>
  \<open>jetcore/creds.py\<close>: the seed block of a \<open>.creds\<close> file. The regular expression is written
  out as the matcher it denotes: every quantifier in it is followed by a character outside
  its class, so matching needs no backtracking, and \<open>search\<close> tries the positions from the left.
\<close>

definition lit :: "string \<Rightarrow> bytes" where
  "lit s = map of_char s"

fun strip_lit_bytes :: "bytes \<Rightarrow> bytes \<Rightarrow> bytes option" where
  "strip_lit_bytes [] s = Some s"
| "strip_lit_bytes (c # cs) (x # s) = (if c = x then strip_lit_bytes cs s else None)"
| "strip_lit_bytes (c # cs) [] = None"

text \<open>\<open>-+\<close> and \<open>\r?\n\<close>\<close>

fun dashes :: "bytes \<Rightarrow> bytes option" where
  "dashes (c # s) = (if c = 45 then Some (dropWhile (\<lambda>c. c = 45) s) else None)"
| "dashes [] = None"

fun newline :: "bytes \<Rightarrow> bytes option" where
  "newline (c # s) = (if c = 10 then Some s else if c = 13 then
     (case s of d # r \<Rightarrow> if d = 10 then Some r else None | [] \<Rightarrow> None) else None)"
| "newline [] = None"

definition is_eol :: "8 word \<Rightarrow> bool" where
  "is_eol c \<longleftrightarrow> c = 13 \<or> c = 10"

definition SEED_BLOCK :: "bytes \<Rightarrow> bytes option" where
  "SEED_BLOCK s =
     Option.bind (dashes s) (\<lambda>s.
     Option.bind (strip_lit_bytes (lit ''BEGIN USER NKEY SEED'') s) (\<lambda>s.
     Option.bind (dashes s) (\<lambda>s.
     Option.bind (newline (dropWhile (\<lambda>c. c = 32 \<or> c = 9) s)) (\<lambda>s.
     let seed = takeWhile (\<lambda>c. \<not> is_eol c) s in
     if seed = [] then None else
     Option.bind (newline (dropWhile (\<lambda>c. \<not> is_eol c) s)) (\<lambda>s.
     Option.bind (dashes s) (\<lambda>s.
     Option.bind (strip_lit_bytes (lit ''END USER NKEY SEED'') s) (\<lambda>s.
     Option.bind (dashes s) (\<lambda>_. Some seed))))))))"

fun seed_search :: "bytes \<Rightarrow> bytes option" where
  "seed_search [] = SEED_BLOCK []"
| "seed_search (c # s) = (case SEED_BLOCK (c # s) of Some seed \<Rightarrow> Some seed | None \<Rightarrow> seed_search s)"

text \<open>\<open>read_bytes\<close> is the outcome of reading the file.\<close>

definition load_signing_keypair :: "('i, 'r, 'k) crypto_lib \<Rightarrow> bytes res \<Rightarrow> signing_key_pair res" where
  "load_signing_keypair L read_bytes =
     rbind read_bytes (\<lambda>data.
     case seed_search data of
       None \<Rightarrow> Inl CredsParseError
     | Some m \<Rightarrow> rbind (utf8_decode False m) (\<lambda>t. keypair_from_seed L (py_strip t)))"

section \<open>The template\<close>

text \<open>A seed block as \<open>nsc\<close> writes it, between any number of dashes.\<close>

definition seed_block :: "nat \<Rightarrow> nat \<Rightarrow> nat \<Rightarrow> nat \<Rightarrow> bytes \<Rightarrow> bytes" where
  "seed_block a b c d m = replicate (Suc a) 45 @ lit ''BEGIN USER NKEY SEED'' @ replicate (Suc b) 45 @ [10]
     @ m @ [10] @ replicate (Suc c) 45 @ lit ''END USER NKEY SEED'' @ replicate (Suc d) 45"

lemma strip_lit_bytes_iff: "strip_lit_bytes w s = Some r \<longleftrightarrow> s = w @ r"
  by (induction w s rule: strip_lit_bytes.induct) auto

lemma dashes_run:
  "r = [] \<or> hd r \<noteq> 45 \<Longrightarrow> dashes (replicate (Suc n) 45 @ r) = Some r"
  by (cases r) (auto simp: dropWhile_append)

lemma lit_hd: "s \<noteq> [] \<Longrightarrow> hd (lit s @ r) = of_char (hd s)"
  by (cases s) (simp_all add: lit_def)

lemma SEED_BLOCK_template:
  assumes "m \<noteq> []" and "\<forall>c \<in> set m. \<not> is_eol c"
  shows "SEED_BLOCK (seed_block a b c d m @ rest) = Some m"
proof -
  have tw: "takeWhile (\<lambda>c. \<not> is_eol c) (m @ 10 # r) = m" "dropWhile (\<lambda>c. \<not> is_eol c) (m @ 10 # r) = 10 # r" for r
    using assms(2) by (auto simp: is_eol_def takeWhile_append2 dropWhile_append2)
  have d1: "dashes (replicate (Suc a) 45 @ lit ''BEGIN USER NKEY SEED'' @ r) = Some (lit ''BEGIN USER NKEY SEED'' @ r)" for a r
    by (rule dashes_run) (simp add: lit_def)
  have d2: "dashes (replicate (Suc b) 45 @ 10 # r) = Some (10 # r)" for b r by (rule dashes_run) simp
  have d3: "dashes (replicate (Suc c) 45 @ lit ''END USER NKEY SEED'' @ r) = Some (lit ''END USER NKEY SEED'' @ r)" for c r
    by (rule dashes_run) (simp add: lit_def)
  have s: "strip_lit_bytes w (w @ r) = Some r" for w r by (simp add: strip_lit_bytes_iff)
  obtain x where "dashes (replicate (Suc d) 45 @ rest) = Some x" by simp
  then show ?thesis
    unfolding SEED_BLOCK_def seed_block_def
    using assms(1) by (simp only: append_assoc append_Cons append_Nil d1 d2 d3 s tw Option.bind.bind_lunit
        dropWhile.simps newline.simps if_True if_False Let_def not_Cons_self2 split: if_splits) simp
qed

text \<open>Text that does not hold the opening marker, up to the end of a line, cannot start a match.\<close>

lemma SEED_BLOCK_marker:
  "SEED_BLOCK s = Some m \<Longrightarrow> \<exists>r. dropWhile (\<lambda>c. c = 45) s = lit ''BEGIN USER NKEY SEED'' @ r"
proof -
  assume "SEED_BLOCK s = Some m"
  then obtain t r where "dashes s = Some t" and "strip_lit_bytes (lit ''BEGIN USER NKEY SEED'') t = Some r"
    by (auto simp: SEED_BLOCK_def bind_eq_Some_conv)
  then show ?thesis by (cases s) (auto simp: strip_lit_bytes_iff split: if_splits)
qed

lemma no_match_before:
  assumes "\<not> sublist (lit ''BEGIN USER NKEY SEED'') pre"
  shows "SEED_BLOCK (pre @ 10 # s) = None"
proof (rule ccontr)
  assume "SEED_BLOCK (pre @ 10 # s) \<noteq> None"
  then obtain m where "SEED_BLOCK (pre @ 10 # s) = Some m" by auto
  from SEED_BLOCK_marker [OF this] obtain r where
    r: "dropWhile (\<lambda>c. c = 45) (pre @ 10 # s) = lit ''BEGIN USER NKEY SEED'' @ r" by blast
  define q where "q = dropWhile (\<lambda>c. c = 45) pre"
  have "dropWhile (\<lambda>c. c = 45) (pre @ 10 # s) = q @ 10 # s"
    unfolding q_def by (induction pre) auto
  with r have e: "q @ 10 # s = lit ''BEGIN USER NKEY SEED'' @ r" by simp
  have "10 \<notin> set (lit ''BEGIN USER NKEY SEED'')" by (simp add: lit_def)
  moreover from e consider u where "q = lit ''BEGIN USER NKEY SEED'' @ u"
    | u where "lit ''BEGIN USER NKEY SEED'' = q @ 10 # u"
    by (auto simp: append_eq_append_conv2 Cons_eq_append_conv dest: sym)
  ultimately obtain u where "q = lit ''BEGIN USER NKEY SEED'' @ u"
    by (metis in_set_conv_decomp)
  moreover have "suffix q pre" unfolding q_def by (rule suffix_dropWhile)
  ultimately have "sublist (lit ''BEGIN USER NKEY SEED'') pre"
    by (auto simp: suffix_def sublist_def)
  with assms show False by simp
qed

lemma seed_search_skip:
  "\<not> sublist (lit ''BEGIN USER NKEY SEED'') pre \<Longrightarrow> seed_search (pre @ 10 # s) = seed_search s"
proof (induction pre)
  case Nil
  from no_match_before [OF Nil, of s] show ?case by simp
next
  case (Cons c pre)
  have "\<not> sublist (lit ''BEGIN USER NKEY SEED'') pre" using Cons.prems by (auto intro: sublist_Cons_right[THEN iffD2])
  with Cons.IH no_match_before [OF Cons.prems, of s] show ?case by simp
qed

lemma seed_search_here: "SEED_BLOCK s = Some m \<Longrightarrow> seed_search s = Some m"
  by (cases s) simp_all

section \<open>Properties\<close>

text \<open>
  C35: a credentials file with one seed block, whatever lines without the opening marker come
  before it and whatever follows, yields the key pair of exactly that seed.
\<close>

theorem creds_seed_found:
  assumes "\<not> sublist (lit ''BEGIN USER NKEY SEED'') pre"
    and "s \<noteq> []" and "\<forall>c \<in> set s. 33 \<le> c \<and> c < 127"
  shows "load_signing_keypair L (Inr (pre @ [10] @ seed_block a b c d (map byte s) @ rest)) = keypair_from_seed L s"
proof -
  have m: "map byte s \<noteq> []" "\<forall>c \<in> set (map byte s). \<not> is_eol c"
  proof -
    have "byte x \<noteq> 13 \<and> byte x \<noteq> 10" if "33 \<le> x" "x < 127" for x
    proof -
      have x: "unat (byte x) = x" using that by (intro unat_byte) simp
      have "byte x \<noteq> v" if "unat v < 33" for v using that \<open>33 \<le> x\<close> x by auto
      from this [of 13] this [of 10] show ?thesis by simp
    qed
    with assms(2,3) show "map byte s \<noteq> []" "\<forall>c \<in> set (map byte s). \<not> is_eol c" by (auto simp: is_eol_def)
  qed
  have "seed_search (pre @ [10] @ seed_block a b c d (map byte s) @ rest) = Some (map byte s)"
    using seed_search_skip [OF assms(1)] seed_search_here [OF SEED_BLOCK_template [OF m]] by simp
  moreover have "utf8_decode False (map byte s) = Inr s"
  proof -
    have "\<forall>c \<in> set s. c < 128" using assms(3) by auto
    from utf8.dec_enc [OF scalar_str_ascii [OF this], of False] utf8_bytes_ascii [OF this] show ?thesis by simp
  qed
  moreover have "py_strip s = s"
  proof -
    have "hd s \<in> set s" "last s \<in> set s" using assms(2) by simp_all
    with assms(3) show ?thesis unfolding py_strip_def by (intro strip_by_id) (auto simp: is_space_def)
  qed
  ultimately show ?thesis by (simp add: load_signing_keypair_def)
qed

theorem creds_seed_found_witness:
  "load_signing_keypair toy_crypto (Inr (lit ''-----BEGIN NATS USER JWT-----'' @ [10]
     @ seed_block 4 4 5 5 (map byte (py ''SUAB'')) @ [10])) = keypair_from_seed toy_crypto (py ''SUAB'')"
  by (rule creds_seed_found) (simp_all add: py_def, code_simp)

end
