(* ===== verification/Bus_Client.thy ===== *)
theory Bus_Client
  imports Registry Creds
begin

text \<open>
  \<open>jetcore/bus_client.py\<close>: connecting, publishing, subscribing, fetching and verifying,
  settling and closing. The state of a client is a record; the server, the cryptography,
  pydantic and the sources of fresh ids and time are the record \<open>bus_env\<close>. At the end the
  client is packed as the \<open>bus\<close> the adapters' handlers run over.
\<close>

section \<open>State\<close>

record ('n, 'i, 'r, 'k) bus_env =
  be_js :: "'n jetstream"
  be_lib :: "('i, 'r, 'k) crypto_lib"
  be_pydantic :: pydantic
  be_uuid :: "nat \<Rightarrow> pystr"
  be_now :: "nat \<Rightarrow> datetime"
  be_text_of :: "json \<Rightarrow> pystr"

text \<open>\<open>bc_tick\<close> counts the draws of fresh ids, entropy and time.\<close>

record 'n bus_client =
  bc_nats :: 'n
  bc_settings :: adapter_settings
  bc_adapter_type :: pystr
  bc_encryption_keypair :: encryption_key_pair
  bc_signing_seed :: pystr
  bc_signing_public_key :: pystr
  bc_recipient_caches :: "(pystr, recipient_cache) pydict"
  bc_subscriptions :: "(pystr, nat) pydict"
  bc_background_tasks :: "heartbeat_task list"
  bc_tick :: nat

definition on_nats :: "('n, 'a) comp \<Rightarrow> ('n bus_client, 'a) comp" where
  "on_nats m b = (case m (bc_nats b) of (r, n) \<Rightarrow> (r, b\<lparr>bc_nats := n\<rparr>))"

definition draw :: "('n bus_client, nat) comp" where
  "draw b = (Inr (bc_tick b), b\<lparr>bc_tick := Suc (bc_tick b)\<rparr>)"

definition with_client :: "('n bus_client \<Rightarrow> 'a res) \<Rightarrow> ('n bus_client, 'a) comp" where
  "with_client f b = (f b, b)"

section \<open>Constants\<close>

definition ENCRYPTION_ALGORITHM :: pystr where
  "ENCRYPTION_ALGORITHM = py ''age-v1 (X25519 + XChaCha20-Poly1305)''"
definition MAX_DELIVER_ATTEMPTS :: nat where "MAX_DELIVER_ATTEMPTS = 5"
definition REDELIVERY_BACKOFF_SECONDS :: "int list" where "REDELIVERY_BACKOFF_SECONDS = [2, 5, 15, 30, 60]"

definition consumer_config :: "pystr \<Rightarrow> consumer_config" where
  "consumer_config subject = \<lparr>cc_filter_subject = subject, cc_ack_policy = AckExplicit, cc_deliver_policy = DeliverAll,
     cc_max_deliver = MAX_DELIVER_ATTEMPTS, cc_backoff = REDELIVERY_BACKOFF_SECONDS\<rparr>"

section \<open>\<open>ReceivedEvent\<close>\<close>

text \<open>A list indexed from its end when the index is negative; out of range is an exception.\<close>

definition py_index :: "'a list \<Rightarrow> int \<Rightarrow> 'a res" where
  "py_index xs i = (let j = (if i < 0 then i + int (length xs) else i) in
     if 0 \<le> j \<and> j < int (length xs) then Inr (xs ! nat j) else Inl (LibraryErr 3))"

definition nak_delay :: "nat \<Rightarrow> int res" where
  "nak_delay num_delivered =
     py_index REDELIVERY_BACKOFF_SECONDS (min (int num_delivered - 1) (int (length REDELIVERY_BACKOFF_SECONDS) - 1))"

definition ack :: "('n, 'i, 'r, 'k) bus_env \<Rightarrow> msg \<Rightarrow> ('n bus_client, unit) comp" where
  "ack V m = on_nats (m_ack (be_js V) m)"

definition nak :: "('n, 'i, 'r, 'k) bus_env \<Rightarrow> msg \<Rightarrow> ('n bus_client, unit) comp" where
  "nak V m = seq (lift_res (nak_delay (msg_num_delivered m))) (\<lambda>delay. on_nats (m_nak (be_js V) m delay))"

section \<open>Connecting\<close>

definition connect ::
  "('n, 'i, 'r, 'k) bus_env \<Rightarrow> adapter_settings \<Rightarrow> pystr \<Rightarrow> encryption_key_pair \<Rightarrow> pystr \<Rightarrow> pystr
   \<Rightarrow> ('n, 'n bus_client) comp" where
  "connect V settings adapter_type encryption_keypair signing_seed signing_public_key =
     seq (nats_connect (be_js V) (cfg_nats_url settings) (cfg_nats_creds_path settings)) (\<lambda>_.
     seq (registry_connect (be_js V)) (\<lambda>_.
     seq (register_identity (be_js V) (cfg_service_id settings) adapter_type signing_public_key (be_now V 0)) (\<lambda>_ n.
     (Inr \<lparr>bc_nats = n, bc_settings = settings, bc_adapter_type = adapter_type,
           bc_encryption_keypair = encryption_keypair, bc_signing_seed = signing_seed,
           bc_signing_public_key = signing_public_key, bc_recipient_caches = dict_empty,
           bc_subscriptions = dict_empty, bc_background_tasks = [], bc_tick = 1\<rparr>, n))))"

definition connect_as_adapter ::
  "('n, 'i, 'r, 'k) bus_env \<Rightarrow> adapter_settings \<Rightarrow> pystr \<Rightarrow> bytes res \<Rightarrow> nat \<Rightarrow> ('n, 'n bus_client) comp" where
  "connect_as_adapter V settings adapter_type creds_file entropy =
     seq (lift_res (load_signing_keypair (be_lib V) creds_file)) (\<lambda>signing.
     connect V settings adapter_type (generate_encryption_keypair (be_lib V) entropy)
       (sk_seed signing) (sk_public_key signing))"

section \<open>Publishing\<close>

definition cache_for :: "('n, 'i, 'r, 'k) bus_env \<Rightarrow> pystr \<Rightarrow> ('n bus_client, recipient_cache) comp" where
  "cache_for V subject b = (case dict_get (bc_recipient_caches b) subject of
     Some c \<Rightarrow> (Inr c, b)
   | None \<Rightarrow> seq (on_nats (watch (be_js V) subject)) (\<lambda>c b.
       (Inr c, b\<lparr>bc_recipient_caches := dict_set subject c (bc_recipient_caches b)\<rparr>)) b)"

text \<open>
  The body of \<open>publish\<close> up to the envelope: \<open>t\<close> is the draw for the ciphertext's randomness,
  the fresh event id and the time of creation.
\<close>

definition seal_event ::
  "('n, 'i, 'r, 'k) bus_env \<Rightarrow> pystr \<Rightarrow> publish_args \<Rightarrow> json list \<Rightarrow> nat \<Rightarrow> 'n bus_client \<Rightarrow> event res" where
  "seal_event V version a rs t b =
     rbind (if rs = [] then Inr []
            else encrypt_for_recipients (be_lib V) t (pa_payload a) rs) (\<lambda>ciphertext.
     rbind (sign (be_lib V) (bc_signing_seed b) (pa_payload a)) (\<lambda>sig.
     rbind (as_strs rs) (\<lambda>keys.
     Inr \<lparr>ev_event = \<lparr>
        ee_details = \<lparr>event_id = be_uuid V t, event_created = be_now V t, event_type = pa_event_type a,
          event_schema_version = version, source_service_id = cfg_service_id (bc_settings b),
          correlation_id = pa_correlation_id a, signature = Some (b64encode sig),
          source_public_key = Some (bc_signing_public_key b)\<rparr>,
        ee_encryption = \<lparr>algorithm = ENCRYPTION_ALGORITHM, recipients = keys\<rparr>,
        ee_payload = b64encode ciphertext\<rparr>\<rparr>)))"

definition event_id_of :: "event \<Rightarrow> pystr" where
  "event_id_of e = event_id (ee_details (ev_event e))"

text \<open>The rest of \<open>publish\<close>: send, and for a suppressed duplicate read the original back.\<close>

definition send_event :: "('n, 'i, 'r, 'k) bus_env \<Rightarrow> publish_args \<Rightarrow> event \<Rightarrow> ('n bus_client, pystr) comp" where
  "send_event V a ev =
     seq (on_nats (js_publish (be_js V) (pa_subject a) (to_wire (be_pydantic V) ev) (pa_msg_id a) None)) (\<lambda>pub_ack.
     if ack_duplicate pub_ack then
       seq (on_nats (js_get_msg (be_js V) (ack_stream pub_ack) (ack_seq pub_ack))) (\<lambda>data.
       case data of
         None \<Rightarrow> raise RuntimeErr
       | Some d \<Rightarrow> seq draw (\<lambda>t. lift_res (rmap event_id_of (from_wire (be_pydantic V) (be_uuid V t) (be_now V t) d))))
     else ret (event_id_of ev))"

definition publish :: "('n, 'i, 'r, 'k) bus_env \<Rightarrow> pystr \<Rightarrow> publish_args \<Rightarrow> ('n bus_client, pystr) comp" where
  "publish V version a =
     seq (cache_for V (pa_subject a)) (\<lambda>cache.
     seq draw (\<lambda>t.
     seq (with_client (seal_event V version a (current cache) t)) (\<lambda>ev.
     send_event V a ev)))"

section \<open>Consuming\<close>

text \<open>\<open>durable_name or f"{service_id}-{subject}"\<close>\<close>

definition consumer_name :: "pystr \<Rightarrow> pystr \<Rightarrow> pystr option \<Rightarrow> pystr" where
  "consumer_name sid subject durable_name =
     (case durable_name of
        None \<Rightarrow> sid @ py ''-'' @ subject
      | Some d \<Rightarrow> if d = [] then sid @ py ''-'' @ subject else d)"

definition subscribe :: "('n, 'i, 'r, 'k) bus_env \<Rightarrow> pystr \<Rightarrow> pystr option \<Rightarrow> ('n bus_client, pystr) comp" where
  "subscribe V subject durable_name b =
     (let durable = consumer_name (cfg_service_id (bc_settings b)) subject durable_name in
      seq draw (\<lambda>t.
      seq (on_nats (heartbeat (be_js V) subject (cfg_service_id (bc_settings b)) (bc_adapter_type b)
             (kp_public_key (bc_encryption_keypair b)) (be_now V t))) (\<lambda>task.
      seq (\<lambda>b. (Inr (), b\<lparr>bc_background_tasks := bc_background_tasks b @ [task]\<rparr>)) (\<lambda>_.
      seq (on_nats (js_pull_subscribe (be_js V) subject durable (consumer_config subject))) (\<lambda>h b.
      (Inr durable, b\<lparr>bc_subscriptions := dict_set durable h (bc_subscriptions b)\<rparr>))))) b)"

text \<open>
  \<open>_process\<close>: parse, decrypt, then verify against the key the identity directory holds for the
  claimed sender. The embedded key is only compared for a warning.
\<close>

definition process_msg :: "('n, 'i, 'r, 'k) bus_env \<Rightarrow> msg \<Rightarrow> ('n bus_client, received_event) comp" where
  "process_msg V m =
     seq draw (\<lambda>t.
     seq (lift_res (from_wire (be_pydantic V) (be_uuid V t) (be_now V t) (msg_data m))) (\<lambda>ev.
     seq (lift_res (b64decode False (ee_payload (ev_event ev)))) (\<lambda>ciphertext.
     seq (with_client (\<lambda>b. decrypt (be_lib V) ciphertext (kp_private_key (bc_encryption_keypair b)))) (\<lambda>plaintext.
     case signature (ee_details (ev_event ev)) of
       None \<Rightarrow> raise SignatureVerificationError
     | Some s \<Rightarrow>
       seq (on_nats (lookup_signing_key (be_js V) (be_text_of V) (source_service_id (ee_details (ev_event ev))))) (\<lambda>trusted_key.
       case trusted_key of
         None \<Rightarrow> raise SignatureVerificationError
       | Some key \<Rightarrow>
         seq (lift_res (b64decode False s)) (\<lambda>sig.
         seq (lift_res (verify (be_lib V) key plaintext sig)) (\<lambda>valid.
         if valid then ret \<lparr>re_event = ev, re_payload = plaintext, re_msg = m\<rparr>
         else raise SignatureVerificationError)))))))"

text \<open>A message that cannot be processed is skipped, unless the task itself is cancelled.\<close>

fun process_all :: "('n, 'i, 'r, 'k) bus_env \<Rightarrow> msg list \<Rightarrow> ('n bus_client, received_event list) comp" where
  "process_all V [] b = (Inr [], b)"
| "process_all V (m # ms) b =
     (case process_msg V m b of
        (Inr ev, b') \<Rightarrow> seq (process_all V ms) (\<lambda>evs. ret (ev # evs)) b'
      | (Inl e, b') \<Rightarrow> if is_exception e then process_all V ms b' else (Inl e, b'))"

definition fetch :: "('n, 'i, 'r, 'k) bus_env \<Rightarrow> pystr \<Rightarrow> nat \<Rightarrow> ('n bus_client, received_event list) comp" where
  "fetch V durable_name batch b =
     (case dict_get (bc_subscriptions b) durable_name of
        None \<Rightarrow> (Inl ValueErr, b)
      | Some sub \<Rightarrow> try_else is_timeout_error (on_nats (sub_fetch (be_js V) sub batch)) (ret []) (process_all V) b)"

section \<open>Closing\<close>

fun stop_caches :: "(pystr, recipient_cache) pydict \<Rightarrow> unit res \<times> (pystr, recipient_cache) pydict" where
  "stop_caches [] = (Inr (), [])"
| "stop_caches ((s, c) # cs) = (case cache_stop c of
     (Inl e, c') \<Rightarrow> (Inl e, (s, c') # cs)
   | (Inr _, c') \<Rightarrow> (case stop_caches cs of (r, cs') \<Rightarrow> (r, (s, c') # cs')))"

definition close :: "('n, 'i, 'r, 'k) bus_env \<Rightarrow> ('n bus_client, unit) comp" where
  "close V b =
     (let b1 = b\<lparr>bc_background_tasks := map (hb_cancelled_update (\<lambda>_. True)) (bc_background_tasks b)\<rparr> in
      case stop_caches (bc_recipient_caches b1) of
        (Inl e, cs) \<Rightarrow> (Inl e, b1\<lparr>bc_recipient_caches := cs\<rparr>)
      | (Inr _, cs) \<Rightarrow> on_nats (nc_close (be_js V)) (b1\<lparr>bc_recipient_caches := cs\<rparr>))"

section \<open>The client as a bus\<close>

definition client_bus :: "('n, 'i, 'r, 'k) bus_env \<Rightarrow> 'n bus_client bus" where
  "client_bus V = \<lparr>bus_publish = publish V (py ''1.0.0''), bus_ack = ack V, bus_nak = nak V,
     bus_fetch = fetch V, bus_subscribe = subscribe V\<rparr>"

text \<open>
  What the watch of a subject does to the client's cache while the client runs: the items it
  delivers between two steps of the client.
\<close>

definition watch_delivers :: "pystr \<Rightarrow> watch_item list \<Rightarrow> 'n bus_client \<Rightarrow> 'n bus_client" where
  "watch_delivers subject its b = (case dict_get (bc_recipient_caches b) subject of
     None \<Rightarrow> b
   | Some c \<Rightarrow> b\<lparr>bc_recipient_caches := dict_set subject (fold consume its c) (bc_recipient_caches b)\<rparr>)"

end
