(* ===== verification/Webhook_Listener.thy ===== *)
theory Webhook_Listener
  imports Fs_Handlers Bus_Client
begin

text \<open>
  The webhook listener (\<open>webhook_listener/app.py\<close>): the request handler and the lifespan of its
  client. FastAPI is a parameter: a request is what the handler reads of it, and an
  \<open>HTTPException\<close> is a value. The payload it publishes is shown to be the write request the
  file storage adapter decodes.
\<close>

definition LISTENER_WRITE_REQUESTED_SUBJECT :: pystr where
  "LISTENER_WRITE_REQUESTED_SUBJECT = py ''events.files.FileWriteRequested''"
definition LISTENER_ADAPTER_TYPE :: pystr where "LISTENER_ADAPTER_TYPE = py ''webhook-listener''"

record webhook_request =
  wq_secret :: "pystr option"
  wq_idempotency_key :: "pystr option"
  wq_body :: "bytes res"

record response =
  rs_status :: nat
  rs_body :: bytes

definition healthz :: json where
  "healthz = JDict [(py ''status'', JStr (py ''ok''))]"

text \<open>\<open>secrets.compare_digest\<close> on strings: ASCII only.\<close>

definition compare_digest :: "pystr \<Rightarrow> pystr \<Rightarrow> bool res" where
  "compare_digest a b = (if \<exists>c \<in> set a \<union> set b. 128 \<le> c then Inl TypeErr else Inr (a = b))"

definition write_request_payload :: "pystr \<Rightarrow> bytes \<Rightarrow> bytes" where
  "write_request_payload path body =
     json_bytes (JDict [(py ''path'', JStr path), (py ''content'', JStr (b64encode body))])"

definition webhook_args :: "pystr \<Rightarrow> bytes \<Rightarrow> pystr option \<Rightarrow> publish_args" where
  "webhook_args path body key = \<lparr>pa_subject = LISTENER_WRITE_REQUESTED_SUBJECT,
     pa_payload = write_request_payload path body, pa_event_type = py ''FileWriteRequested'',
     pa_correlation_id = None, pa_msg_id = key\<rparr>"

definition receive_webhook ::
  "'c bus \<Rightarrow> webhook_listener_settings \<Rightarrow> pystr \<Rightarrow> webhook_request \<Rightarrow> (('c, 'z) world_scheme, response) comp" where
  "receive_webhook B settings path request =
     seq (case wq_secret request of
            None \<Rightarrow> raise (HTTPException 401)
          | Some s \<Rightarrow> seq (lift_res (compare_digest s (cfg_webhook_secret settings)))
              (\<lambda>same. if same then ret () else raise (HTTPException 401))) (\<lambda>_.
     if path = [] then raise (HTTPException 400)
     else seq (lift_res (wq_body request)) (\<lambda>body.
     seq (b_publish B (webhook_args path body (wq_idempotency_key request))) (\<lambda>_.
     ret \<lparr>rs_status = 202, rs_body = []\<rparr>)))"

text \<open>
  \<open>lifespan\<close>: an injected client is used and left alone; otherwise one is connected and closed
  on every way out. \<open>serve\<close> is what happens while the application runs.
\<close>

definition listener_lifespan ::
  "('n, 'i, 'r, 'k) bus_env \<Rightarrow> adapter_settings \<Rightarrow> bytes res \<Rightarrow> nat \<Rightarrow> 'n bus_client option
   \<Rightarrow> ('n bus_client, 'a) comp \<Rightarrow> ('n, 'a) comp" where
  "listener_lifespan V settings creds entropy injected serve n =
     (case injected of
        Some b \<Rightarrow> (case serve b of (r, b') \<Rightarrow> (r, bc_nats b'))
      | None \<Rightarrow>
        (case connect_as_adapter V settings LISTENER_ADAPTER_TYPE creds entropy n of
           (Inl e, n') \<Rightarrow> (Inl e, n')
         | (Inr client, n') \<Rightarrow>
           (case serve client of (r, b') \<Rightarrow>
             (case close V b' of (Inl e, b'') \<Rightarrow> (Inl e, bc_nats b'') | (Inr _, b'') \<Rightarrow> (r, bc_nats b'')))))"

text \<open>
  The application while it is served: the requests that reach the route, one after the other,
  with what the handler returns or raises for each. An exception answers its request only.
\<close>

fun serve_webhooks ::
  "'c bus \<Rightarrow> webhook_listener_settings \<Rightarrow> (pystr \<times> webhook_request) list \<Rightarrow> ('c, 'z) world_scheme
   \<Rightarrow> response res list \<times> ('c, 'z) world_scheme" where
  "serve_webhooks B settings [] w = ([], w)"
| "serve_webhooks B settings ((path, request) # rest) w =
     (case receive_webhook B settings path request w of
        (answer, w') \<Rightarrow> (case serve_webhooks B settings rest w' of (answers, w'') \<Rightarrow> (answer # answers, w'')))"

section \<open>Properties\<close>

text \<open>What is posted is what the file storage adapter decodes.\<close>

lemma write_request_decodes:
  assumes "scalar_str path" and "path \<noteq> []"
  shows "decode_write_requested (write_request_payload path body) = Inr \<lparr>wr_path = path, wr_content = body\<rparr>"
  unfolding write_request_payload_def by (rule decode_write_requested_of) (use assms in auto)

text \<open>A secret with a character beyond ASCII is a \<open>TypeError\<close>, not a refusal.\<close>

lemma non_ascii_secret_raises:
  "wq_secret request = Some s \<Longrightarrow> \<exists>c \<in> set s. 128 \<le> c \<Longrightarrow> receive_webhook B settings path request w = (Inl TypeErr, w)"
  by (auto simp: receive_webhook_def seq_def lift_res_def compare_digest_def)

section \<open>A listener that serves requests\<close>

text \<open>What a request is authorised to have written: the body, for the right secret and a path.\<close>

definition authorised_body :: "webhook_listener_settings \<Rightarrow> pystr \<Rightarrow> webhook_request \<Rightarrow> bytes option" where
  "authorised_body settings path request =
     (if wq_secret request = Some (cfg_webhook_secret settings) \<and> list_all (\<lambda>c. c < 128) (cfg_webhook_secret settings)
         \<and> path \<noteq> []
      then (case wq_body request of Inl _ \<Rightarrow> None | Inr body \<Rightarrow> Some body) else None)"

fun publish_calls :: "bus_call list \<Rightarrow> publish_args list" where
  "publish_calls [] = []"
| "publish_calls (Published a _ # cs) = a # publish_calls cs"
| "publish_calls (_ # cs) = publish_calls cs"

lemma publish_calls_append [simp]: "publish_calls (cs @ ds) = publish_calls cs @ publish_calls ds"
  by (induction cs rule: publish_calls.induct) simp_all

lemma compare_digest_same: "compare_digest a b = Inr True \<longleftrightarrow> a = b \<and> list_all (\<lambda>c. c < 128) b"
  unfolding compare_digest_def list_all_iff not_le [symmetric] by auto

lemma receive_webhook_publishes:
  assumes "receive_webhook B settings path request w = (r, w')"
  shows "publish_calls (w_calls w') = publish_calls (w_calls w) @
     (case authorised_body settings path request of
        None \<Rightarrow> [] | Some body \<Rightarrow> [webhook_args path body (wq_idempotency_key request)])"
proof (cases "wq_secret request")
  case None
  with assms show ?thesis by (simp add: receive_webhook_def authorised_body_def seq_def raise_def)
next
  case (Some s)
  note secret = this
  show ?thesis
  proof (cases "compare_digest s (cfg_webhook_secret settings) = Inr True")
    case False
    then have "authorised_body settings path request = None"
      using secret by (auto simp: compare_digest_same authorised_body_def)
    with assms secret False show ?thesis
      by (auto simp: receive_webhook_def seq_def raise_def lift_res_def split: sum.splits if_splits)
  next
    case True
    then have s: "s = cfg_webhook_secret settings" "list_all (\<lambda>c. c < 128) (cfg_webhook_secret settings)"
      by (simp_all add: compare_digest_same)
    have run: "receive_webhook B settings path request w =
        (if path = [] then raise (HTTPException 400)
         else seq (lift_res (wq_body request)) (\<lambda>body.
           seq (b_publish B (webhook_args path body (wq_idempotency_key request))) (\<lambda>_.
           ret \<lparr>rs_status = 202, rs_body = []\<rparr>))) w"
      using secret True by (simp add: receive_webhook_def seq_def lift_res_def ret_def)
    show ?thesis
    proof (cases "wq_body request")
      case (Inl e)
      with assms run show ?thesis
        by (auto simp: authorised_body_def raise_def seq_def lift_res_def split: if_splits)
    next
      case (Inr body)
      let ?a = "webhook_args path body (wq_idempotency_key request)"
      show ?thesis
      proof (cases "path = []")
        case True
        with assms run show ?thesis by (simp add: authorised_body_def raise_def)
      next
        case False
        obtain r1 w1 where p: "b_publish B ?a w = (r1, w1)" by fastforce
        then have "w' = w1" using assms run False Inr by (auto simp: seq_def lift_res_def ret_def split: sum.splits)
        with b_publish_calls [OF p] s secret False Inr show ?thesis by (simp add: authorised_body_def)
      qed
    qed
  qed
qed

lemma serve_webhooks_publishes:
  "serve_webhooks B settings requests w = (answers, w') \<Longrightarrow>
   length answers = length requests \<and>
   publish_calls (w_calls w') = publish_calls (w_calls w) @
     concat (map (\<lambda>(path, request). case authorised_body settings path request of
        None \<Rightarrow> [] | Some body \<Rightarrow> [webhook_args path body (wq_idempotency_key request)]) requests)"
proof (induction B settings requests w arbitrary: answers w' rule: serve_webhooks.induct)
  case (2 B settings path request rest w)
  obtain r1 w1 where rw: "receive_webhook B settings path request w = (r1, w1)" by fastforce
  obtain rs w2 where "serve_webhooks B settings rest w1 = (rs, w2)" by fastforce
  with 2(1) [OF rw [symmetric]] 2(2) rw receive_webhook_publishes [OF rw] show ?case by auto
qed simp

text \<open>The publishes that succeeded.\<close>

fun sent_calls :: "bus_call list \<Rightarrow> publish_args list" where
  "sent_calls [] = []"
| "sent_calls (Published a (Inr _) # cs) = a # sent_calls cs"
| "sent_calls (_ # cs) = sent_calls cs"

lemma sent_calls_append [simp]: "sent_calls (cs @ ds) = sent_calls cs @ sent_calls ds"
  by (induction cs rule: sent_calls.induct) simp_all

definition ACCEPTED :: response where "ACCEPTED = \<lparr>rs_status = 202, rs_body = []\<rparr>"

text \<open>
  What one request leads to: a refused one leaves the world as it is; an authorised one is a
  single attempt to publish its write request, whose outcome is the answer.
\<close>

lemma receive_webhook_cases:
  assumes "receive_webhook B settings path request w = (answer, w')"
  obtains (refused) e where "authorised_body settings path request = None" "answer = Inl e" "w' = w"
  | (published) body r where "authorised_body settings path request = Some body"
      "w_calls w' = w_calls w @ [Published (webhook_args path body (wq_idempotency_key request)) r]"
      "answer = rmap (\<lambda>_. ACCEPTED) r"
proof (cases "authorised_body settings path request")
  case None
  with assms have "\<exists>e. answer = Inl e \<and> w' = w"
    by (auto simp: receive_webhook_def authorised_body_def compare_digest_def seq_def raise_def lift_res_def ret_def
        list_all_iff not_le [symmetric] split: option.splits sum.splits if_splits)
  with None refused show thesis by blast
next
  case (Some body)
  let ?a = "webhook_args path body (wq_idempotency_key request)"
  obtain r w1 where p: "b_publish B ?a w = (r, w1)" by fastforce
  from Some have s: "wq_secret request = Some (cfg_webhook_secret settings)" "path \<noteq> []" "wq_body request = Inr body"
    and a: "compare_digest (cfg_webhook_secret settings) (cfg_webhook_secret settings) = Inr True"
    by (auto simp: authorised_body_def compare_digest_same split: if_splits sum.splits)
  have "answer = rmap (\<lambda>_. ACCEPTED) r" "w' = w1"
    using assms s a p
    by (cases r; auto simp: receive_webhook_def seq_def lift_res_def ret_def ACCEPTED_def)+
  with Some b_publish_calls [OF p] published show thesis by blast
qed

text \<open>
  C18: over any sequence of requests the listener tries to publish exactly the write requests of
  those that are authorised (the right secret and a path), each once, in their order and with
  its idempotency key; a request is answered, by 202, exactly when its write request was sent; and a
  refused request gets an exception and leaves no trace.
\<close>

theorem webhooks_served:
  assumes "serve_webhooks B settings requests w = (answers, w')"
  shows "length answers = length requests
    \<and> publish_calls (w_calls w') = publish_calls (w_calls w) @
        [webhook_args path body (wq_idempotency_key request).
           (path, request) \<leftarrow> requests, Some body \<leftarrow> [authorised_body settings path request]]
    \<and> sent_calls (w_calls w') = sent_calls (w_calls w) @
        [webhook_args path body (wq_idempotency_key request).
           ((path, request), Inr _) \<leftarrow> zip requests answers, Some body \<leftarrow> [authorised_body settings path request]]
    \<and> length (w_calls w') = length (w_calls w) +
        length [request. (path, request) \<leftarrow> requests, authorised_body settings path request \<noteq> None]
    \<and> (\<forall>answer \<in> set answers. answer = Inr ACCEPTED \<or> isl answer)
    \<and> (\<forall>((path, request), answer) \<in> set (zip requests answers). authorised_body settings path request = None \<longrightarrow> isl answer)"
  using assms
proof (induction B settings requests w arbitrary: answers w' rule: serve_webhooks.induct)
  case (2 B settings path request rest w)
  obtain r1 w1 where rw: "receive_webhook B settings path request w = (r1, w1)" by fastforce
  obtain rs w2 where s: "serve_webhooks B settings rest w1 = (rs, w2)" by fastforce
  note IH = 2(1) [OF rw [symmetric] s]
  have eq: "answers = r1 # rs" "w' = w2" using 2(2) rw s by simp_all
  from rw show ?case
  proof (cases rule: receive_webhook_cases)
    case (refused e)
    with IH show ?thesis unfolding eq by auto
  next
    case (published body r)
    with IH show ?thesis unfolding eq by (cases r) (auto simp: ACCEPTED_def)
  qed
qed simp


definition demo_listener :: webhook_listener_settings where
  "demo_listener = adapter_settings.extend \<lparr>cfg_service_id = py ''hook'', cfg_nats_url = [], cfg_nats_creds_path = [],
     cfg_subjects = [], cfg_log_level = INFO\<rparr> (webhook_listener_settings.fields (py ''pw'') 8080)"

definition demo_posts :: "(pystr \<times> webhook_request) list" where
  "demo_posts = [(py ''a'', \<lparr>wq_secret = Some (py ''pw''), wq_idempotency_key = Some (py ''k''), wq_body = Inr [1, 2]\<rparr>),
     (py ''b'', \<lparr>wq_secret = Some (py ''no''), wq_idempotency_key = None, wq_body = Inr [3]\<rparr>)]"

theorem webhooks_served_witness:
  "let (answers, w) = serve_webhooks calm_bus demo_listener demo_posts \<lparr>w_client = (), w_calls = [], w_tick = 0\<rparr> in
     hd answers = Inr ACCEPTED \<and> isl (last answers)
     \<and> sent_calls (w_calls w) = [webhook_args (py ''a'') [1, 2] (Some (py ''k''))] \<and> length (w_calls w) = 1"
proof -
  let ?run = "serve_webhooks calm_bus demo_listener demo_posts \<lparr>w_client = (), w_calls = [], w_tick = 0\<rparr>"
  obtain answers w where run: "?run = (answers, w)" by fastforce
  have secret: "cfg_webhook_secret demo_listener = py ''pw''"
    by (simp add: demo_listener_def adapter_settings.defs webhook_listener_settings.defs)
  have ok: "authorised_body demo_listener (py ''a'') (snd (hd demo_posts)) = Some [1, 2]"
    and bad: "authorised_body demo_listener (py ''b'') (snd (last demo_posts)) = None"
    by (simp_all add: authorised_body_def demo_posts_def secret py_def)
  have "hd answers = Inr ACCEPTED"
    using run by (auto simp: demo_posts_def receive_webhook_def secret compare_digest_def seq_def lift_res_def ret_def
        b_publish_def via_def calm_bus_def ACCEPTED_def py_def split: prod.splits)
  moreover from webhooks_served [OF run] obtain x y where "answers = [x, y]"
    by (auto simp: demo_posts_def length_Suc_conv numeral_2_eq_2)
  ultimately show ?thesis
    using webhooks_served [OF run] ok bad unfolding run prod.case Let_def
    by (auto simp: demo_posts_def split: sum.splits)
qed


end
