(* ===== verification/Rest_Api.thy ===== *)
theory Rest_Api
  imports Webhook_Listener
begin

text \<open>
  The REST API service: \<open>rest_api_service/pending_replies.py\<close> and \<open>app.py\<close>. The futures of the
  event loop are a list, named by position. \<open>create_order\<close> is two steps, up to the wait and
  after it, because the reply watcher runs in between; the requests in flight and the watcher
  together are a step relation, on which the correlation of replies is an invariant. The
  running service, which refines it, is in \<open>Rest_Service\<close>.
\<close>

section \<open>\<open>PendingReplies\<close>\<close>

datatype future = Pending | Done received_event | Cancelled

record pending_replies =
  pr_pending :: "(pystr, nat) pydict"
  pr_futures :: "future list"

definition pending_replies_init :: pending_replies where
  "pending_replies_init = \<lparr>pr_pending = dict_empty, pr_futures = []\<rparr>"

definition pr_register :: "pystr \<Rightarrow> pending_replies \<Rightarrow> nat \<times> pending_replies" where
  "pr_register correlation p =
     (let future = length (pr_futures p) in
      (future, p\<lparr>pr_futures := pr_futures p @ [Pending], pr_pending := dict_set correlation future (pr_pending p)\<rparr>))"

definition pr_unregister :: "pystr \<Rightarrow> pending_replies \<Rightarrow> pending_replies" where
  "pr_unregister correlation p = p\<lparr>pr_pending := dict_pop correlation (pr_pending p)\<rparr>"

definition pr_resolve :: "received_event \<Rightarrow> pending_replies \<Rightarrow> bool \<times> pending_replies" where
  "pr_resolve ev p =
     (case correlation_id (details ev) of
        None \<Rightarrow> (False, p)
      | Some c \<Rightarrow>
        (case dict_get (pr_pending p) c of
           None \<Rightarrow> (False, p)
         | Some f \<Rightarrow>
           (if pr_futures p ! f \<noteq> Pending then (False, p)
            else (True, p\<lparr>pr_futures := (pr_futures p)[f := Done ev]\<rparr>))))"

section \<open>The reply watcher\<close>

record 'c rest_world = "'c world" +
  w_replies :: pending_replies

definition resolve_reply :: "received_event \<Rightarrow> ('c rest_world, bool) comp" where
  "resolve_reply ev w = (case pr_resolve ev (w_replies w) of (b, p) \<Rightarrow> (Inr b, w\<lparr>w_replies := p\<rparr>))"

definition reply_handle :: "'c bus \<Rightarrow> received_event \<Rightarrow> ('c rest_world, unit) comp" where
  "reply_handle B ev = seq (resolve_reply ev) (\<lambda>_. b_ack B ev)"

definition run_reply_watcher ::
  "'c bus \<Rightarrow> pystr \<Rightarrow> nat \<Rightarrow> bool list \<Rightarrow> 'c rest_world \<Rightarrow> unit res option \<times> 'c rest_world" where
  "run_reply_watcher B durable_name batch shutdown = run_command_loop B (reply_handle B) durable_name batch shutdown"

section \<open>\<open>create_order\<close>\<close>

definition REST_ORDER_CREATED_SUBJECT :: pystr where
  "REST_ORDER_CREATED_SUBJECT = py ''events.orders.OrderCreated''"
definition REST_ORDER_PERSISTED_SUBJECT :: pystr where
  "REST_ORDER_PERSISTED_SUBJECT = py ''events.orders.OrderPersisted''"
definition REST_ADAPTER_TYPE :: pystr where "REST_ADAPTER_TYPE = py ''rest-api-service''"

record order_call =
  oc_body :: "bytes res"
  oc_wait :: int
  oc_idempotency_key :: "pystr option"

record waiting =
  wt_event_id :: pystr
  wt_future :: nat
  wt_timeout :: int

definition order_args :: "bytes \<Rightarrow> pystr option \<Rightarrow> publish_args" where
  "order_args body key = \<lparr>pa_subject = REST_ORDER_CREATED_SUBJECT, pa_payload = body,
     pa_event_type = py ''OrderCreated'', pa_correlation_id = None, pa_msg_id = key\<rparr>"

definition accepted_response :: "pystr \<Rightarrow> response" where
  "accepted_response eid = \<lparr>rs_status = 202, rs_body = json_bytes (JDict [(py ''eventId'', JStr eid)])\<rparr>"

definition timeout_response :: "pystr \<Rightarrow> response" where
  "timeout_response eid = \<lparr>rs_status = 504, rs_body = json_bytes (JDict
     [(py ''eventId'', JStr eid), (py ''error'', JStr (py ''timeout waiting for reply''))])\<rparr>"

text \<open>
  Up to the wait there are two steps, because the watcher may run while \<open>publish\<close> is awaited: the
  order is published; and when \<open>publish\<close> has returned, there is an immediate answer, or a future
  is registered, with the capped timeout.
\<close>

definition publish_order :: "'c bus \<Rightarrow> order_call \<Rightarrow> ('c rest_world, pystr) comp" where
  "publish_order B call =
     seq (lift_res (oc_body call)) (\<lambda>body. b_publish B (order_args body (oc_idempotency_key call)))"

definition answer_or_wait :: "rest_api_settings \<Rightarrow> order_call \<Rightarrow> pystr \<Rightarrow> ('c rest_world, response + waiting) comp" where
  "answer_or_wait settings call eid =
     (if oc_wait call \<le> 0 then ret (Inl (accepted_response eid))
      else (\<lambda>w.
        case pr_register eid (w_replies w) of (future, p) \<Rightarrow>
        (Inr (Inr \<lparr>wt_event_id = eid, wt_future = future,
                  wt_timeout = min (oc_wait call) (cfg_default_reply_timeout settings)\<rparr>),
         w\<lparr>w_replies := p\<rparr>)))"

definition create_order ::
  "'c bus \<Rightarrow> rest_api_settings \<Rightarrow> order_call \<Rightarrow> ('c rest_world, response + waiting) comp" where
  "create_order B settings call = seq (publish_order B call) (answer_or_wait settings call)"

lemmas create_order_defs = create_order_def publish_order_def answer_or_wait_def

text \<open>
  After the wait: \<open>wait_for\<close> gives the result of a future that is done; on a timeout it cancels
  a pending one. The registration is removed either way.
\<close>

definition finish_wait :: "pystr \<Rightarrow> nat \<Rightarrow> pending_replies \<Rightarrow> response \<times> pending_replies" where
  "finish_wait eid future p =
     (case pr_futures p ! future of
        Done ev \<Rightarrow> (\<lparr>rs_status = 200, rs_body = re_payload ev\<rparr>, pr_unregister eid p)
      | _ \<Rightarrow> (timeout_response eid,
             pr_unregister eid (p\<lparr>pr_futures := (pr_futures p)[future := Cancelled]\<rparr>)))"

text \<open>
  A wait that is cancelled itself, which the server does to what is still running when it shuts
  down: a pending future is cancelled with it, and the \<open>finally\<close> removes the registration.
\<close>

definition cancel_wait :: "pystr \<Rightarrow> nat \<Rightarrow> pending_replies \<Rightarrow> pending_replies" where
  "cancel_wait eid future p = pr_unregister eid
     (if pr_futures p ! future = Pending then p\<lparr>pr_futures := (pr_futures p)[future := Cancelled]\<rparr> else p)"

definition rest_healthz :: json where
  "rest_healthz = JDict [(py ''status'', JStr (py ''ok''))]"

text \<open>
  \<open>lifespan\<close>: an injected client is used as it is; otherwise connect, subscribe under the durable
  name, serve with the watcher, then await the cancelled watcher and close. \<open>serve\<close> is what
  happens while the application runs, and says how the watcher task had ended by then: the
  exception that killed it, if any.
\<close>

definition reply_durable :: "pystr \<Rightarrow> pystr" where
  "reply_durable service_id = service_id @ py ''-'' @
     map (\<lambda>c. if c = of_char (CHR ''.'') then of_char (CHR ''_'') else c) REST_ORDER_PERSISTED_SUBJECT"

definition rest_lifespan ::
  "('n, 'i, 'r, 'k) bus_env \<Rightarrow> adapter_settings \<Rightarrow> bytes res \<Rightarrow> nat \<Rightarrow> 'n bus_client option
   \<Rightarrow> ('n bus_client \<Rightarrow> ('a res \<times> exn option) \<times> 'n bus_client) \<Rightarrow> ('n, 'a) comp" where
  "rest_lifespan V settings creds entropy injected serve n =
     (case injected of
        Some b \<Rightarrow> (case serve b of ((r, _), b') \<Rightarrow> (r, bc_nats b'))
      | None \<Rightarrow>
        (case connect_as_adapter V settings REST_ADAPTER_TYPE creds entropy n of
           (Inl e, n') \<Rightarrow> (Inl e, n')
         | (Inr client, n') \<Rightarrow>
           (case subscribe V REST_ORDER_PERSISTED_SUBJECT (Some (reply_durable (cfg_service_id settings))) client of
              (Inl e, b) \<Rightarrow> (Inl e, bc_nats b)
            | (Inr _, b) \<Rightarrow>
              (case serve b of
                 ((r, Some e), b') \<Rightarrow>
                   if e \<noteq> CancelledErr then (Inl e, bc_nats b')
                   else (case close V b' of (Inl e', b'') \<Rightarrow> (Inl e', bc_nats b'') | (Inr _, b'') \<Rightarrow> (r, bc_nats b''))
               | ((r, None), b') \<Rightarrow>
                   (case close V b' of (Inl e', b'') \<Rightarrow> (Inl e', bc_nats b'') | (Inr _, b'') \<Rightarrow> (r, bc_nats b''))))))"

text \<open>
  The watcher task of \<open>run_reply_watcher\<close> has no handler of its own: once it has died, leaving the
  lifespan raises its exception in place of closing the client.
\<close>

lemma watcher_failure_skips_close:
  assumes "connect_as_adapter V settings REST_ADAPTER_TYPE creds entropy n = (Inr client, n')"
    and "subscribe V REST_ORDER_PERSISTED_SUBJECT (Some (reply_durable (cfg_service_id settings))) client = (Inr d, b)"
    and "serve b = ((r, Some e), b')" and "e \<noteq> CancelledErr"
  shows "rest_lifespan V settings creds entropy None serve n = (Inl e, bc_nats b')"
  using assms by (simp add: rest_lifespan_def)

section \<open>The watcher meets the contract\<close>

lemma silent_resolve [settling_intros]: "silent (resolve_reply ev)"
  by (auto simp: silent_def resolve_reply_def split: prod.splits)

interpretation reply_cmd: command_handler "reply_handle B" for B
  by (rule command_handlerI) (unfold reply_handle_def, intro settling_silent silent_resolve settling_ack)

section \<open>Requests in flight\<close>

text \<open>
  A request that waits: its event id, its future and, once it is over, its response or the
  cancellation. A step is a new waiting request, a reply at the watcher, the end of a wait or
  its cancellation.
\<close>

record flight =
  fl_event_id :: pystr
  fl_future :: nat
  fl_response :: "response res option"

record rest_state =
  st_replies :: pending_replies
  st_flights :: "flight list"

definition rest_init :: rest_state where
  "rest_init = \<lparr>st_replies = pending_replies_init, st_flights = []\<rparr>"

inductive rest_step :: "rest_state \<Rightarrow> rest_state \<Rightarrow> bool" where
  wait: "pr_register eid (st_replies s) = (f, p) \<Longrightarrow>
    rest_step s (s\<lparr>st_replies := p, st_flights := st_flights s @ [\<lparr>fl_event_id = eid, fl_future = f, fl_response = None\<rparr>]\<rparr>)"
| reply: "pr_resolve ev (st_replies s) = (found, p) \<Longrightarrow> rest_step s (s\<lparr>st_replies := p\<rparr>)"
| finish: "i < length (st_flights s) \<Longrightarrow> fl_response (st_flights s ! i) = None \<Longrightarrow>
    finish_wait (fl_event_id (st_flights s ! i)) (fl_future (st_flights s ! i)) (st_replies s) = (resp, p) \<Longrightarrow>
    rest_step s (s\<lparr>st_replies := p, st_flights := (st_flights s)[i := (st_flights s ! i)\<lparr>fl_response := Some (Inr resp)\<rparr>]\<rparr>)"
| cancel: "i < length (st_flights s) \<Longrightarrow> fl_response (st_flights s ! i) = None \<Longrightarrow>
    p = cancel_wait (fl_event_id (st_flights s ! i)) (fl_future (st_flights s ! i)) (st_replies s) \<Longrightarrow>
    rest_step s (s\<lparr>st_replies := p, st_flights := (st_flights s)[i := (st_flights s ! i)\<lparr>fl_response := Some (Inl CancelledErr)\<rparr>]\<rparr>)"

inductive rest_reachable :: "rest_state \<Rightarrow> bool" where
  start: "rest_reachable rest_init"
| step: "rest_reachable s \<Longrightarrow> rest_step s t \<Longrightarrow> rest_reachable t"

inductive_cases rest_stepE: "rest_step s t"

text \<open>
  The invariant: futures belong to one flight each; a done future holds a reply to its
  flight's event; every registration leads to the future of an unanswered flight with that
  event id; and a flight that is over says what its future says.
\<close>

definition flight_ok :: "pending_replies \<Rightarrow> flight \<Rightarrow> bool" where
  "flight_ok p fl \<longleftrightarrow> fl_future fl < length (pr_futures p) \<and>
     (\<forall>ev. pr_futures p ! fl_future fl = Done ev \<longrightarrow> correlation_id (details ev) = Some (fl_event_id fl)) \<and>
     (case fl_response fl of
        None \<Rightarrow> pr_futures p ! fl_future fl \<noteq> Cancelled
      | Some (Inl e) \<Rightarrow> pr_futures p ! fl_future fl \<noteq> Pending
      | Some (Inr r) \<Rightarrow> (case pr_futures p ! fl_future fl of
            Done ev \<Rightarrow> r = \<lparr>rs_status = 200, rs_body = re_payload ev\<rparr>
          | Cancelled \<Rightarrow> r = timeout_response (fl_event_id fl)
          | Pending \<Rightarrow> False))"

definition rest_inv :: "rest_state \<Rightarrow> bool" where
  "rest_inv s \<longleftrightarrow>
     dict_ok (pr_pending (st_replies s)) \<and>
     map fl_future (st_flights s) = [0..<length (pr_futures (st_replies s))] \<and>
     (\<forall>fl \<in> set (st_flights s). flight_ok (st_replies s) fl) \<and>
     (\<forall>c f. dict_get (pr_pending (st_replies s)) c = Some f \<longrightarrow>
        (\<exists>fl \<in> set (st_flights s). fl_future fl = f \<and> fl_event_id fl = c \<and> fl_response fl = None))"

lemma dict_ok_pop_register:
  "dict_ok (pr_pending p) \<Longrightarrow> dict_ok (pr_pending (snd (pr_register c p)))"
  "dict_ok (pr_pending p) \<Longrightarrow> dict_ok (pr_pending (pr_unregister c p))"
  by (simp_all add: pr_register_def pr_unregister_def Let_def)

lemma rest_init_inv: "rest_inv rest_init"
  by (simp add: rest_inv_def rest_init_def pending_replies_init_def)

lemma flight_at:
  assumes "rest_inv s" and "i < length (st_flights s)"
  shows "fl_future (st_flights s ! i) = i \<and> i < length (pr_futures (st_replies s))
    \<and> flight_ok (st_replies s) (st_flights s ! i)"
proof -
  have m: "map fl_future (st_flights s) = [0..<length (pr_futures (st_replies s))]"
    using assms(1) by (simp add: rest_inv_def)
  then have len: "length (st_flights s) = length (pr_futures (st_replies s))"
    by (metis length_map length_upt minus_nat.diff_0)
  from m assms(2) have "fl_future (st_flights s ! i) = [0..<length (pr_futures (st_replies s))] ! i"
    by (metis nth_map)
  with assms len show ?thesis by (simp add: rest_inv_def)
qed

lemma inv_wait:
  assumes inv: "rest_inv s" and reg: "pr_register eid (st_replies s) = (f, p)"
  shows "rest_inv (s\<lparr>st_replies := p, st_flights := st_flights s @ [\<lparr>fl_event_id = eid, fl_future = f, fl_response = None\<rparr>]\<rparr>)"
proof -
  let ?q = "st_replies s"
  have f: "f = length (pr_futures ?q)" and p: "pr_futures p = pr_futures ?q @ [Pending]"
    "pr_pending p = dict_set eid f (pr_pending ?q)"
    using reg by (auto simp: pr_register_def Let_def)
  have old: "flight_ok p fl" if "flight_ok ?q fl" for fl
    using that p by (auto simp: flight_ok_def nth_append split: option.splits future.splits sum.splits)
  have new: "flight_ok p \<lparr>fl_event_id = eid, fl_future = f, fl_response = None\<rparr>"
    using f p by (simp add: flight_ok_def)
  show ?thesis
    using inv f p old new unfolding rest_inv_def by (auto simp: dict_simps split: if_splits)
qed

lemma inv_reply:
  assumes inv: "rest_inv s" and res: "pr_resolve ev (st_replies s) = (found, p)"
  shows "rest_inv (s\<lparr>st_replies := p\<rparr>)"
proof (cases found)
  case False
  with res have "p = st_replies s" by (auto simp: pr_resolve_def split: option.splits if_splits)
  with inv show ?thesis by simp
next
  case True
  with res obtain c f where c: "correlation_id (details ev) = Some c" and f: "dict_get (pr_pending (st_replies s)) c = Some f"
    and pend: "pr_futures (st_replies s) ! f = Pending"
    and p: "p = (st_replies s)\<lparr>pr_futures := (pr_futures (st_replies s))[f := Done ev]\<rparr>"
    by (auto simp: pr_resolve_def split: option.splits if_splits)
  from inv f obtain fl where fl: "fl \<in> set (st_flights s)" "fl_future fl = f" "fl_event_id fl = c"
    unfolding rest_inv_def by blast
  have ok: "flight_ok p g" if g: "g \<in> set (st_flights s)" for g
  proof -
    from g obtain i where i: "i < length (st_flights s)" "st_flights s ! i = g" by (auto simp: in_set_conv_nth)
    from fl(1) obtain j where j: "j < length (st_flights s)" "st_flights s ! j = fl" by (auto simp: in_set_conv_nth)
    note gi = flight_at [OF inv i(1), unfolded i(2)] and fj = flight_at [OF inv j(1), unfolded j(2)]
    show ?thesis
    proof (cases "i = f")
      case True
      with gi fj fl i j have "g = fl" by auto
      with gi fj fl c pend p show ?thesis by (auto simp: flight_ok_def split: option.splits sum.splits)
    next
      case False
      with gi p show ?thesis by (auto simp: flight_ok_def split: option.splits future.splits sum.splits)
    qed
  qed
  with inv p show ?thesis by (simp add: rest_inv_def)
qed

text \<open>The end of a flight, whatever ended it: its registration goes, and at most its own future changes.\<close>

lemma inv_end:
  assumes inv: "rest_inv s" and i: "i < length (st_flights s)"
    and pend: "pr_pending p = dict_pop (fl_event_id (st_flights s ! i)) (pr_pending (st_replies s))"
    and fut: "pr_futures p = pr_futures (st_replies s) \<or> pr_futures p = (pr_futures (st_replies s))[i := Cancelled]"
    and over: "flight_ok p ((st_flights s ! i)\<lparr>fl_response := Some resp\<rparr>)"
  shows "rest_inv (s\<lparr>st_replies := p, st_flights := (st_flights s)[i := (st_flights s ! i)\<lparr>fl_response := Some resp\<rparr>]\<rparr>)"
proof -
  let ?q = "st_replies s" and ?fl = "st_flights s ! i"
  let ?fls = "(st_flights s)[i := ?fl\<lparr>fl_response := Some resp\<rparr>]"
  have same: "map fl_future ?fls = map fl_future (st_flights s)"
    using i by (simp add: map_update) (metis length_map list_update_id nth_map)
  have ok: "flight_ok p (?fls ! j)" if j: "j < length (st_flights s)" for j
  proof (cases "j = i")
    case True
    with over i show ?thesis by simp
  next
    case False
    with flight_at [OF inv j] fut show ?thesis by (auto simp: flight_ok_def split: option.splits future.splits sum.splits)
  qed
  have ptr: "\<exists>fl \<in> set ?fls. fl_future fl = f \<and> fl_event_id fl = c \<and> fl_response fl = None"
    if g: "dict_get (pr_pending p) c = Some f" for c f
  proof -
    from g pend have c: "c \<noteq> fl_event_id ?fl" and "dict_get (pr_pending ?q) c = Some f"
      by (auto simp: dict_simps split: if_splits)
    with inv obtain fl where fl: "fl \<in> set (st_flights s)" "fl_future fl = f" "fl_event_id fl = c" "fl_response fl = None"
      unfolding rest_inv_def by blast
    then obtain j where j: "j < length (st_flights s)" "st_flights s ! j = fl" by (auto simp: in_set_conv_nth)
    with c fl have "j \<noteq> i" by auto
    with j have "?fls ! j = fl" "j < length ?fls" by simp_all
    then have "fl \<in> set ?fls" by (metis nth_mem)
    with fl show ?thesis by blast
  qed
  have "length (pr_futures p) = length (pr_futures ?q)" using fut by auto
  moreover have "\<forall>fl \<in> set ?fls. flight_ok p fl" using ok by (auto simp: in_set_conv_nth)
  moreover have "dict_ok (pr_pending p)" using inv pend by (simp add: rest_inv_def)
  ultimately show ?thesis using inv same ptr by (simp add: rest_inv_def)
qed

lemma inv_finish:
  assumes inv: "rest_inv s" and i: "i < length (st_flights s)" and none: "fl_response (st_flights s ! i) = None"
    and fin: "finish_wait (fl_event_id (st_flights s ! i)) (fl_future (st_flights s ! i)) (st_replies s) = (resp, p)"
  shows "rest_inv (s\<lparr>st_replies := p, st_flights := (st_flights s)[i := (st_flights s ! i)\<lparr>fl_response := Some (Inr resp)\<rparr>]\<rparr>)"
  by (rule inv_end [OF inv i])
     (use fin flight_at [OF inv i] none in \<open>auto simp: finish_wait_def pr_unregister_def flight_ok_def split: future.splits\<close>)

lemma inv_cancel:
  assumes inv: "rest_inv s" and i: "i < length (st_flights s)" and none: "fl_response (st_flights s ! i) = None"
    and p: "p = cancel_wait (fl_event_id (st_flights s ! i)) (fl_future (st_flights s ! i)) (st_replies s)"
  shows "rest_inv (s\<lparr>st_replies := p, st_flights := (st_flights s)[i := (st_flights s ! i)\<lparr>fl_response := Some (Inl CancelledErr)\<rparr>]\<rparr>)"
  by (rule inv_end [OF inv i])
     (use p flight_at [OF inv i] none in \<open>auto simp: cancel_wait_def pr_unregister_def flight_ok_def split: if_splits\<close>)

lemma rest_step_inv: "rest_step s t \<Longrightarrow> rest_inv s \<Longrightarrow> rest_inv t"
  by (erule rest_stepE) (auto intro: inv_wait inv_reply inv_finish inv_cancel)

lemma rest_reachable_inv: "rest_reachable s \<Longrightarrow> rest_inv s"
  by (induction rule: rest_reachable.induct) (auto intro: rest_init_inv rest_step_inv)

section \<open>Properties\<close>

text \<open>
  Replies are never mixed up: whatever requests wait and whatever replies arrive, in any
  order, a waiting request is answered either with its timeout or with the payload of the reply
  its future holds, whose correlation id is the id of the event this request published.
\<close>

lemma reply_correlates:
  assumes "rest_reachable s" and "fl \<in> set (st_flights s)" and "fl_response fl = Some (Inr r)"
  shows "r = timeout_response (fl_event_id fl)
    \<or> (\<exists>ev. Done ev \<in> set (pr_futures (st_replies s)) \<and> correlation_id (details ev) = Some (fl_event_id fl)
         \<and> r = \<lparr>rs_status = 200, rs_body = re_payload ev\<rparr>)"
proof -
  from rest_reachable_inv [OF assms(1)] assms(2) have "flight_ok (st_replies s) fl" by (simp add: rest_inv_def)
  with assms(3) show ?thesis by (auto simp: flight_ok_def split: future.splits) (metis nth_mem)
qed

text \<open>
  No registration outlives its request: once every request in flight is over, by a reply, by its
  timeout or by a cancellation, no entry is left behind.
\<close>

lemma over_leaves_nothing:
  assumes "rest_reachable s" and "list_all (\<lambda>fl. fl_response fl \<noteq> None) (st_flights s)"
  shows "pr_pending (st_replies s) = []"
proof (rule ccontr)
  assume "pr_pending (st_replies s) \<noteq> []"
  then obtain c f rest where "pr_pending (st_replies s) = (c, f) # rest" by (cases "pr_pending (st_replies s)") auto
  then have "dict_get (pr_pending (st_replies s)) c = Some f" by (simp add: dict_get_def)
  with rest_reachable_inv [OF assms(1)] obtain fl where "fl \<in> set (st_flights s)" "fl_response fl = None"
    unfolding rest_inv_def by blast
  with assms(2) show False by (auto simp: list_all_iff)
qed

definition demo_reply :: received_event where
  "demo_reply = (plain_event [111, 107])\<lparr>re_event := \<lparr>ev_event = (ev_event (re_event (plain_event [])))
     \<lparr>ee_details := (ee_details (ev_event (re_event (plain_event []))))\<lparr>correlation_id := Some (py ''e1'')\<rparr>\<rparr>\<rparr>\<rparr>"

lemma demo_reply_simps: "correlation_id (details demo_reply) = Some (py ''e1'')" "re_payload demo_reply = [111, 107]"
  by (simp_all add: demo_reply_def details_def plain_event_def)

text \<open>
  A reply that the watcher sees before the request is registered is lost to it: the
  request waits and times out; and of two requests waiting for the same event, which two
  retries with one idempotency key are, only the later one is answered.
\<close>

lemma early_and_shared_replies_lost:
  assumes "correlation_id (details ev) = Some c" and "dict_get (pr_pending p) c = None"
  shows "(case pr_register c (snd (pr_resolve ev p)) of (f, q) \<Rightarrow> fst (finish_wait c f q) = timeout_response c)
    \<and> (case pr_register c p of (f, q) \<Rightarrow> case pr_register c q of (g, q') \<Rightarrow>
        fst (finish_wait c f (snd (pr_resolve ev q'))) = timeout_response c
        \<and> fst (finish_wait c g (snd (pr_resolve ev q'))) = \<lparr>rs_status = 200, rs_body = re_payload ev\<rparr>)"
  using assms
  by (simp add: pr_register_def pr_resolve_def Let_def finish_wait_def dict_simps nth_append)

lemma early_and_shared_replies_lost_witness:
  "(case pr_register (py ''e1'') (snd (pr_resolve demo_reply pending_replies_init)) of
      (f, q) \<Rightarrow> fst (finish_wait (py ''e1'') f q) = timeout_response (py ''e1''))"
  using early_and_shared_replies_lost [of demo_reply "py ''e1''" pending_replies_init]
  by (simp add: demo_reply_simps pending_replies_init_def del: split_paired_All)

end
