(* ===== verification/Entrypoints.thy ===== *)
theory Entrypoints
  imports Fs_Watch Db_Adapter Http_Adapters Rest_Api
begin

text \<open>
  The entrypoints of the adapters (\<open>__main__.py\<close> and \<open>db.py\<close>): which handlers they start,
  under which durable names, and how the loops share the client. \<open>asyncio.gather\<close> runs the
  loops concurrently; here a schedule says whose turn is next, and a turn is one pass of a
  loop (one \<open>run_once\<close>, one batch of changes, one row event). The schedule ends at the
  shutdown; the first exception ends the run.
\<close>

section \<open>Loops in turns\<close>

type_synonym ('c, 'z) command_loop = "pystr \<times> (received_event \<Rightarrow> (('c, 'z) world_scheme, unit) comp)"

definition FETCH_BATCH :: nat where "FETCH_BATCH = 10"

definition loop_turn :: "'c bus \<Rightarrow> ('c, 'z) command_loop list \<Rightarrow> nat \<Rightarrow> (('c, 'z) world_scheme, unit) comp" where
  "loop_turn B loops i =
     (if i < length loops then
        (case loops ! i of (durable, handle) \<Rightarrow> seq (run_once B handle durable FETCH_BATCH) (\<lambda>_. ret ()))
      else ret ())"

definition run_loops :: "'c bus \<Rightarrow> ('c, 'z) command_loop list \<Rightarrow> nat list \<Rightarrow> (('c, 'z) world_scheme, unit) comp" where
  "run_loops B loops turns = for_each (loop_turn B loops) turns"

definition replace_dots :: "pystr \<Rightarrow> pystr" where
  "replace_dots s = map (\<lambda>c. if c = of_char (CHR ''.'') then of_char (CHR ''_'') else c) s"

section \<open>\<open>http_adapter\<close> and \<open>webhook_sender\<close>\<close>

text \<open>
  One loop per subject, each running from the moment its handler has started, while the next
  one starts: \<open>turns n\<close> are the turns taken while \<open>n\<close> loops run.
\<close>

fun serve ::
  "'c bus \<Rightarrow> ('c, 'z) command_loop list
   \<Rightarrow> (pystr \<times> (('c, 'z) world_scheme, pystr) comp \<times> (received_event \<Rightarrow> (('c, 'z) world_scheme, unit) comp)) list
   \<Rightarrow> (nat \<Rightarrow> nat list) \<Rightarrow> (('c, 'z) world_scheme, unit) comp" where
  "serve B started [] turns w = run_loops B started (turns (length started)) w"
| "serve B started ((durable, start, handle) # rest) turns w =
     seq (run_loops B started (turns (length started))) (\<lambda>_.
     seq start (\<lambda>_. serve B (started @ [(durable, handle)]) rest turns)) w"

definition trigger_durable :: "pystr \<Rightarrow> pystr \<Rightarrow> pystr" where
  "trigger_durable sid subject = sid @ py ''-trigger-'' @ replace_dots subject"

definition run_http_adapter ::
  "'c bus \<Rightarrow> host \<Rightarrow> 'h http_client \<Rightarrow> http_adapter_settings \<Rightarrow> (nat \<Rightarrow> nat list) \<Rightarrow> (('c, 'h) http_world, unit) comp" where
  "run_http_adapter B H C settings turns =
     serve B [] (map (\<lambda>subject.
       let T = \<lparr>th_subject = subject, th_target_base_url = cfg_target_base_url settings,
                th_auth_token = cfg_auth_token settings\<rparr>;
           durable = trigger_durable (cfg_service_id settings) subject
       in (durable, trigger_start B T (Some durable), trigger_handle B H C T)) (cfg_subjects settings)) turns"

definition relay_durable :: "pystr \<Rightarrow> pystr \<Rightarrow> pystr" where
  "relay_durable sid subject = sid @ py ''-relay-'' @ replace_dots subject"

definition run_webhook_sender ::
  "'c bus \<Rightarrow> 'h http_client \<Rightarrow> webhook_sender_settings \<Rightarrow> (nat \<Rightarrow> nat list) \<Rightarrow> (('c, 'h) http_world, unit) comp" where
  "run_webhook_sender B C settings turns =
     serve B [] (map (\<lambda>subject.
       let R = \<lparr>rh_subject = subject, rh_target_url = cfg_target_url settings,
                rh_outbound_secret = cfg_outbound_secret settings\<rparr>;
           durable = relay_durable (cfg_service_id settings) subject
       in (durable, relay_start B R (Some durable), relay_handle B C R)) (cfg_subjects settings)) turns"

section \<open>\<open>file_storage_adapter\<close>\<close>

definition file_loops :: "'c bus \<Rightarrow> host \<Rightarrow> path \<Rightarrow> pystr \<Rightarrow> (pystr \<times> (received_event \<Rightarrow> ('c fs_world, unit) comp)) list" where
  "file_loops B H watch_dir sid =
     [(sid @ py ''-write-handler'', write_handle B H watch_dir True),
      (sid @ py ''-read-handler'', read_handle B H watch_dir),
      (sid @ py ''-list-handler'', list_handle B H watch_dir),
      (sid @ py ''-delete-handler'', delete_handle B H watch_dir)]"

definition file_starts :: "'c bus \<Rightarrow> pystr \<Rightarrow> ('c fs_world, unit) comp" where
  "file_starts B sid =
     seq (write_start B (Some (sid @ py ''-write-handler''))) (\<lambda>_.
     seq (read_start B (Some (sid @ py ''-read-handler''))) (\<lambda>_.
     seq (list_start B (Some (sid @ py ''-list-handler''))) (\<lambda>_.
     seq (delete_start B (Some (sid @ py ''-delete-handler''))) (\<lambda>_. ret ()))))"

text \<open>A turn of a command loop, or a batch of changes from the watch.\<close>

datatype file_turn = CommandTurn nat | WatchTurn "fs_change list"

definition file_turn_step :: "'c bus \<Rightarrow> host \<Rightarrow> path \<Rightarrow> pystr \<Rightarrow> file_turn \<Rightarrow> ('c fs_world, unit) comp" where
  "file_turn_step B H watch_dir sid t = (case t of
     CommandTurn i \<Rightarrow> loop_turn B (file_loops B H watch_dir sid) i
   | WatchTurn chs \<Rightarrow> run_forever B H watch_dir [chs])"

definition run_file_storage :: "'c bus \<Rightarrow> host \<Rightarrow> path \<Rightarrow> pystr \<Rightarrow> file_turn list \<Rightarrow> ('c fs_world, unit) comp" where
  "run_file_storage B H watch_dir sid turns =
     seq (\<lambda>w. (Inr (), w\<lparr>w_recent := recent_writes_init DEFAULT_TTL\<rparr>)) (\<lambda>_.
     seq (file_starts B sid) (\<lambda>_. for_each (file_turn_step B H watch_dir sid) turns))"

section \<open>\<open>db_adapter_mysql\<close>\<close>

definition write_engine_url :: "db_adapter_settings \<Rightarrow> pystr" where
  "write_engine_url s = py ''mysql+asyncmy://'' @ cfg_mysql_write_user s @ py '':'' @ cfg_mysql_write_password s
     @ py ''@'' @ cfg_mysql_host s @ py '':'' @ int_str (cfg_mysql_port s) @ py ''/'' @ cfg_mysql_database s"

text \<open>
  What the binlog reader of the change stream is opened with. The reader is a parameter from these
  arguments to the row events each pass over it yields; \<open>CdcWatcher.run\<close> runs the stream on them.
\<close>

definition CDC_SERVER_ID :: nat where "CDC_SERVER_ID = 100"

datatype row_event_kind = WriteRowsKind | UpdateRowsKind | DeleteRowsKind

record reader_args =
  ra_host :: pystr
  ra_port :: int
  ra_user :: pystr
  ra_passwd :: pystr
  ra_server_id :: nat
  ra_blocking :: bool
  ra_only_events :: "row_event_kind list"
  ra_only_tables :: "pystr list"
  ra_only_schemas :: "pystr list"

definition stream_reader :: "db_adapter_settings \<Rightarrow> reader_args" where
  "stream_reader s = \<lparr>ra_host = cfg_mysql_host s, ra_port = cfg_mysql_port s, ra_user = cfg_mysql_cdc_user s,
     ra_passwd = cfg_mysql_cdc_password s, ra_server_id = CDC_SERVER_ID, ra_blocking = False,
     ra_only_events = [WriteRowsKind, UpdateRowsKind, DeleteRowsKind], ra_only_tables = [py ''orders''],
     ra_only_schemas = [cfg_mysql_database s]\<rparr>"

definition cdc_watcher_run ::
  "'c bus \<Rightarrow> (reader_args \<Rightarrow> row_event list list) \<Rightarrow> db_adapter_settings \<Rightarrow> (nat \<Rightarrow> bool) \<Rightarrow> ('c, 'z) world_scheme
   \<Rightarrow> unit res option \<times> stream_state \<times> ('c, 'z) world_scheme" where
  "cdc_watcher_run B reader settings stop_at = run_stream B stop_at (reader (stream_reader settings))"

text \<open>
  \<open>create_async_engine\<close> is a parameter from the URL to an engine. A turn is a pass of the write
  loop or a row event of the change stream, which runs on its own thread; the bridge passes the
  shutdown on to it, so both end with the schedule.
\<close>

datatype db_turn = OrderTurn | StreamTurn row_event

definition db_turn_step ::
  "'c bus \<Rightarrow> host \<Rightarrow> 'd engine \<Rightarrow> pystr \<Rightarrow> db_turn \<Rightarrow> (('c, 'd) db_world, unit) comp" where
  "db_turn_step B H E durable t = (case t of
     OrderTurn \<Rightarrow> loop_turn B [(durable, db_write_handle B H E)] 0
   | StreamTurn e \<Rightarrow> cdc_event B e)"

definition run_db_adapter ::
  "'c bus \<Rightarrow> host \<Rightarrow> (pystr \<Rightarrow> 'd engine) \<Rightarrow> db_adapter_settings \<Rightarrow> db_turn list \<Rightarrow> (('c, 'd) db_world, unit) comp" where
  "run_db_adapter B H create_engine settings turns =
     (let E = create_engine (write_engine_url settings); durable = cfg_service_id settings @ py ''-write-handler'' in
      seq (db_write_start B (Some durable)) (\<lambda>_. for_each (db_turn_step B H E durable) turns))"

section \<open>Settling across loops\<close>

text \<open>
  \<open>accounted m\<close>: run where everything fetched has been settled, \<open>m\<close> leaves it so, or raises with
  the unsettled messages last.
\<close>

definition accounted :: "(('c, 'z) world_scheme, 'a) comp \<Rightarrow> bool" where
  "accounted m \<longleftrightarrow> (\<forall>w r w'. m w = (r, w') \<longrightarrow> fetched (w_calls w) = settled (w_calls w) \<longrightarrow>
     (\<exists>rest. fetched (w_calls w') = settled (w_calls w') @ rest \<and> (\<not> isl r \<longrightarrow> rest = [])))"

lemma accounted_turn:
  assumes "command_handler handle" shows "accounted (run_once B handle durable batch)"
  unfolding accounted_def
proof (intro allI impI)
  fix w r w'
  assume run: "run_once B handle durable batch w = (r, w')" and eq: "fetched (w_calls w) = settled (w_calls w)"
  show "\<exists>rest. fetched (w_calls w') = settled (w_calls w') @ rest \<and> (\<not> isl r \<longrightarrow> rest = [])"
  proof (cases r)
    case (Inl e)
    with command_handler.run_once_raised [OF assms] run obtain msgs k where
      "fetched (w_calls w') = fetched (w_calls w) @ msgs" "settled (w_calls w') = settled (w_calls w) @ take k msgs" by blast
    with eq Inl show ?thesis by (intro exI [of _ "drop k msgs"]) simp
  next
    case (Inr n)
    with command_handler.run_once_settles [OF assms] run eq show ?thesis by force
  qed
qed

lemma accounted_seq:
  assumes "accounted m" and "\<And>a. accounted (k a)" shows "accounted (seq m k)"
  unfolding accounted_def
proof (intro allI impI)
  fix w r w'
  assume s: "seq m k w = (r, w')" and eq: "fetched (w_calls w) = settled (w_calls w)"
  from s show "\<exists>rest. fetched (w_calls w') = settled (w_calls w') @ rest \<and> (\<not> isl r \<longrightarrow> rest = [])"
  proof (cases rule: seq_cases)
    case (1 e)
    with assms(1) eq show ?thesis unfolding accounted_def by fastforce
  next
    case (2 a w1)
    with assms(1) eq have "fetched (w_calls w1) = settled (w_calls w1)" unfolding accounted_def by fastforce
    with assms(2) 2(2) show ?thesis unfolding accounted_def by blast
  qed
qed

lemma accounted_quiet:
  assumes "\<And>w r w'. m w = (r, w') \<Longrightarrow> fetched (w_calls w') = fetched (w_calls w) \<and> settled (w_calls w') = settled (w_calls w)"
  shows "accounted m"
  using assms unfolding accounted_def by fastforce

lemma accounted_ret: "accounted (ret a)"
  by (rule accounted_quiet) (simp add: ret_def)

lemma accounted_for_each: "(\<And>x. accounted (f x)) \<Longrightarrow> accounted (for_each f xs)"
proof (induction xs)
  case Nil
  show ?case by (rule accounted_quiet) simp
next
  case (Cons x xs)
  have "for_each f (x # xs) = seq (f x) (\<lambda>_. for_each f xs)" by (auto simp: seq_def fun_eq_iff)
  with Cons show ?case by (simp add: accounted_seq)
qed

lemma accounted_loop_turn:
  assumes "\<forall>l \<in> set loops. command_handler (snd l)"
  shows "accounted (loop_turn B loops i)"
proof (cases "i < length loops")
  case True
  obtain d h where l: "loops ! i = (d, h)" by fastforce
  with assms True have "command_handler h" by (metis nth_mem snd_conv)
  with True l show ?thesis by (simp add: loop_turn_def accounted_seq accounted_turn accounted_ret)
qed (simp add: loop_turn_def accounted_ret)

lemma accounted_subscribe: "accounted (b_subscribe B s d)"
  by (rule accounted_quiet) (auto simp: b_subscribe_def via_def split: prod.splits)

lemma accounted_publish: "accounted (b_publish B a)"
  by (rule accounted_quiet) (auto simp: b_publish_def via_def split: prod.splits)

lemma accounted_silent: "silent m \<Longrightarrow> accounted m"
  by (rule accounted_quiet) (simp add: silent_def)

lemma silent_raise: "silent (raise e)"
  by (simp add: silent_def raise_def)

lemmas accounted_silents = silent_raise [THEN accounted_silent] silent_lift_res [THEN accounted_silent]
  silent_utc_now [THEN accounted_silent] silent_os_op [THEN accounted_silent] accounted_ret accounted_publish

lemma silent_was_recent: "silent (was_recent H p)"
  unfolding was_recent_def by (intro silent_seq silent_monotonic) (auto simp: silent_def split: prod.splits)

lemma accounted_new_file: "accounted (handle_new_file B H watch_dir p polls)"
  unfolding handle_new_file_def
  by (auto split: option.splits intro!: accounted_seq accounted_silents)

lemma accounted_watch: "accounted (run_forever B H watch_dir chs)"
  unfolding run_forever_def handle_change_def
  by (intro accounted_for_each)
     (auto intro!: accounted_seq accounted_silents silent_was_recent [THEN accounted_silent] accounted_new_file)

lemma accounted_row: "accounted (publish_row_changed B op' t r p)"
  unfolding publish_row_changed_def
  by (intro accounted_seq accounted_silents)

lemma accounted_cdc: "accounted (cdc_event B e)"
  by (cases e) (auto intro!: accounted_for_each accounted_row simp: split_beta)

lemma file_loops_ok: "\<forall>l \<in> set (file_loops B H watch_dir sid). command_handler (snd l)"
  by (simp add: file_loops_def write_cmd.command_handler_axioms read_cmd.command_handler_axioms
      list_cmd.command_handler_axioms delete_cmd.command_handler_axioms)

lemma accounted_file_run: "accounted (run_file_storage B H watch_dir sid turns)"
proof -
  have turn: "accounted (file_turn_step B H watch_dir sid t)" for t
    by (cases t) (simp_all add: file_turn_step_def accounted_loop_turn file_loops_ok accounted_watch)
  show ?thesis
    unfolding run_file_storage_def file_starts_def write_start_def read_start_def list_start_def delete_start_def
    by (intro accounted_seq accounted_for_each turn accounted_subscribe accounted_ret accounted_quiet) auto
qed

lemma accounted_serve:
  "\<forall>l \<in> set started. command_handler (snd l) \<Longrightarrow> \<forall>(d, start, handle) \<in> set rest. accounted start \<and> command_handler handle \<Longrightarrow>
   accounted (serve B started rest turns)"
proof (induction rest arbitrary: started)
  case Nil
  then show ?case by (simp add: run_loops_def accounted_for_each accounted_loop_turn)
next
  case (Cons l rest)
  obtain durable start handle where l: "l = (durable, start, handle)" by (cases l)
  have "serve B started (l # rest) turns = seq (run_loops B started (turns (length started))) (\<lambda>_.
     seq start (\<lambda>_. serve B (started @ [(durable, handle)]) rest turns))"
    by (simp add: fun_eq_iff l)
  moreover have "accounted (run_loops B started (turns (length started)))"
    unfolding run_loops_def using Cons.prems(1) by (intro accounted_for_each accounted_loop_turn)
  moreover have "accounted (serve B (started @ [(durable, handle)]) rest turns)"
    using Cons.prems l by (intro Cons.IH) auto
  ultimately show ?case using Cons.prems l by (simp add: accounted_seq)
qed

lemma accounted_http_run: "accounted (run_http_adapter B H C settings turns)"
  unfolding run_http_adapter_def
  by (rule accounted_serve) (auto simp: Let_def trigger_start_def accounted_subscribe trigger_cmd.command_handler_axioms)

lemma accounted_sender_run: "accounted (run_webhook_sender B C settings turns)"
  unfolding run_webhook_sender_def
  by (rule accounted_serve) (auto simp: Let_def relay_start_def accounted_subscribe relay_cmd.command_handler_axioms)

lemma accounted_db_run: "accounted (run_db_adapter B H create_engine settings turns)"
proof -
  have turn: "accounted (db_turn_step B H E d t)" for E d t
    by (cases t)
       (simp_all add: db_turn_step_def accounted_loop_turn accounted_cdc db_write_cmd.command_handler_axioms)
  show ?thesis
    unfolding run_db_adapter_def Let_def db_write_start_def
    by (intro accounted_seq accounted_for_each turn accounted_subscribe)
qed

section \<open>Durable names\<close>

text \<open>
  Durable names are not injective in the subject: the loops of \<open>orders.new\<close> and \<open>orders_new\<close>
  share one.
\<close>

lemma durables_collide:
  "trigger_durable sid (py ''orders.new'') = trigger_durable sid (py ''orders_new'')
   \<and> relay_durable sid (py ''orders.new'') = relay_durable sid (py ''orders_new'')
   \<and> py ''orders.new'' \<noteq> py ''orders_new''"
proof -
  have "replace_dots (py ''orders.new'') = replace_dots (py ''orders_new'')" by code_simp
  moreover have "py ''orders.new'' \<noteq> py ''orders_new''" by code_simp
  ultimately show ?thesis by (simp add: trigger_durable_def relay_durable_def)
qed

end
