(* ===== verification/Fs_Safety.thy ===== *)
theory Fs_Safety
  imports Fs_Handlers
begin

text \<open>
  What the four file handlers do to the file system and say about it: they keep it well
  formed; they change nothing outside the watched directory; reading and listing change
  nothing at all; and a completion event is published only when the file is in the state it
  announces.
\<close>

section \<open>Invariants of the file system along a handler\<close>

definition keeps :: "(filesystem \<Rightarrow> bool) \<Rightarrow> ('c fs_world, 'a) comp \<Rightarrow> bool" where
  "keeps I m \<longleftrightarrow> (\<forall>w r w'. I (w_fs w) \<longrightarrow> m w = (r, w') \<longrightarrow> I (w_fs w'))"

named_theorems keeps_intros \<open>rules for invariants of the file system\<close>

lemma keepsD: "keeps I m \<Longrightarrow> m w = (r, w') \<Longrightarrow> I (w_fs w) \<Longrightarrow> I (w_fs w')"
  by (simp add: keeps_def)

lemma keeps_same: "(\<And>w. w_fs (snd (m w)) = w_fs w) \<Longrightarrow> keeps I m"
  unfolding keeps_def by (metis snd_conv)

lemma keeps_seq [keeps_intros]:
  assumes "keeps I m" and "\<And>a. keeps I (k a)"
  shows "keeps I (seq m k)"
  unfolding keeps_def
proof (intro allI impI)
  fix w r w' assume i: "I (w_fs w)" and s: "seq m k w = (r, w')"
  from s show "I (w_fs w')"
    by (cases rule: seq_cases) (use i keepsD [OF assms(1)] keepsD [OF assms(2)] in simp_all)
qed

lemma keeps_try [keeps_intros]:
  assumes "keeps I m" and "keeps I h" and "\<And>a. keeps I (k a)"
  shows "keeps I (try_else p m h k)"
  unfolding keeps_def
proof (intro allI impI)
  fix w r w' assume i: "I (w_fs w)" and s: "try_else p m h k w = (r, w')"
  from s show "I (w_fs w')"
    by (cases rule: try_else_cases)
       (use i keepsD [OF assms(1)] keepsD [OF assms(2)] keepsD [OF assms(3)] in simp_all)
qed

lemma keeps_if [keeps_intros]: "keeps I m \<Longrightarrow> keeps I n \<Longrightarrow> keeps I (if b then m else n)"
  by simp

lemma keeps_ret [keeps_intros]: "keeps I (ret a)"
  by (rule keeps_same) (simp add: ret_def)

lemma keeps_lift_res [keeps_intros]: "keeps I (lift_res a)"
  by (rule keeps_same) (simp add: lift_res_def)

lemma keeps_via: "keeps I (via m l :: ('c fs_world, 'a) comp)"
  by (rule keeps_same) (simp add: via_def split: prod.splits)

lemma keeps_bus [keeps_intros]:
  "keeps I (b_ack B ev :: ('c fs_world, unit) comp)" "keeps I (b_nak B ev :: ('c fs_world, unit) comp)"
  "keeps I (b_publish B a :: ('c fs_world, pystr) comp)" "keeps I (b_fetch B d n :: ('c fs_world, _) comp)"
  unfolding b_ack_def b_nak_def b_publish_def b_fetch_def by (rule keeps_via)+

lemma keeps_tick [keeps_intros]: "keeps I tick"
  by (rule keeps_same) (simp add: tick_def)

lemma keeps_reply [keeps_intros]: "keeps I (publish_reply B H ev s t p :: ('c fs_world, pystr) comp)"
  unfolding publish_reply_def utc_now_def by (intro keeps_intros)

lemma keeps_mark [keeps_intros]: "keeps I (mark_recent H p)"
  unfolding mark_recent_def monotonic_def
  by (intro keeps_seq keeps_tick keeps_ret keeps_same) simp

lemma keeps_resolve [keeps_intros]: "keeps I (resolve_request d p)"
  by (rule keeps_same) (simp add: resolve_request_def)

lemma keeps_failed [keeps_intros]: "keeps I (report_failed B H ev p o' r)"
  unfolding report_failed_def by (intro keeps_intros)

lemma keeps_report [keeps_intros]: "keeps I (write_report B H ev request b)"
  unfolding write_report_def Let_def by (intro keeps_intros)

lemma os_op_cases:
  assumes "os_op H f w = (r, w')"
  obtains "r = Inl OSErr" "w_fs w' = w_fs w"
  | e where "f (w_fs w) = (Inl e, w_fs w')" "r = Inl (os_exn e)"
  | a where "f (w_fs w) = (Inr a, w_fs w')" "r = Inr a"
  using assms
  by (auto simp: os_op_def seq_def tick_def split: if_splits prod.splits sum.splits)

lemma keeps_os_op:
  assumes "\<And>fs. I fs \<Longrightarrow> I (snd (f fs))"
  shows "keeps I (os_op H f)"
  unfolding keeps_def
proof (intro allI impI)
  fix w r w' assume "I (w_fs w)" and "os_op H f w = (r, w')"
  with assms [of "w_fs w"] show "I (w_fs w')" by (elim os_op_cases) auto
qed

lemma keeps_query [keeps_intros]: "keeps I (os_op H (query f))"
  by (rule keeps_os_op) (simp add: query_def)

lemma keeps_reading [keeps_intros]: "keeps I (os_op H (reading f))"
  by (rule keeps_os_op) (simp add: reading_def)

lemma keeps_changing:
  "(\<And>fs fs'. I fs \<Longrightarrow> f fs = Inr fs' \<Longrightarrow> I fs') \<Longrightarrow> keeps I (os_op H (changing f))"
  by (rule keeps_os_op) (auto simp: changing_def split: sum.splits)

lemma dict_set_set [simp]: "dict_set q v (dict_set q v' d) = dict_set q v d"
  by (simp add: dict_set_def)

lemma write_bytes_cases:
  assumes "write_bytes H q content w = (r, w')"
  obtains n where "r = Inl OSErr" "w_fs w' = dict_set q (File (take n content)) (w_fs w)"
  | "r = Inr ()" "w_fs w' = dict_set q (File content) (w_fs w)"
  using assms by (auto simp: write_bytes_def seq_def tick_def split: option.splits)

text \<open>Opening and writing: the file the path leads to has some content afterwards.\<close>

lemma keeps_create_write:
  assumes "\<And>fs q fs' b. I fs \<Longrightarrow> open_wb fs p = Inr (q, fs') \<Longrightarrow> I (dict_set q (File b) fs)"
  shows "keeps I (seq (os_op H (create_op p)) (\<lambda>q. write_bytes H q content))"
  unfolding keeps_def
proof (intro allI impI)
  fix w r w' assume i: "I (w_fs w)" and s: "seq (os_op H (create_op p)) (\<lambda>q. write_bytes H q content) w = (r, w')"
  have o1: "I (w_fs w1)" if "os_op H (create_op p) w = (Inl e, w1)" for e w1
    using that i by (elim os_op_cases) (auto simp: create_op_def split: sum.splits prod.splits)
  have o2: "\<exists>fs'. open_wb (w_fs w) p = Inr (q, fs') \<and> w_fs w1 = dict_set q (File []) (w_fs w)"
    if "os_op H (create_op p) w = (Inr q, w1)" for q w1
    using that
    by (elim os_op_cases) (auto simp: create_op_def elim: open_wb_InrE split: sum.splits prod.splits)
  from s show "I (w_fs w')"
  proof (cases rule: seq_cases)
    case (2 q w1)
    from o2 [OF 2(1)] obtain fs' where fs': "open_wb (w_fs w) p = Inr (q, fs')"
      and w1: "w_fs w1 = dict_set q (File []) (w_fs w)" by blast
    from 2(2) show ?thesis
      by (cases rule: write_bytes_cases) (use w1 assms [OF i fs'] in simp_all)
  qed (rule o1)
qed

section \<open>Well-formedness\<close>

lemma mkdir_p_wf:
  "fs_wf fs \<Longrightarrow> \<forall>c \<in> set p. normal_name c \<Longrightarrow> fs_wf (snd (mkdir_p fs p))"
proof (induction fs p rule: mkdir_p.induct)
  case (1 fs p)
  have nn: "p \<noteq> [] \<Longrightarrow> normal_name (last p)" using "1.prems" by simp
  show ?case
  proof (cases "os_mkdir fs p")
    case (Inr fs1)
    then have "p \<noteq> []" by (auto simp: os_mkdir_def)
    with Inr os_mkdir_wf [OF "1.prems"(1) nn Inr] show ?thesis by (simp add: mkdir_p.simps [of fs p])
  next
    case (Inl e)
    show ?thesis
    proof (cases "e = ENOENT \<and> p \<noteq> []")
      case False
      with Inl "1.prems" show ?thesis
        by (cases e) (auto simp: mkdir_p.simps [of fs p] os_mkdir_def)
    next
      case True
      have ih: "fs_wf (snd (mkdir_p fs (butlast p)))"
        using "1.IH" [OF Inl] True "1.prems" by (auto dest: in_set_butlastD)
      obtain r1 fs1 where m: "mkdir_p fs (butlast p) = (r1, fs1)" by fastforce
      show ?thesis
      proof (cases r1)
        case (Inl e1)
        with m ih True \<open>os_mkdir fs p = Inl e\<close> show ?thesis by (simp add: mkdir_p.simps [of fs p])
      next
        case (Inr u)
        with m ih True \<open>os_mkdir fs p = Inl e\<close> mkdir_once_wf [of fs1 p] nn show ?thesis
          by (cases "mkdir_once fs1 p") (auto simp: mkdir_p.simps [of fs p])
      qed
    qed
  qed
qed

lemma resolve_normal:
  assumes "resolve fs p = Inr q" and "c \<in> set q"
  shows "normal_name c"
proof -
  have fold: "\<forall>c \<in> set (foldl (\<lambda>acc c. if c = [] \<or> c = DOT then acc
      else if c = DOTDOT then butlast acc else acc @ [c]) acc xs). normal_name c"
    if "\<forall>c \<in> set acc. normal_name c" for acc xs
    using that
  proof (induction xs arbitrary: acc)
    case (Cons x xs)
    have "\<forall>c \<in> set (if x = [] \<or> x = DOT then acc else if x = DOTDOT then butlast acc else acc @ [x]).
        normal_name c"
      using Cons.prems by (simp add: normal_name_def) (meson in_set_butlastD)
    from Cons.IH [OF this] show ?case by (simp only: foldl_Cons)
  qed simp
  obtain ok where "realpath fs p = Inr (q, ok)" using resolve_realpath [OF assms(1)] by blast
  then obtain q' where "q = normpath q'" by (auto simp: realpath_def rbind_Inr_iff)
  with fold [of "[]" q'] assms(2) show ?thesis by (simp add: normpath_def)
qed

lemma resolve_within_normal:
  "resolve_within fs root rel = Inr q \<Longrightarrow> c \<in> set q \<Longrightarrow> normal_name c"
  by (erule resolve_within_InrE) (rule resolve_normal)

lemma write_file_wf: "\<forall>c \<in> set target. normal_name c \<Longrightarrow> keeps fs_wf (write_file H target content)"
  unfolding write_file_def
  by (intro keeps_seq keeps_create_write keeps_os_op)
     (auto intro: mkdir_p_wf dest: in_set_butlastD elim: open_wb_write_wf)

lemma resolve_request_cases:
  assumes "resolve_request d p w = (r, w')"
  shows "r = resolve_within (w_fs w) d p \<and> w' = w"
  using assms by (auto simp: resolve_request_def)

text \<open>A \<open>try\<close> around the resolution: the continuation may use what was resolved.\<close>

lemma keeps_resolved:
  assumes "keeps I h"
    and "\<And>target w r w'. resolve_within (w_fs w) d p = Inr target \<Longrightarrow> I (w_fs w) \<Longrightarrow> k target w = (r, w') \<Longrightarrow> I (w_fs w')"
  shows "keeps I (try_else q (resolve_request d p) h k)"
  unfolding keeps_def
proof (intro allI impI)
  fix w r w' assume i: "I (w_fs w)" and t: "try_else q (resolve_request d p) h k w = (r, w')"
  from t show "I (w_fs w')"
  proof (cases rule: try_else_cases)
    case (1 e)
    with resolve_request_cases [OF 1(1)] i show ?thesis by simp
  next
    case (2 e w1)
    with resolve_request_cases [OF 2(1)] i keepsD [OF assms(1) 2(3)] show ?thesis by simp
  next
    case (3 a w1)
    with resolve_request_cases [OF 3(1)] i assms(2) [of w1 a r w'] show ?thesis by simp
  qed
qed

lemma write_handle_keeps_wf: "keeps fs_wf (write_handle B H d rw ev)"
  unfolding write_handle_def
proof (rule keeps_try, rule keeps_lift_res, rule keeps_bus, rule keeps_resolved, rule keeps_bus)
  fix request target w r w'
  assume t: "resolve_within (w_fs w) d (wr_path request) = Inr target" and i: "fs_wf (w_fs w)"
    and m: "seq (os_op H (query (\<lambda>fs. p_exists fs target))) (\<lambda>existed_before.
       try_else is_os_error (write_file H target (wr_content request)) (b_nak B ev) (\<lambda>_.
       seq (if rw then mark_recent H target else ret ()) (\<lambda>_.
       write_report B H ev request existed_before))) w = (r, w')"
  have "keeps fs_wf (seq (os_op H (query (\<lambda>fs. p_exists fs target))) (\<lambda>existed_before.
       try_else is_os_error (write_file H target (wr_content request)) (b_nak B ev) (\<lambda>_.
       seq (if rw then mark_recent H target else ret ()) (\<lambda>_.
       write_report B H ev request existed_before))))"
    using resolve_within_normal [OF t] by (intro keeps_intros write_file_wf) blast
  from keepsD [OF this m i] show "fs_wf (w_fs w')" .
qed

lemma delete_handle_keeps_wf: "keeps fs_wf (delete_handle B H d ev)"
  unfolding delete_handle_def
  by (intro keeps_intros keeps_changing) (rule os_unlink_wf)

lemma read_handle_keeps: "keeps I (read_handle B H d ev)"
  unfolding read_handle_def by (intro keeps_intros)

lemma list_handle_keeps: "keeps I (list_handle B H d ev)"
  unfolding list_handle_def by (intro keeps_intros)

section \<open>Confinement\<close>

text \<open>
  The state between the steps of a handler that works on \<open>target\<close>, below \<open>root\<close>: well
  formed, the target still canonical, and unchanged outside \<open>root\<close>.
\<close>

definition outside :: "path \<Rightarrow> path \<Rightarrow> bool" where
  "outside root q \<longleftrightarrow> (\<nexists>rest. q = root @ rest)"

definition confined :: "filesystem \<Rightarrow> path \<Rightarrow> path \<Rightarrow> filesystem \<Rightarrow> bool" where
  "confined fs0 root target fs \<longleftrightarrow> fs_wf fs \<and> canonical fs target \<and> node_at fs root = Some Dir
     \<and> (\<forall>q. outside root q \<longrightarrow> node_at fs q = node_at fs0 q)"

lemma canonical_file: "canonical fs p \<Longrightarrow> canonical (dict_set q (File b) fs) p"
  by (auto simp: canonical_def node_at_set split: if_splits)

lemma canonical_pop: "canonical fs p \<Longrightarrow> canonical (dict_pop q fs) p"
  by (auto simp: canonical_def node_at_pop split: if_splits)

lemma root_grows: "grows p fs fs' \<Longrightarrow> node_at fs q = Some nd \<Longrightarrow> node_at fs' q = Some nd"
  unfolding grows_def by (metis option.distinct(1))

lemma confined_mkdir:
  assumes "confined fs0 root target fs" and "target = root @ rest"
  shows "confined fs0 root target (snd (mkdir_p fs (butlast target)))"
proof -
  obtain r fs' where m: "mkdir_p fs (butlast target) = (r, fs')" by fastforce
  have c: "canonical fs (butlast target)" "fs_wf fs"
    using assms(1) by (auto simp: confined_def)
  from mkdir_p_frame [OF c m] have wf: "fs_wf fs'" and g: "grows (butlast target) fs fs'" by auto
  have "node_at fs' q = node_at fs q" if out: "outside root q" for q
  proof (rule ccontr)
    assume ne: "node_at fs' q \<noteq> node_at fs q"
    with g obtain rest' where r': "butlast target = q @ rest'" and none: "node_at fs q = None"
      unfolding grows_def by blast
    then have "target = q @ rest' @ drop (length (butlast target)) target"
      by (metis append.assoc append_take_drop_id butlast_conv_take length_butlast min.cobounded2
          take_butlast take_all_iff length_take order_refl)
    with assms(2) obtain us where "root = q @ us \<or> q = root @ us"
      by (auto simp: append_eq_append_conv2)
    with out have "root = q @ us" by (auto simp: outside_def)
    moreover have "node_at fs root = Some Dir" using assms(1) by (simp add: confined_def)
    ultimately have "node_at fs q = Some Dir"
      using fs_wf_parents [OF c(2), of q us Dir] by (cases "us = []") auto
    with none show False by simp
  qed
  moreover have "node_at fs' root = Some Dir"
    using root_grows [OF g] assms(1) by (simp add: confined_def)
  ultimately show ?thesis
    using assms(1) wf canonical_grows [OF g] m by (simp add: confined_def)
qed

lemma confined_write:
  assumes "confined fs0 root target fs" and "target = root @ rest" and "open_wb fs target = Inr (q, fs')"
  shows "confined fs0 root target (dict_set q (File b) fs)"
proof -
  have can: "canonical fs target" and wf: "fs_wf fs" using assms(1) by (auto simp: confined_def)
  have q: "q = target" using open_wb_canonical [OF can assms(3)] by simp
  have nd: "node_at fs q \<noteq> Some Dir" using assms(3) by (elim open_wb_InrE) simp
  have "root \<noteq> q" using nd assms(1) by (auto simp: confined_def)
  moreover have "outside root x \<Longrightarrow> x \<noteq> q" for x using q assms(2) by (auto simp: outside_def)
  ultimately show ?thesis
    using assms(1) open_wb_write_wf [OF wf assms(3)] canonical_file [OF can]
    by (auto simp: confined_def node_at_set) (simp_all add: node_at_def)
qed

lemma confined_unlink:
  assumes "confined fs0 root target fs" and "target = root @ rest" and "os_unlink fs target = Inr fs'"
  shows "confined fs0 root target fs'"
proof -
  have can: "canonical fs target" and wf: "fs_wf fs" using assms(1) by (auto simp: confined_def)
  note u = os_unlink_canonical [OF can assms(3)]
  obtain q where q: "walk_parent fs target = Inr q" "fs' = dict_pop q fs" "node_at fs q \<noteq> Some Dir"
    using assms(3) by (rule os_unlink_InrE)
  have "q = target" using walk_parent_canonical [OF canonical_butlast [OF can] _ q(1)] u by simp
  then have "root \<noteq> target" using q(3) assms(1) by (auto simp: confined_def)
  moreover have "outside root x \<Longrightarrow> x \<noteq> target" for x using assms(2) by (auto simp: outside_def)
  ultimately show ?thesis
    using assms(1) u os_unlink_wf [OF wf assms(3)] canonical_pop [OF can]
    by (auto simp: confined_def node_at_pop) (simp_all add: node_at_def)
qed


text \<open>The two ways through a command handler: settled early, or run on a resolved target.\<close>

lemma resolved_command:
  assumes "try_else p1 (lift_res dec) (b_ack B ev) (\<lambda>req.
      try_else p2 (resolve_request d (path req)) (b_ack B ev) (k req)) w = (r, w')"
  obtains (early) "w_fs w' = w_fs w" "\<exists>cs. w_calls w' = w_calls w @ cs \<and> (\<forall>c \<in> set cs. \<not> is_publish c)"
  | (run) req target where "dec = Inr req" "resolve_within (w_fs w) d (path req) = Inr target"
      "k req target w = (r, w')"
proof -
  have ack: thesis if "b_ack B ev w = (r, w')"
    using that early b_ack_calls [OF that]
    by (auto simp: b_ack_def via_def split: prod.splits)
  from assms show thesis
  proof (cases rule: try_else_cases)
    case (1 e)
    then show thesis using lift_res_cases [OF 1(1)] early by simp
  next
    case (2 e w1)
    then show thesis using lift_res_cases [OF 2(1)] ack by simp
  next
    case (3 req w1)
    then have w1: "w1 = w" and d: "dec = Inr req" using lift_res_cases [OF 3(1)] by simp_all
    from 3(2) show thesis
    proof (cases rule: try_else_cases)
      case (1 e)
      then show thesis using resolve_request_cases [OF 1(1)] w1 early by simp
    next
      case (2 e w2)
      then show thesis using resolve_request_cases [OF 2(1)] w1 ack by simp
    next
      case (3 target w2)
      have "resolve_within (w_fs w) d (path req) = Inr target" "w2 = w"
        using resolve_request_cases [OF 3(1)] w1 by simp_all
      with 3(2) d show thesis by (intro run) simp_all
    qed
  qed
qed

lemma resolved_confined:
  assumes "fs_wf fs" and "resolve fs d = Inr root" and "node_at fs root = Some Dir"
    and "request_links_resolve fs d p" and "resolve_within fs d p = Inr target"
  shows "confined fs root target fs \<and> (\<exists>rest. target = root @ rest)"
  using assms resolve_within_canonical [OF assms(1,4,5)] resolve_within_prefix [OF assms(5,2)]
  by (simp add: confined_def)

lemma write_confined_run:
  assumes "target = root @ rest"
  shows "keeps (confined fs0 root target)
    (seq (os_op H (query (\<lambda>fs. p_exists fs target))) (\<lambda>existed_before.
       try_else is_os_error (write_file H target c) (b_nak B ev) (\<lambda>_.
       seq (if rw then mark_recent H target else ret ()) (\<lambda>_.
       write_report B H ev request existed_before))))"
proof -
  have "keeps (confined fs0 root target) (write_file H target c)"
    unfolding write_file_def
    by (intro keeps_seq keeps_create_write keeps_os_op)
       (blast intro: confined_mkdir [OF _ assms] confined_write [OF _ assms])+
  then show ?thesis by (intro keeps_intros)
qed

lemma delete_confined_run:
  assumes "target = root @ rest"
  shows "keeps (confined fs0 root target)
    (seq (os_op H (query (\<lambda>fs. p_is_file fs target))) (\<lambda>is_file.
     if \<not> is_file then report_failed B H ev p o' n
     else
       try_else is_os_error (os_op H (changing (\<lambda>fs. os_unlink fs target))) (b_nak B ev) (\<lambda>_.
       seq (publish_reply B H ev s t q) (\<lambda>_. b_ack B ev))))"
  by (intro keeps_intros keeps_changing) (blast intro: confined_unlink [OF _ assms])

section \<open>What a completion event says\<close>

lemma query_cases:
  assumes "os_op H (query f) w = (Inr a, w')"
  shows "a = f (w_fs w) \<and> w_fs w' = w_fs w"
  using assms by (rule os_op_cases) (auto simp: query_def)

lemma os_op_calls: "os_op H f w = (r, w') \<Longrightarrow> w_calls w' = w_calls w"
  by (rule silentD [OF silent_os_op])

lemma keeps_fs: "keeps (\<lambda>fs. fs = w_fs w) m \<Longrightarrow> m w = (r, w') \<Longrightarrow> w_fs w' = w_fs w"
  by (drule (1) keepsD) simp_all

lemma write_file_ok:
  assumes "fs_wf (w_fs w)" and "canonical (w_fs w) target" and "write_file H target c w = (Inr u, w')"
  shows "node_at (w_fs w') target = Some (File c)"
proof -
  from assms(3) obtain u1 w1 q w2 where
    mk: "os_op H (\<lambda>fs. mkdir_p fs (butlast target)) w = (Inr u1, w1)" and
    op: "os_op H (create_op target) w1 = (Inr q, w2)" and wr: "write_bytes H q c w2 = (Inr u, w')"
    unfolding write_file_def by (elim seq_cases) auto
  have can: "canonical (w_fs w1) target"
    using mk
  proof (cases rule: os_op_cases)
    case 1
    then show ?thesis using assms(2) by simp
  next
    case (2 e)
    then show ?thesis by simp
  next
    case (3 a)
    from mkdir_p_frame [OF canonical_butlast [OF assms(2)] assms(1) 3(1)]
    show ?thesis using canonical_grows assms(2) by blast
  qed
  from op obtain fs' where "open_wb (w_fs w1) target = Inr (q, fs')"
    by (elim os_op_cases) (auto simp: create_op_def split: sum.splits prod.splits)
  then have q: "q = target" "node_at (w_fs w1) q \<noteq> Some Dir"
    using open_wb_canonical [OF can] by (auto elim: open_wb_InrE)
  then have ne: "target \<noteq> []" by (auto simp: node_at_def)
  from wr show ?thesis by (rule write_bytes_cases) (simp_all add: node_at_set q(1) ne)
qed

lemma failed_publishes:
  assumes "report_failed B H ev p operation reason w = (r, w')"
  shows "\<exists>now. publishes (new_calls w w') =
    {reply_args ev OPERATION_FAILED_SUBJECT ''FileOperationFailed''
       (encode_operation_failed p (py operation) (py reason) None now)}"
  using reply_ack_publishes [OF assms [unfolded report_failed_def]] .

text \<open>
  A query, then either way a run whose publications are known.
\<close>

lemma query_seq:
  assumes "seq (os_op H (query f)) k w = (r, w')"
  obtains (fault) "w_fs w' = w_fs w" "publishes (new_calls w w') = {}"
  | (answer) w1 where "k (f (w_fs w)) w1 = (r, w')" "w_fs w1 = w_fs w" "w_calls w1 = w_calls w"
  using assms
proof (cases rule: seq_cases)
  case (1 e)
  have "w_fs w' = w_fs w" using 1(1) by (rule os_op_cases) (auto simp: query_def)
  then show thesis using os_op_calls [OF 1(1)] by (intro fault new_calls_none)
next
  case (2 a w1)
  then show thesis using query_cases [OF 2(1)] os_op_calls [OF 2(1)] by (intro answer [of w1]) auto
qed

text \<open>A query and an operation that only reads, as functions of the world.\<close>

lemma os_op_query:
  "os_op H (query f) w = (if os_fault_at H (w_tick w) then Inl OSErr else Inr (f (w_fs w)), w\<lparr>w_tick := Suc (w_tick w)\<rparr>)"
  by (simp add: os_op_def query_def seq_def tick_def)

lemma seq_query:
  "seq (os_op H (query f)) k w = (if os_fault_at H (w_tick w) then (Inl OSErr, w\<lparr>w_tick := Suc (w_tick w)\<rparr>)
     else k (f (w_fs w)) (w\<lparr>w_tick := Suc (w_tick w)\<rparr>))"
  by (simp add: seq_def os_op_query)

lemma os_op_reading:
  "os_op H (reading f) w =
     (if os_fault_at H (w_tick w) then Inl OSErr else (case f (w_fs w) of Inl e \<Rightarrow> Inl (os_exn e) | Inr a \<Rightarrow> Inr a),
      w\<lparr>w_tick := Suc (w_tick w)\<rparr>)"
  by (auto simp: os_op_def reading_def seq_def tick_def split: sum.splits)

text \<open>What is read, if the host lets it be read, and the reply with it.\<close>

definition read_now :: "host \<Rightarrow> nat \<Rightarrow> errno + 'a \<Rightarrow> 'a option" where
  "read_now H t r = (if os_fault_at H t then None else case r of Inl _ \<Rightarrow> None | Inr a \<Rightarrow> Some a)"

lemma reading_reply:
  assumes "try_else is_os_error (os_op H (reading f)) (b_nak B ev) (\<lambda>content.
      seq (publish_reply B H ev s (py t) (p content)) (\<lambda>_. b_ack B ev)) w = (r, w')"
  shows "case read_now H (w_tick w) (f (w_fs w)) of
     None \<Rightarrow> new_calls w w' = [Naked (re_msg ev) r]
   | Some a \<Rightarrow> answered_with ev (\<lambda>now. reply_args ev s t (p a now)) (new_calls w w') r"
proof (cases "read_now H (w_tick w) (f (w_fs w))")
  case None
  let ?w = "w\<lparr>w_tick := Suc (w_tick w)\<rparr>"
  have "is_os_error OSErr" by (simp add: is_os_error_def)
  with None have "b_nak B ev ?w = (r, w')"
    using assms by (auto simp: try_else_def os_op_reading read_now_def split: if_splits sum.splits)
  from b_nak_calls [OF this] None show ?thesis by (simp add: new_calls_def)
next
  case (Some a)
  let ?w = "w\<lparr>w_tick := Suc (w_tick w)\<rparr>"
  from Some have "seq (publish_reply B H ev s (py t) (p a)) (\<lambda>_. b_ack B ev) ?w = (r, w')"
    using assms by (auto simp: try_else_def os_op_reading read_now_def split: if_splits sum.splits)
  from reply_ack_answers [OF this] Some show ?thesis by (simp add: new_calls_def)
qed

lemma failed_answers:
  assumes "report_failed B H ev path op' reason w = (r, w')"
  shows "answered_with ev (\<lambda>now. reply_args ev OPERATION_FAILED_SUBJECT ''FileOperationFailed''
     (encode_operation_failed path (py op') (py reason) None now)) (new_calls w w') r"
  using reply_ack_answers [OF assms [unfolded report_failed_def]] .

lemma report_publishes:
  assumes "write_report B H ev req existed w = (r, w')"
  shows "\<exists>now. publishes (new_calls w w') = {if existed
       then reply_args ev WRITE_COMPLETED_SUBJECT ''FileWriteCompleted''
              (encode_write_completed (wr_path req) (length (wr_content req)) None now)
       else reply_args ev CREATE_COMPLETED_SUBJECT ''FileCreateCompleted''
              (encode_create_completed (wr_path req) (length (wr_content req)) None now)}"
  using assms reply_ack_publishes
  by (cases existed) (force simp: write_report_def Let_def)+

text \<open>The rest of the write handler after the target's existence is known.\<close>

lemma write_tail:
  assumes "try_else is_os_error (write_file H target (wr_content req)) (b_nak B ev) (\<lambda>_.
       seq (if rw then mark_recent H target else ret ()) (\<lambda>_. write_report B H ev req existed)) w = (r, w')"
    and "fs_wf (w_fs w)" and "canonical (w_fs w) target" and "a \<in> publishes (new_calls w w')"
  shows "node_at (w_fs w') target = Some (File (wr_content req)) \<and>
    (\<exists>now. a = (if existed
       then reply_args ev WRITE_COMPLETED_SUBJECT ''FileWriteCompleted''
              (encode_write_completed (wr_path req) (length (wr_content req)) None now)
       else reply_args ev CREATE_COMPLETED_SUBJECT ''FileCreateCompleted''
              (encode_create_completed (wr_path req) (length (wr_content req)) None now)))"
  using assms(1)
proof (cases rule: try_else_cases)
  case (1 e)
  with assms(4) new_calls_none [OF silentD [OF silent_write_file 1(1)]] show ?thesis by simp
next
  case (2 e w1)
  with assms(4) nak_publishes [OF 2(3)] new_calls_same [OF silentD [OF silent_write_file 2(1)]]
  show ?thesis by simp
next
  case (3 u w1)
  have stored: "node_at (w_fs w1) target = Some (File (wr_content req))"
    by (rule write_file_ok [OF assms(2,3) 3(1)])
  have k: "keeps I (seq (if rw then mark_recent H target else ret ()) (\<lambda>_. write_report B H ev req existed))" for I
    by (intro keeps_intros)
  have fs: "w_fs w' = w_fs w1" by (rule keeps_fs [OF k 3(2)])
  have sil: "silent (if rw then mark_recent H target else ret ())" by (intro settling_intros)
  from 3(2) show ?thesis
  proof (cases rule: seq_cases)
    case (1 e)
    with silentD [OF sil 1(1)] silentD [OF silent_write_file 3(1)] have "w_calls w' = w_calls w" by simp
    with assms(4) new_calls_none show ?thesis by blast
  next
    case (2 u2 w2)
    with silentD [OF sil 2(1)] silentD [OF silent_write_file 3(1)] have "w_calls w2 = w_calls w" by simp
    from new_calls_same [OF this] report_publishes [OF 2(2)] assms(4) stored fs show ?thesis by auto
  qed
qed

text \<open>The rest of the delete handler after the target is known to be a file.\<close>

lemma delete_tail:
  assumes "try_else is_os_error (os_op H (changing (\<lambda>fs. os_unlink fs target))) (b_nak B ev) (\<lambda>_.
       seq (publish_reply B H ev s (py t) p) (\<lambda>_. b_ack B ev)) w = (r, w')"
    and "canonical (w_fs w) target" and "p_is_file (w_fs w) target" and "a \<in> publishes (new_calls w w')"
  shows "\<exists>now. node_at (w_fs w') target = None \<and> a = reply_args ev s t (p now)"
  using assms(1)
proof (cases rule: try_else_cases)
  case (1 e)
  with assms(4) new_calls_none [OF os_op_calls [OF 1(1)]] show ?thesis by simp
next
  case (2 e w1)
  with assms(4) nak_publishes [OF 2(3)] new_calls_same [OF os_op_calls [OF 2(1)]] show ?thesis by simp
next
  case (3 u w1)
  from 3(1) have "os_unlink (w_fs w) target = Inr (w_fs w1)"
    by (elim os_op_cases) (auto simp: changing_def split: sum.splits)
  from os_unlink_canonical [OF assms(2) this] have gone: "node_at (w_fs w1) target = None"
    by (simp add: node_at_pop)
  have k: "keeps I (seq (publish_reply B H ev s (py t) p) (\<lambda>_. b_ack B ev))" for I by (intro keeps_intros)
  from keeps_fs [OF k 3(2)] gone reply_ack_publishes [OF 3(2)] assms(4)
    new_calls_same [OF os_op_calls [OF 3(1)]] show ?thesis by auto
qed

end
