(* ===== verification/Fs_Properties.thy ===== *)
theory Fs_Properties
  imports Fs_Safety
begin

text \<open>
  The properties of the file storage adapter's boundary and of its command handlers, with
  the concrete worlds that witness their hypotheses.
\<close>

section \<open>A concrete adapter\<close>

definition demo_root :: path where "demo_root = [py ''srv'', py ''watch'']"

definition demo_fs :: filesystem where
  "demo_fs = [([py ''srv''], Dir), (demo_root, Dir), (demo_root @ [py ''a''], File [1, 2]),
     (demo_root @ [py ''up''], Symlink (py ''../watch'')), ([py ''etc''], Dir)]"

definition demo_world :: "unit fs_world" where
  "demo_world = \<lparr>w_client = (), w_calls = [], w_tick = 0, w_fs = demo_fs,
     w_recent = recent_writes_init DEFAULT_TTL\<rparr>"

definition demo_write :: received_event where
  "demo_write = plain_event (json_bytes (JDict
     [(py ''path'', JStr (py ''up/a'')), (py ''content'', JStr (b64encode [7, 8, 9]))]))"

definition demo_command :: received_event where
  "demo_command = plain_event (json_bytes (JDict [(py ''path'', JStr (py ''up/a''))]))"

lemma demo_fs_wf: "fs_wf demo_fs"
  by code_simp

lemma demo_resolve: "resolve demo_fs demo_root = Inr demo_root"
  by code_simp

lemma demo_resolve_a: "resolve_within demo_fs demo_root (py ''up/a'') = Inr (demo_root @ [py ''a''])"
  by code_simp

lemma demo_links: "request_links_resolve demo_fs demo_root (py ''up/a'')"
  by code_simp

lemma demo_node: "node_at demo_fs demo_root = Some Dir"
  by code_simp

lemma demo_world_fs [simp]: "w_fs demo_world = demo_fs"
  by (simp add: demo_world_def)

lemma re_payload_plain [simp]: "re_payload (plain_event raw) = raw"
  by (simp add: plain_event_def)

lemma demo_write_decodes:
  "decode_write_requested (re_payload demo_write) = Inr \<lparr>wr_path = py ''up/a'', wr_content = [7, 8, 9]\<rparr>"
  unfolding demo_write_def re_payload_plain by (rule decode_write_requested_of) (simp_all del: b64encode.simps)

lemma demo_command_decodes:
  "decode_path_only_request (re_payload demo_command) allow = Inr \<lparr>po_path = py ''up/a''\<rparr>"
  unfolding demo_command_def re_payload_plain by (rule json_loads_path) simp_all

section \<open>The boundary\<close>

text \<open>
  C5: a path that \<open>resolve_within\<close> accepts is always written below the resolved root; and when
  all links it meets on the way resolve (no loop), the kernel's own walk of it, whatever its
  limit on links, ends on that very path or fails, so that no link leads an operation elsewhere.
  The hypothesis is needed: \<open>resolve_within_loop_escapes\<close>, below, is an accepted path that
  leads out through a link behind a loop.
\<close>

theorem resolve_within_confined:
  assumes "fs_wf fs" and "resolve fs root = Inr r" and "resolve_within fs root rel = Inr cand"
  shows "(\<exists>rest. cand = r @ rest)
    \<and> (request_links_resolve fs root rel \<longrightarrow> (\<forall>n q. namei n fs [] cand = Inr q \<longrightarrow> q = cand))"
proof (intro conjI impI allI)
  show "\<exists>rest. cand = r @ rest" using resolve_within_prefix [OF assms(3,2)] by blast
next
  fix n q
  assume "request_links_resolve fs root rel" and q: "namei n fs [] cand = Inr q"
  then have "canonical fs ([] @ cand)" using resolve_within_canonical [OF assms(1) _ assms(3)] by simp
  from namei_canonical [OF this] q show "q = cand"
    by (metis append_Nil empty_iff insert_iff sum.distinct(1) sum.inject(2))
qed

theorem resolve_within_confined_witness:
  "walk demo_fs (demo_root @ [py ''a'']) = Inr (demo_root @ [py ''a''])"
proof -
  have "(case walk demo_fs (demo_root @ [py ''a'']) of Inl _ \<Rightarrow> False | Inr _ \<Rightarrow> True)" by code_simp
  then have "\<exists>q. walk demo_fs (demo_root @ [py ''a'']) = Inr q" by (auto split: sum.splits)
  then show ?thesis
    using resolve_within_confined [OF demo_fs_wf demo_resolve demo_resolve_a] demo_links
    unfolding walk_def by metis
qed

text \<open>
  C30: on a well-formed file system \<open>resolve_within\<close> always ends (the nesting of links is
  within its bound), and an exception it raises is one of four; only the first of these is
  caught by the handlers.
\<close>

theorem resolve_within_errors:
  assumes "fs_wf fs" and "resolve_within fs root rel = Inl e"
  shows "e \<in> {PathTraversalError, UnicodeEncodeError, ValueErr, RuntimeErr}"
  using raises_onlyD [OF resolve_within_raises [OF assms(1)] assms(2)] .

theorem resolve_within_errors_witness:
  "\<exists>e. resolve_within demo_fs demo_root (py ''../../etc/passwd'') = Inl e
     \<and> e \<in> {PathTraversalError, UnicodeEncodeError, ValueErr, RuntimeErr}"
proof -
  have "resolve_within demo_fs demo_root (py ''../../etc/passwd'') = Inl PathTraversalError"
    by code_simp
  from this resolve_within_errors [OF demo_fs_wf this] show ?thesis by blast
qed

text \<open>
  A relative path with no links under a root with no links is accepted as it is written,
  \<open>.\<close> and empty components dropped, whether or not the file exists.
\<close>

lemma resolve_within_accepts:
  assumes "fs_wf fs" and "canonical fs (r @ path_parts rel)"
    and "path_error (r @ path_parts rel) = None" and "\<not> is_abs rel"
  shows "resolve_within fs r rel = Inr (r @ path_parts rel)"
  using resolve_within_plain [OF assms] .

lemma resolve_within_accepts_witness:
  "resolve_within demo_fs demo_root (py ''new//./dir/f'') = Inr (demo_root @ path_parts (py ''new//./dir/f''))"
proof (rule resolve_within_accepts [OF demo_fs_wf])
  show "canonical demo_fs (demo_root @ path_parts (py ''new//./dir/f''))"
    by code_simp
  show "path_error (demo_root @ path_parts (py ''new//./dir/f'')) = None" by code_simp
  show "\<not> is_abs (py ''new//./dir/f'')" by code_simp
qed

definition loop_fs :: filesystem where
  "loop_fs = [([py ''srv''], Dir), (demo_root, Dir), ([py ''etc''], Dir),
     (demo_root @ [py ''loop''], Symlink (py ''loop'')), (demo_root @ [py ''escape''], Symlink (py ''/etc''))]"

text \<open>
  The boundary has a hole where links do not resolve: with a link that leads to itself
  and a link that leads out, \<open>loop/../escape/x\<close> is accepted although the kernel's walk of
  the accepted path ends outside the root. (So \<open>resolve_within_confined\<close> needs its hypothesis on links.)
\<close>

lemma resolve_within_loop_escapes:
  "fs_wf loop_fs
   \<and> resolve_within loop_fs demo_root (py ''loop/../escape/x'') = Inr (demo_root @ [py ''escape'', py ''x''])
   \<and> walk loop_fs (demo_root @ [py ''escape'', py ''x'']) = Inr [py ''etc'', py ''x'']"
proof (intro conjI)
  show "fs_wf loop_fs" by code_simp
  show "resolve_within loop_fs demo_root (py ''loop/../escape/x'') = Inr (demo_root @ [py ''escape'', py ''x''])"
    by code_simp
  show "walk loop_fs (demo_root @ [py ''escape'', py ''x'']) = Inr [py ''etc'', py ''x'']" by code_simp
qed

section \<open>Confinement of the handlers\<close>

text \<open>
  C7: when all links that the requested path meets resolve (no loop), then whatever else a
  \<open>FileWriteRequested\<close> event holds, and whatever fails on the way, the write handler leaves every
  path outside the resolved watched directory as it was. Behind a loop it need not:
  \<open>resolve_within_loop_escapes\<close>.
\<close>

theorem write_confined:
  assumes "fs_wf (w_fs w)" and "resolve (w_fs w) d = Inr root" and "node_at (w_fs w) root = Some Dir"
    and "\<forall>req. decode_write_requested (re_payload ev) = Inr req \<longrightarrow> request_links_resolve (w_fs w) d (wr_path req)"
    and "outside root q"
  shows "node_at (w_fs (snd (write_handle B H d rw ev w))) q = node_at (w_fs w) q"
proof -
  obtain r w' where run: "write_handle B H d rw ev w = (r, w')" by fastforce
  from run [unfolded write_handle_def] have "node_at (w_fs w') q = node_at (w_fs w) q"
  proof (cases rule: resolved_command)
    case (run req target)
    from resolved_confined [OF assms(1-3) _ run(2)] assms(4) run(1) obtain rest where
      c: "confined (w_fs w) root target (w_fs w)" and t: "target = root @ rest" by blast
    from keepsD [OF write_confined_run [OF t] run(3) c] assms(5) show ?thesis
      by (simp add: confined_def)
  qed simp
  with run show ?thesis by simp
qed

theorem write_confined_witness:
  "node_at (w_fs (snd (write_handle calm_bus calm_host demo_root True demo_write demo_world))) [py ''etc'']
   = node_at (w_fs demo_world) [py ''etc'']"
proof (rule write_confined [where root = demo_root])
  show "outside demo_root [py ''etc'']" by (simp add: outside_def demo_root_def)
qed (use demo_fs_wf demo_resolve demo_node demo_links demo_write_decodes in simp_all)

text \<open>
  C8: when all links that the requested path meets resolve (no loop), the delete handler changes
  nothing outside the resolved watched directory, whatever fails on the way.
\<close>

theorem delete_confined:
  assumes "fs_wf (w_fs w)" and "resolve (w_fs w) d = Inr root" and "node_at (w_fs w) root = Some Dir"
    and "\<forall>req. decode_path_only_request (re_payload ev) False = Inr req \<longrightarrow> request_links_resolve (w_fs w) d (po_path req)"
    and "outside root q"
  shows "node_at (w_fs (snd (delete_handle B H d ev w))) q = node_at (w_fs w) q"
proof -
  obtain r w' where run: "delete_handle B H d ev w = (r, w')" by fastforce
  from run [unfolded delete_handle_def] have "node_at (w_fs w') q = node_at (w_fs w) q"
  proof (cases rule: resolved_command)
    case (run req target)
    from resolved_confined [OF assms(1-3) _ run(2)] assms(4) run(1) obtain rest where
      c: "confined (w_fs w) root target (w_fs w)" and t: "target = root @ rest" by blast
    from keepsD [OF delete_confined_run [OF t] run(3) c] assms(5) show ?thesis
      by (simp add: confined_def)
  qed simp
  with run show ?thesis by simp
qed

theorem delete_confined_witness:
  "node_at (w_fs (snd (delete_handle calm_bus calm_host demo_root demo_command demo_world))) [py ''etc'']
   = node_at (w_fs demo_world) [py ''etc'']"
proof (rule delete_confined [where root = demo_root])
  show "outside demo_root [py ''etc'']" by (simp add: outside_def demo_root_def)
qed (use demo_fs_wf demo_resolve demo_node demo_links demo_command_decodes in simp_all)

text \<open>
  C26: every handler keeps the file system well formed (each entry has a directory above it),
  and reading and listing leave it exactly as it was.
\<close>

theorem handlers_keep_fs:
  assumes "fs_wf (w_fs w)"
  shows "fs_wf (w_fs (snd (write_handle B H d rw ev w))) \<and> fs_wf (w_fs (snd (delete_handle B H d ev w)))
    \<and> w_fs (snd (read_handle B H d ev w)) = w_fs w \<and> w_fs (snd (list_handle B H d ev w)) = w_fs w"
  using assms keepsD [OF write_handle_keeps_wf, of B H d rw ev w]
    keepsD [OF delete_handle_keeps_wf, of B H d ev w]
    keeps_fs [OF read_handle_keeps, of B H d ev w] keeps_fs [OF list_handle_keeps, of B H d ev w]
  by (metis prod.collapse)

theorem handlers_keep_fs_witness:
  "fs_wf (w_fs (snd (write_handle calm_bus calm_host demo_root True demo_write demo_world)))
    \<and> fs_wf (w_fs (snd (delete_handle calm_bus calm_host demo_root demo_write demo_world)))
    \<and> w_fs (snd (read_handle calm_bus calm_host demo_root demo_write demo_world)) = w_fs demo_world
    \<and> w_fs (snd (list_handle calm_bus calm_host demo_root demo_write demo_world)) = w_fs demo_world"
  by (rule handlers_keep_fs) (simp add: demo_fs_wf)

section \<open>What the result events say\<close>

text \<open>The write handler as a whole, from the decoded request and the resolved target.\<close>

lemma write_publishes:
  assumes "decode_write_requested (re_payload ev) = Inr req"
    and "resolve_within (w_fs w) d (wr_path req) = Inr target"
    and "fs_wf (w_fs w)" and "canonical (w_fs w) target"
    and "a \<in> publishes (new_calls w (snd (write_handle B H d rw ev w)))"
  shows "node_at (w_fs (snd (write_handle B H d rw ev w))) target = Some (File (wr_content req)) \<and>
    (\<exists>now. a = (if p_exists (w_fs w) target
       then reply_args ev WRITE_COMPLETED_SUBJECT ''FileWriteCompleted''
              (encode_write_completed (wr_path req) (length (wr_content req)) None now)
       else reply_args ev CREATE_COMPLETED_SUBJECT ''FileCreateCompleted''
              (encode_create_completed (wr_path req) (length (wr_content req)) None now)))"
proof -
  obtain r w' where run: "write_handle B H d rw ev w = (r, w')" by fastforce
  with assms(5) have a: "a \<in> publishes (new_calls w w')" by simp
  from run [unfolded write_handle_def]
  have "node_at (w_fs w') target = Some (File (wr_content req)) \<and>
    (\<exists>now. a = (if p_exists (w_fs w) target
       then reply_args ev WRITE_COMPLETED_SUBJECT ''FileWriteCompleted''
              (encode_write_completed (wr_path req) (length (wr_content req)) None now)
       else reply_args ev CREATE_COMPLETED_SUBJECT ''FileCreateCompleted''
              (encode_create_completed (wr_path req) (length (wr_content req)) None now)))"
    (is ?goal)
  proof (cases rule: resolved_command)
    case early
    with a early_publishes show ?thesis by blast
  next
    case (run req' target')
    then have eq: "req' = req" "target' = target" using assms(1,2) by simp_all
    from run(3) [unfolded eq] show ?thesis
    proof (cases rule: query_seq)
      case fault
      with a show ?thesis by simp
    next
      case (answer w1)
      from answer(1) show ?thesis
        by (rule write_tail) (use answer assms a new_calls_same [of w1 w w'] in simp_all)
    qed
  qed
  with run show ?thesis by simp
qed

text \<open>
  C10: whatever the write handler publishes, the file at the resolved target holds exactly the
  requested content by then, and the event says truthfully whether it was there before, under
  the requested path, with its size and correlated to the command.
\<close>

theorem write_reports:
  assumes "decode_write_requested (re_payload ev) = Inr req"
    and "resolve_within (w_fs w) d (wr_path req) = Inr target"
    and "fs_wf (w_fs w)" and "canonical (w_fs w) target"
    and "a \<in> publishes (new_calls w (snd (write_handle B H d rw ev w)))"
  shows "node_at (w_fs (snd (write_handle B H d rw ev w))) target = Some (File (wr_content req)) \<and>
    (\<exists>now. a = (if p_exists (w_fs w) target
       then reply_args ev WRITE_COMPLETED_SUBJECT ''FileWriteCompleted''
              (encode_write_completed (wr_path req) (length (wr_content req)) None now)
       else reply_args ev CREATE_COMPLETED_SUBJECT ''FileCreateCompleted''
              (encode_create_completed (wr_path req) (length (wr_content req)) None now)))"
  by (rule write_publishes [OF assms])

lemma demo_canonical: "canonical demo_fs (demo_root @ [py ''a''])"
  by code_simp

lemma demo_world_calls [simp]: "w_calls demo_world = []"
  by (simp add: demo_world_def)

text \<open>Unfolding a whole run on the demo world.\<close>

lemmas run_defs = try_else_def lift_res_def resolve_request_def seq_def os_op_def query_def reading_def
  changing_def tick_def ret_def publish_reply_def utc_now_def b_publish_def b_ack_def b_nak_def via_def
  calm_bus_def calm_host_def demo_world_def report_failed_def

theorem write_reports_witness:
  "node_at (w_fs (snd (write_handle calm_bus calm_host demo_root False demo_write demo_world)))
     (demo_root @ [py ''a'']) = Some (File [7, 8, 9])"
proof -
  have d: "decode_write_requested (re_payload demo_write) = Inr \<lparr>wr_path = py ''up/a'', wr_content = [7, 8, 9]\<rparr>"
    by (rule demo_write_decodes)
  have t: "resolve_within (w_fs demo_world) demo_root (wr_path \<lparr>wr_path = py ''up/a'', wr_content = [7, 8, 9]\<rparr>)
      = Inr (demo_root @ [py ''a''])"
    using demo_resolve_a by simp
  have e: "p_exists demo_fs (demo_root @ [py ''a''])" by code_simp
  have mk: "mkdir_p demo_fs demo_root = (Inr (), demo_fs)" by code_simp
  have op: "create_op (demo_root @ [py ''a'']) demo_fs
      = (Inr (demo_root @ [py ''a'']), dict_set (demo_root @ [py ''a'']) (File []) demo_fs)" by code_simp
  have "reply_args demo_write WRITE_COMPLETED_SUBJECT ''FileWriteCompleted''
          (encode_write_completed (py ''up/a'') 3 None 4)
      \<in> publishes (new_calls demo_world (snd (write_handle calm_bus calm_host demo_root False demo_write demo_world)))"
    using d t e mk op
    by (simp add: write_handle_def run_defs write_file_def write_bytes_def write_report_def
        publishes_def new_calls_def reply_args_def eval_nat_numeral)
  from write_reports [OF d t _ _ this] show ?thesis
    by (simp add: demo_fs_wf demo_canonical)
qed

text \<open>The run of a handler that has decoded its request and resolved its path.\<close>

lemma resolved_run:
  "dec = Inr req \<Longrightarrow> resolve_within (w_fs w) d (path req) = Inr target \<Longrightarrow>
   try_else p1 (lift_res dec) h1 (\<lambda>req. try_else p2 (resolve_request d (path req)) h2 (k req)) w = k req target w"
  by (simp add: try_else_def lift_res_def resolve_request_def)




definition demo_list :: received_event where
  "demo_list = plain_event (json_bytes (JDict [(py ''path'', JStr [])]))"

lemma demo_list_decodes:
  "decode_path_only_request (re_payload demo_list) True = Inr \<lparr>po_path = []\<rparr>"
  unfolding demo_list_def re_payload_plain by (rule json_loads_path) simp_all

definition demo_entries :: "file_entry list" where
  "demo_entries = [\<lparr>fe_name = py ''a'', fe_is_directory = False, fe_size_bytes = 2\<rparr>,
     \<lparr>fe_name = py ''up'', fe_is_directory = True, fe_size_bytes = 0\<rparr>]"


text \<open>
  C25: when the delete handler publishes \<open>FileDeleteCompleted\<close>, the path led to a file before
  and is gone now; otherwise it publishes \<open>not_found\<close> and the file system is as it was.
\<close>

theorem delete_reports:
  assumes "decode_path_only_request (re_payload ev) False = Inr req"
    and "resolve_within (w_fs w) d (po_path req) = Inr target"
    and "canonical (w_fs w) target"
    and "a \<in> publishes (new_calls w (snd (delete_handle B H d ev w)))"
  shows "\<exists>now. if p_is_file (w_fs w) target
     then node_at (w_fs (snd (delete_handle B H d ev w))) target = None \<and>
        a = reply_args ev DELETE_COMPLETED_SUBJECT ''FileDeleteCompleted''
              (encode_delete_completed (po_path req) None now)
     else w_fs (snd (delete_handle B H d ev w)) = w_fs w \<and>
        a = reply_args ev OPERATION_FAILED_SUBJECT ''FileOperationFailed''
              (encode_operation_failed (po_path req) (py ''delete'') (py ''not_found'') None now)"
proof -
  obtain r w' where run: "delete_handle B H d ev w = (r, w')" by fastforce
  with assms(4) have a: "a \<in> publishes (new_calls w w')" by simp
  from run [unfolded delete_handle_def] have "\<exists>now. if p_is_file (w_fs w) target
     then node_at (w_fs w') target = None \<and>
        a = reply_args ev DELETE_COMPLETED_SUBJECT ''FileDeleteCompleted''
              (encode_delete_completed (po_path req) None now)
     else w_fs w' = w_fs w \<and>
        a = reply_args ev OPERATION_FAILED_SUBJECT ''FileOperationFailed''
              (encode_operation_failed (po_path req) (py ''delete'') (py ''not_found'') None now)"
  proof (cases rule: resolved_command)
    case early
    with a early_publishes show ?thesis by blast
  next
    case (run req' target')
    then have eq: "req' = req" "target' = target" using assms(1,2) by simp_all
    from run(3) [unfolded eq] show ?thesis
    proof (cases rule: query_seq)
      case fault
      with a show ?thesis by simp
    next
      case (answer w1)
      have pub: "publishes (new_calls w w') = publishes (new_calls w1 w')"
        using answer(3) new_calls_same by metis
      show ?thesis
      proof (cases "p_is_file (w_fs w) target")
        case False
        with answer(1) have rf: "report_failed B H ev (po_path req) ''delete'' ''not_found'' w1 = (r, w')" by simp
        from keeps_fs [OF keeps_failed rf] failed_publishes [OF rf] a pub answer(2) False
        show ?thesis by auto
      next
        case True
        with answer(1) have "try_else is_os_error (os_op H (changing (\<lambda>fs. os_unlink fs target))) (b_nak B ev) (\<lambda>_.
       seq (publish_reply B H ev DELETE_COMPLETED_SUBJECT (py ''FileDeleteCompleted'')
              (encode_delete_completed (po_path req) None)) (\<lambda>_. b_ack B ev)) w1 = (r, w')" by simp
        from delete_tail [OF this _ _ a [unfolded pub]] assms(3) answer(2) True show ?thesis by auto
      qed
    qed
  qed
  then show ?thesis unfolding run snd_conv .
qed

theorem delete_reports_witness:
  "node_at (w_fs (snd (delete_handle calm_bus calm_host demo_root demo_command demo_world)))
     (demo_root @ [py ''a'']) = None"
proof -
  have d: "decode_path_only_request (re_payload demo_command) False = Inr \<lparr>po_path = py ''up/a''\<rparr>"
    by (rule demo_command_decodes)
  have t: "resolve_within (w_fs demo_world) demo_root (po_path \<lparr>po_path = py ''up/a''\<rparr>)
      = Inr (demo_root @ [py ''a''])"
    using demo_resolve_a by simp
  have f: "p_is_file demo_fs (demo_root @ [py ''a''])" by code_simp
  have u: "os_unlink demo_fs (demo_root @ [py ''a'']) = Inr (dict_pop (demo_root @ [py ''a'']) demo_fs)" by code_simp
  have "reply_args demo_command DELETE_COMPLETED_SUBJECT ''FileDeleteCompleted'' (encode_delete_completed (py ''up/a'') None 2)
      \<in> publishes (new_calls demo_world (snd (delete_handle calm_bus calm_host demo_root demo_command demo_world)))"
    using d t f u
    by (simp add: delete_handle_def run_defs publishes_def new_calls_def reply_args_def)
  from delete_reports [OF d t _ this] f demo_canonical show ?thesis by auto
qed

section \<open>Settling\<close>

text \<open>
  The four command loops settle what they fetch. As long as a loop runs, and when it ends
  at a shutdown, every message it fetched has been settled once, in order; when it dies of an
  exception, what is left unsettled is a suffix of what it fetched.
\<close>

lemma file_loops_settle:
  assumes "h \<in> {write_handle B H d rw, read_handle B H d, list_handle B H d, delete_handle B H d}"
    and "settled (w_calls w) = fetched (w_calls w)"
  shows "case run_command_loop B h durable batch rs w of (r, w') \<Rightarrow>
     \<exists>rest. fetched (w_calls w') = settled (w_calls w') @ rest \<and> (r = None \<or> r = Some (Inr ()) \<longrightarrow> rest = [])"
proof -
  have h: "command_handler h"
    using assms(1) write_cmd.command_handler_axioms read_cmd.command_handler_axioms
      list_cmd.command_handler_axioms delete_cmd.command_handler_axioms by blast
  obtain r w' where run: "run_command_loop B h durable batch rs w = (r, w')" by fastforce
  have "\<exists>rest. fetched (w_calls w') = settled (w_calls w') @ rest \<and> (r = None \<or> r = Some (Inr ()) \<longrightarrow> rest = [])"
  proof (cases "r = None \<or> r = Some (Inr ())")
    case True
    from command_handler.loop_settles [OF h run assms(2) True] show ?thesis by simp
  next
    case False
    then obtain e where "r = Some (Inl e)" by (cases r; cases "the r") auto
    with command_handler.loop_raised [OF h, of B durable batch rs w e w'] assms(2) run False show ?thesis by blast
  qed
  with run show ?thesis by simp
qed

text \<open>A bus that hands out one event.\<close>

definition one_event_bus :: "received_event \<Rightarrow> unit bus" where
  "one_event_bus ev = calm_bus\<lparr>bus_fetch := (\<lambda>_ _. ret [ev])\<rparr>"

text \<open>
  A payload that is not a valid command settles its event with one ack and does nothing
  else: always for a write request, whose decoder maps every failure to
  \<open>MalformedPayloadError\<close>; for the other three when their decoder says so.
\<close>

lemma malformed_is_acked:
  "decode_write_requested raw = Inl e \<Longrightarrow> re_payload ev = raw \<Longrightarrow>
     write_handle B H d rw ev w = b_ack B ev w"
  using decode_write_requested_cases [of raw]
  by (auto simp: write_handle_def try_else_def lift_res_def is_malformed_def)

lemma malformed_is_acked_witness:
  "write_handle calm_bus calm_host demo_root True (plain_event [1]) demo_world
     = b_ack calm_bus (plain_event [1]) demo_world"
proof -
  have "json_loads [1] = Inl JSONDecodeError" by code_simp
  then have "decode_write_requested [1] = Inl MalformedPayloadError"
    by (simp add: decode_write_requested_def catch_as_def)
  then show ?thesis by (rule malformed_is_acked) simp
qed

text \<open>
  A payload whose bytes are no text in the encoding they announce escapes the read, list
  and delete handlers: their decoder lets \<open>UnicodeDecodeError\<close> through, so the event stays
  unsettled and the exception leaves \<open>run_once\<close> and with it the command loop.
\<close>

lemma undecodable_escapes:
  assumes "decode_text (re_payload ev) = Inl UnicodeDecodeError"
  shows "read_handle B H d ev w = (Inl UnicodeDecodeError, w)
    \<and> list_handle B H d ev w = (Inl UnicodeDecodeError, w)
    \<and> delete_handle B H d ev w = (Inl UnicodeDecodeError, w)"
  using decode_path_only_undecodable [OF assms]
  by (simp add: read_handle_def list_handle_def delete_handle_def try_else_def lift_res_def is_malformed_def)

lemma undecodable_escapes_witness:
  "read_handle calm_bus calm_host demo_root (plain_event [0xFF]) demo_world = (Inl UnicodeDecodeError, demo_world)
    \<and> list_handle calm_bus calm_host demo_root (plain_event [0xFF]) demo_world = (Inl UnicodeDecodeError, demo_world)
    \<and> delete_handle calm_bus calm_host demo_root (plain_event [0xFF]) demo_world = (Inl UnicodeDecodeError, demo_world)"
proof -
  have "decode_text [0xFF] = Inl UnicodeDecodeError" by code_simp
  then show ?thesis by (intro undecodable_escapes) simp
qed

end
