(* ===== verification/Fs_Echo.thy ===== *)
theory Fs_Echo
  imports Entrypoints Fs_Properties
begin

text \<open>
  The write handler and the watch of the file storage adapter together, over the record of
  recent writes they share: a file the adapter wrote itself is not reported a second time as
  created by someone else, whatever the other loops do in between.
\<close>

section \<open>How runs change the world\<close>

text \<open>
  A preorder on worlds; \<open>moves m\<close>: every run of \<open>m\<close> goes up in it.
\<close>

locale effect_order =
  fixes le :: "'w \<Rightarrow> 'w \<Rightarrow> bool"
  assumes le_refl: "le w w" and le_trans: "le u v \<Longrightarrow> le v w \<Longrightarrow> le u w"
begin

definition moves :: "('w, 'a) comp \<Rightarrow> bool" where
  "moves m \<longleftrightarrow> (\<forall>w. le w (snd (m w)))"

lemma movesD: "moves m \<Longrightarrow> m w = (r, w') \<Longrightarrow> le w w'"
  unfolding moves_def by (metis snd_conv)

lemma moves_seq: "moves m \<Longrightarrow> (\<And>a. moves (k a)) \<Longrightarrow> moves (seq m k)"
  unfolding moves_def seq_def by (auto split: prod.splits sum.splits) (metis le_trans snd_conv)+

lemma moves_try: "moves m \<Longrightarrow> moves h \<Longrightarrow> (\<And>a. moves (k a)) \<Longrightarrow> moves (try_else p m h k)"
  unfolding moves_def try_else_def by (auto split: prod.splits sum.splits) (metis le_trans snd_conv)+

lemma moves_if: "moves m \<Longrightarrow> moves n \<Longrightarrow> moves (if b then m else n)"
  by simp

lemma moves_ret: "moves (ret a)"
  by (simp add: moves_def ret_def le_refl)

lemma moves_lift_res: "moves (lift_res a)"
  by (simp add: moves_def lift_res_def le_refl)

lemma moves_raise: "moves (raise e)"
  by (simp add: moves_def raise_def le_refl)

lemma moves_for_each: "(\<And>x. moves (f x)) \<Longrightarrow> moves (for_each f xs)"
proof (induction xs)
  case Nil
  show ?case by (simp add: moves_def le_refl)
next
  case (Cons x xs)
  have "for_each f (x # xs) = seq (f x) (\<lambda>_. for_each f xs)" by (auto simp: seq_def fun_eq_iff)
  with Cons show ?case by (simp add: moves_seq)
qed

lemmas moves_rules = moves_seq moves_try moves_if moves_ret moves_lift_res moves_raise moves_for_each

end

section \<open>The mark of a path\<close>

abbreviation steady_clock :: "host \<Rightarrow> bool" where
  "steady_clock H \<equiv> (\<forall>a b. a \<le> b \<longrightarrow> monotonic_at H a \<le> monotonic_at H b)"

text \<open>The record holds a mark of \<open>p\<close> made at \<open>m\<close> or later, but not in the future.\<close>

definition marked_since :: "host \<Rightarrow> path \<Rightarrow> int \<Rightarrow> 'c fs_world \<Rightarrow> bool" where
  "marked_since H p m w \<longleftrightarrow> dict_ok (marked_at (w_recent w)) \<and> ttl (w_recent w) = DEFAULT_TTL
     \<and> m \<le> monotonic_at H (w_tick w)
     \<and> (\<exists>m' \<ge> m. dict_get (marked_at (w_recent w)) p = Some m')"

text \<open>Time passes, and within the time to live the mark stays.\<close>

definition remembers :: "host \<Rightarrow> path \<Rightarrow> int \<Rightarrow> 'c fs_world \<Rightarrow> 'c fs_world \<Rightarrow> bool" where
  "remembers H p m w w' \<longleftrightarrow> steady_clock H \<longrightarrow>
     w_tick w \<le> w_tick w'
     \<and> (monotonic_at H (w_tick w') \<le> m + DEFAULT_TTL \<longrightarrow> marked_since H p m w \<longrightarrow> marked_since H p m w')"

interpretation memory: effect_order "remembers H p m" for H p m
proof
  show "remembers H p m w w" for w by (simp add: remembers_def)
  show "remembers H p m u w" if "remembers H p m u v" "remembers H p m v w" for u v w
    using that unfolding remembers_def by (meson le_trans order_trans)
qed

named_theorems memory_intros \<open>rules for the memory of own writes\<close>

declare memory.moves_rules [memory_intros]

lemma memory_same:
  assumes "\<And>w. w_tick (snd (m w)) = w_tick w \<and> w_recent (snd (m w)) = w_recent w"
  shows "memory.moves H p t m"
  unfolding memory.moves_def remembers_def marked_since_def using assms by simp

lemma memory_tick [memory_intros]: "memory.moves H p t tick"
  unfolding memory.moves_def remembers_def marked_since_def
  by (auto simp: tick_def) (meson le_SucI order_refl order_trans)

lemma memory_via: "memory.moves H p t (via m l :: ('c fs_world, 'a) comp)"
  by (rule memory_same) (simp add: via_def split: prod.splits)

lemma memory_bus [memory_intros]:
  "memory.moves H p t (b_ack B ev :: ('c fs_world, unit) comp)"
  "memory.moves H p t (b_nak B ev :: ('c fs_world, unit) comp)"
  "memory.moves H p t (b_publish B a :: ('c fs_world, pystr) comp)"
  "memory.moves H p t (b_fetch B d n :: ('c fs_world, _) comp)"
  unfolding b_ack_def b_nak_def b_publish_def b_fetch_def by (rule memory_via)+

lemma memory_reply [memory_intros]:
  "memory.moves H p t (publish_reply B H' ev s u q :: ('c fs_world, pystr) comp)"
  unfolding publish_reply_def utc_now_def by (intro memory_intros)

lemma memory_failed [memory_intros]: "memory.moves H p t (report_failed B H' ev q o' r)"
  unfolding report_failed_def by (intro memory_intros)

lemma memory_report [memory_intros]: "memory.moves H p t (write_report B H' ev request b)"
  unfolding write_report_def Let_def by (intro memory_intros)

lemma memory_resolve [memory_intros]: "memory.moves H p t (resolve_request d q)"
  by (rule memory_same) (simp add: resolve_request_def)

lemma memory_os_op [memory_intros]: "memory.moves H p t (os_op H' f)"
  unfolding os_op_def
  by (intro memory.moves_seq memory_tick memory_same) (auto split: prod.splits sum.splits)

lemma memory_write_file [memory_intros]: "memory.moves H p t (write_file H' target c)"
  unfolding write_file_def write_bytes_def
  by (intro memory.moves_seq memory_os_op memory_tick memory_same) (auto split: option.splits)

text \<open>The two operations on the record: a later mark replaces an earlier one, and only what
  has expired is pruned.\<close>

lemma memory_mark [memory_intros]: "memory.moves H p m (mark_recent H q)"
  unfolding memory.moves_def remembers_def marked_since_def
  by (auto simp: mark_recent_def monotonic_def seq_def tick_def ret_def rw_mark_def dict_get_set)
     (meson le_SucI order_refl order_trans)+

lemma memory_was_recent [memory_intros]: "memory.moves H p m (was_recent H q)"
  unfolding memory.moves_def
proof
  fix w :: "'a fs_world"
  let ?now = "monotonic_at H (w_tick w)" and ?w' = "snd (was_recent H q w)"
  have w': "w_tick ?w' = Suc (w_tick w)" "w_recent ?w' = rw_prune ?now (w_recent w)"
    by (simp_all add: was_recent_def monotonic_def seq_def tick_def ret_def rw_was_recent_def Let_def)
  show "remembers H p m w ?w'"
    unfolding remembers_def
  proof (intro impI conjI)
    assume clock: "steady_clock H"
      and inside: "monotonic_at H (w_tick ?w') \<le> m + DEFAULT_TTL" and held: "marked_since H p m w"
    have later: "?now \<le> monotonic_at H (Suc (w_tick w))" using clock by simp
    have "ttl (rw_prune ?now (w_recent w)) = ttl (w_recent w)" by (simp add: rw_prune_def Let_def)
    then show "marked_since H p m ?w'"
      using held inside later w' rw_prune_get [of "w_recent w" ?now p] by (auto simp: marked_since_def)
  qed (simp add: w')
qed

section \<open>The handlers and the watch\<close>

lemma memory_handlers [memory_intros]:
  "memory.moves H p m (write_handle B H d rw ev)" "memory.moves H p m (read_handle B H d ev)"
  "memory.moves H p m (list_handle B H d ev)" "memory.moves H p m (delete_handle B H d ev)"
  unfolding write_handle_def read_handle_def list_handle_def delete_handle_def by (intro memory_intros)+

lemma memory_run_once [memory_intros]:
  "(\<And>ev. memory.moves H p m (h ev)) \<Longrightarrow> memory.moves H p m (run_once B h durable batch)"
  unfolding run_once_def by (intro memory_intros)

lemma memory_file_loop: "memory.moves H p m (loop_turn B (file_loops B H d sid) i)"
proof -
  have "\<forall>l \<in> set (file_loops B H d sid). \<forall>ev. memory.moves H p m (snd l ev)"
    by (simp add: file_loops_def memory_handlers)
  then have "\<forall>ev. memory.moves H p m (snd (file_loops B H d sid ! i) ev)" if "i < length (file_loops B H d sid)"
    using that by simp
  then show ?thesis
    unfolding loop_turn_def split_beta by (auto intro!: memory_intros)
qed

lemma memory_change [memory_intros]: "memory.moves H p m (handle_change B H d chg)"
  unfolding handle_change_def handle_new_file_def utc_now_def
  by (auto split: option.splits intro!: memory_intros)

lemma memory_turn [memory_intros]: "memory.moves H p m (file_turn_step B H d sid t)"
  by (cases t) (auto simp: file_turn_step_def run_forever_def intro!: memory_intros memory_file_loop)

section \<open>The write handler marks what it writes\<close>

text \<open>Before the mark the handler leaves the record alone.\<close>

definition unmarked :: "'c fs_world \<Rightarrow> 'c fs_world \<Rightarrow> bool" where
  "unmarked w w' \<longleftrightarrow> w_recent w' = w_recent w \<and> w_tick w \<le> w_tick w'"

interpretation prefix: effect_order unmarked
  by unfold_locales (auto simp: unmarked_def)

lemma prefix_os_op: "prefix.moves (os_op H f)"
  by (auto simp: prefix.moves_def unmarked_def os_op_def seq_def tick_def split: prod.splits sum.splits)

lemma prefix_write_file: "prefix.moves (write_file H target c)"
proof -
  have "prefix.moves (write_bytes H q c)" for q
    by (auto simp: prefix.moves_def unmarked_def write_bytes_def seq_def tick_def split: option.splits)
  then show ?thesis unfolding write_file_def by (intro prefix.moves_seq prefix_os_op)
qed

lemma mark_recent_marks:
  assumes "mark_recent H p w = (r, w')" and "steady_clock H"
    and "dict_ok (marked_at (w_recent w))" and "ttl (w_recent w) = DEFAULT_TTL" and "k \<le> w_tick w"
  shows "marked_since H p (monotonic_at H k) w'"
proof -
  have "monotonic_at H k \<le> monotonic_at H (w_tick w)" "monotonic_at H k \<le> monotonic_at H (Suc (w_tick w))"
    using assms(2,5) by simp_all
  with assms(1,3,4) show ?thesis
    by (auto simp: marked_since_def mark_recent_def monotonic_def seq_def tick_def ret_def rw_mark_def dict_get_set)
qed

text \<open>What the write handler publishes, it publishes after the mark.\<close>

lemma write_marks:
  assumes run: "write_handle B H d True ev w = (r, w')"
    and clock: "steady_clock H"
    and recent: "dict_ok (marked_at (w_recent w))" "ttl (w_recent w) = DEFAULT_TTL"
    and pub: "publishes (new_calls w w') \<noteq> {}"
    and dec: "decode_write_requested (re_payload ev) = Inr req"
    and tgt: "resolve_within (w_fs w) d (wr_path req) = Inr target"
    and inside: "monotonic_at H (w_tick w') \<le> monotonic_at H (w_tick w) + DEFAULT_TTL"
  shows "marked_since H target (monotonic_at H (w_tick w)) w'"
  using run [unfolded write_handle_def]
proof (cases rule: resolved_command)
  case early
  with pub early_publishes show ?thesis by blast
next
  case (run req' target')
  then have eq: "req' = req" "target' = target" using dec tgt by simp_all
  from run(3) [unfolded eq] show ?thesis
  proof (cases rule: seq_cases)
    case (1 e)
    with pub new_calls_none [OF os_op_calls [OF 1(1)]] show ?thesis by simp
  next
    case (2 existed w1)
    note u1 = prefix.movesD [OF prefix_os_op 2(1)] and c1 = os_op_calls [OF 2(1)]
    from 2(2) show ?thesis
    proof (cases rule: try_else_cases)
      case (1 e)
      with pub new_calls_none [of w' w] c1 silentD [OF silent_write_file 1(1)] show ?thesis by simp
    next
      case (2 e w2)
      with pub nak_publishes [OF 2(3)] new_calls_same [of w2 w w'] c1 silentD [OF silent_write_file 2(1)]
      show ?thesis by simp
    next
      case (3 u w2)
      have u2: "unmarked w w2"
        using u1 prefix.movesD [OF prefix_write_file 3(1)] by (rule prefix.le_trans)
      have c2: "w_calls w2 = w_calls w" using c1 silentD [OF silent_write_file 3(1)] by simp
      from 3(2) have "seq (mark_recent H target) (\<lambda>_. write_report B H ev req existed) w2 = (r, w')" by simp
      then show ?thesis
      proof (cases rule: seq_cases)
        case (1 e)
        with pub c2 new_calls_none [of w' w] silentD [OF silent_mark_recent 1(1)] show ?thesis by simp
      next
        case (2 u' w3)
        have "marked_since H target (monotonic_at H (w_tick w)) w3"
          using mark_recent_marks [OF 2(1) clock] recent u2 by (simp add: unmarked_def)
        with memory.movesD [OF memory_report 2(2)] clock inside show ?thesis by (auto simp: remembers_def)
      qed
    qed
  qed
qed

section \<open>Property\<close>

text \<open>
  C11: a write the adapter has reported is not reported again by its watch under the resolved
  path it was written to: whatever turns the command loops and the watch take in between, as long as
  the time to live since the write began has not passed, the watch publishes nothing for an
  addition of that path. Both conditions matter: a write that fails half way leaves a file that
  was never marked (\<open>cut_write_echoed\<close>), and below a watched directory that is itself a link the
  watch sees another path than the one marked (\<open>linked_root_echoes\<close>).
\<close>

theorem own_write_not_echoed:
  assumes "write_handle B H d True ev w = (r, w1)" and "publishes (new_calls w w1) \<noteq> {}"
    and "decode_write_requested (re_payload ev) = Inr req" and "resolve_within (w_fs w) d (wr_path req) = Inr target"
    and "dict_ok (marked_at (w_recent w))" and "ttl (w_recent w) = DEFAULT_TTL"
    and "for_each (file_turn_step B H d sid) turns w1 = (r', w2)"
    and "\<forall>a b. a \<le> b \<longrightarrow> monotonic_at H a \<le> monotonic_at H b"
    and "monotonic_at H (Suc (w_tick w2)) \<le> monotonic_at H (w_tick w) + DEFAULT_TTL"
    and "ch_path chg = target"
  shows "publishes (new_calls w2 (snd (handle_change B H d chg w2))) = {}"
proof (rule ccontr)
  assume "publishes (new_calls w2 (snd (handle_change B H d chg w2))) \<noteq> {}"
  then obtain a where a: "a \<in> publishes (new_calls w2 (snd (handle_change B H d chg w2)))" by blast
  let ?m = "monotonic_at H (w_tick w)" and ?now = "monotonic_at H (Suc (w_tick w2))"
  have step: "remembers H target ?m w1 w2"
    using memory.movesD [OF memory.moves_for_each assms(7)] memory_turn by blast
  then have "monotonic_at H (w_tick w1) \<le> monotonic_at H (w_tick w2)" "monotonic_at H (w_tick w2) \<le> ?now"
    using assms(8) by (simp_all add: remembers_def)
  with assms(9) have "monotonic_at H (w_tick w1) \<le> ?m + DEFAULT_TTL" "monotonic_at H (w_tick w2) \<le> ?m + DEFAULT_TTL"
    by simp_all
  with write_marks [OF assms(1,8,5,6,2,3,4)] step assms(8) have held: "marked_since H target ?m w2"
    by (simp add: remembers_def)
  then have "fst (rw_was_recent ?now target (w_recent w2))"
    using rw_prune_get [of "w_recent w2" ?now target] assms(9)
    by (auto simp: marked_since_def rw_was_recent_def Let_def)
  moreover have "\<not> fst (rw_was_recent ?now (ch_path chg) (w_recent w2))"
    using change_publishes [OF _ a] by (metis prod.collapse)
  ultimately show False using assms(10) by simp
qed

definition demo_echo :: fs_change where
  "demo_echo = \<lparr>ch_kind = Added, ch_path = demo_root @ [py ''a''], ch_polls = replicate 4 (Inr 3)\<rparr>"

definition demo_turns :: "file_turn list" where
  "demo_turns = [CommandTurn 0, WatchTurn [], CommandTurn 2]"

theorem own_write_not_echoed_witness:
  "let w1 = snd (write_handle calm_bus calm_host demo_root True demo_write demo_world);
       w2 = snd (for_each (file_turn_step calm_bus calm_host demo_root (py ''fs'')) demo_turns w1) in
   publishes (new_calls demo_world w1) \<noteq> {} \<and>
   publishes (new_calls w2 (snd (handle_change calm_bus calm_host demo_root demo_echo w2))) = {}"
proof -
  let ?req = "\<lparr>wr_path = py ''up/a'', wr_content = [7, 8, 9]\<rparr>"
  let ?run = "write_handle calm_bus calm_host demo_root True demo_write demo_world"
  let ?run2 = "for_each (file_turn_step calm_bus calm_host demo_root (py ''fs'')) demo_turns (snd ?run)"
  have d: "decode_write_requested (re_payload demo_write) = Inr ?req"
    by (rule demo_write_decodes)
  have t: "resolve_within (w_fs demo_world) demo_root (wr_path ?req) = Inr (demo_root @ [py ''a''])"
    using demo_resolve_a by simp
  have e: "p_exists demo_fs (demo_root @ [py ''a''])" by code_simp
  have mk: "mkdir_p demo_fs demo_root = (Inr (), demo_fs)" by code_simp
  have op: "create_op (demo_root @ [py ''a'']) demo_fs
      = (Inr (demo_root @ [py ''a'']), dict_set (demo_root @ [py ''a'']) (File []) demo_fs)" by code_simp
  have run: "publishes (new_calls demo_world (snd ?run)) \<noteq> {} \<and> w_tick (snd ?run) \<le> 10"
    using d t e mk op
    by (simp add: write_handle_def run_defs write_file_def write_bytes_def write_report_def mark_recent_def
        monotonic_def publishes_def new_calls_def reply_args_def eval_nat_numeral)
  have turns: "w_tick (snd ?run2) = w_tick (snd ?run)"
    by (simp add: demo_turns_def file_turn_step_def loop_turn_def file_loops_def run_once_def b_fetch_def
        run_forever_def run_defs)
  have "publishes (new_calls (snd ?run2) (snd (handle_change calm_bus calm_host demo_root demo_echo (snd ?run2)))) = {}"
  proof (rule own_write_not_echoed [where w = demo_world and req = ?req])
    show "?run = (fst ?run, snd ?run)" "?run2 = (fst ?run2, snd ?run2)" by simp_all
    show "monotonic_at calm_host (Suc (w_tick (snd ?run2))) \<le> monotonic_at calm_host (w_tick demo_world) + DEFAULT_TTL"
      using run turns by (simp add: calm_host_def demo_world_def DEFAULT_TTL_def)
  qed (use run d t in \<open>simp_all add: demo_world_def recent_writes_init_def calm_host_def demo_echo_def\<close>)
  with run show ?thesis by (simp add: Let_def)
qed

section \<open>Where the echo is heard\<close>

definition linked_dir :: path where "linked_dir = [py ''srv'', py ''ln'']"

definition link_fs :: filesystem where
  "link_fs = (linked_dir, Symlink (py ''watch'')) # demo_fs"

definition link_world :: "unit fs_world" where
  "link_world = demo_world\<lparr>w_fs := link_fs\<rparr>"

definition cut_host :: host where
  "cut_host = calm_host\<lparr>write_cut_at := (\<lambda>_. Some 1)\<rparr>"

text \<open>What the watch does with an added file that is not marked.\<close>

lemma unmarked_reported:
  assumes "p_is_file (w_fs w) (d @ [n])" and "dict_ok (marked_at (w_recent w))"
    and "dict_get (marked_at (w_recent w)) (d @ [n]) = None"
  shows "publishes (new_calls w (snd (handle_change calm_bus calm_host d
    \<lparr>ch_kind = Added, ch_path = d @ [n], ch_polls = replicate 4 (Inr 3)\<rparr> w))) \<noteq> {}"
proof -
  obtain rw where rw: "rw_was_recent (int (Suc (w_tick w))) (d @ [n]) (w_recent w) = (False, rw)"
    using rw_prune_get [OF assms(2), of "int (Suc (w_tick w))" "d @ [n]"] assms(3)
    by (auto simp: rw_was_recent_def Let_def)
  have st: "wait_until_settled SETTLE_STABLE_READS (replicate 4 (Inr 3)) = Some (Inr (Some 3))" by code_simp
  show ?thesis
    using assms(1) rw st
    by (simp add: handle_change_def seq_query was_recent_def monotonic_def handle_new_file_def relative_to_def
        run_defs publishes_def new_calls_def)
qed

text \<open>A reported write, seen by the watch through the link it was told to watch.\<close>

lemma linked_root_echoes:
  assumes "w1 = snd (write_handle calm_bus calm_host linked_dir True demo_write link_world)"
  shows "node_at (w_fs w1) (demo_root @ [py ''a'']) = Some (File [7, 8, 9])
    \<and> publishes (new_calls link_world w1) \<noteq> {}
    \<and> publishes (new_calls w1 (snd (handle_change calm_bus calm_host linked_dir
        \<lparr>ch_kind = Added, ch_path = linked_dir @ [py ''a''], ch_polls = replicate 4 (Inr 3)\<rparr> w1))) \<noteq> {}"
proof -
  have t: "resolve_within link_fs linked_dir (py ''up/a'') = Inr (demo_root @ [py ''a''])" by code_simp
  have e: "p_exists link_fs (demo_root @ [py ''a''])" by code_simp
  have mk: "mkdir_p link_fs demo_root = (Inr (), link_fs)" by code_simp
  have op: "create_op (demo_root @ [py ''a'']) link_fs
      = (Inr (demo_root @ [py ''a'']), dict_set (demo_root @ [py ''a'']) (File []) link_fs)" by code_simp
  have f: "p_is_file (dict_set (demo_root @ [py ''a'']) (File [7, 8, 9]) (dict_set (demo_root @ [py ''a'']) (File []) link_fs))
      (linked_dir @ [py ''a''])" by code_simp
  have run: "w_fs w1 = dict_set (demo_root @ [py ''a'']) (File [7, 8, 9]) (dict_set (demo_root @ [py ''a'']) (File []) link_fs)
     \<and> w_recent w1 = rw_mark 4 (demo_root @ [py ''a'']) (recent_writes_init DEFAULT_TTL) \<and> publishes (new_calls link_world w1) \<noteq> {}"
    unfolding assms using demo_write_decodes t e mk op
    by (simp add: write_handle_def run_defs write_file_def write_bytes_def write_report_def mark_recent_def link_world_def
        monotonic_def publishes_def new_calls_def reply_args_def eval_nat_numeral)
  have ne: "linked_dir @ [py ''a''] \<noteq> demo_root @ [py ''a'']" by code_simp
  have ok: "dict_ok (marked_at (w_recent w1))" "dict_get (marked_at (w_recent w1)) (linked_dir @ [py ''a'']) = None"
    using run ne by (simp_all add: rw_mark_def recent_writes_init_def dict_simps)
  have "p_is_file (w_fs w1) (linked_dir @ [py ''a''])" using run f by simp
  from unmarked_reported [OF this ok] run show ?thesis by (simp add: node_at_def dict_simps)
qed


text \<open>A write that fails half way leaves a file the watch takes for a new one.\<close>

lemma cut_write_echoed:
  assumes "w1 = snd (write_handle calm_bus cut_host demo_root True demo_write demo_world)"
  shows "node_at (w_fs w1) (demo_root @ [py ''a'']) = Some (File [7])
    \<and> publishes (new_calls w1 (snd (handle_change calm_bus calm_host demo_root
        \<lparr>ch_kind = Added, ch_path = demo_root @ [py ''a''], ch_polls = replicate 4 (Inr 3)\<rparr> w1))) \<noteq> {}"
proof -
  have e: "p_exists demo_fs (demo_root @ [py ''a''])" by code_simp
  have mk: "mkdir_p demo_fs demo_root = (Inr (), demo_fs)" by code_simp
  have op: "create_op (demo_root @ [py ''a'']) demo_fs
      = (Inr (demo_root @ [py ''a'']), dict_set (demo_root @ [py ''a'']) (File []) demo_fs)" by code_simp
  have f: "p_is_file (dict_set (demo_root @ [py ''a'']) (File [7]) (dict_set (demo_root @ [py ''a'']) (File []) demo_fs))
      (demo_root @ [py ''a''])" by code_simp
  have run: "w_fs w1 = dict_set (demo_root @ [py ''a'']) (File [7]) (dict_set (demo_root @ [py ''a'']) (File []) demo_fs)
     \<and> w_recent w1 = recent_writes_init DEFAULT_TTL"
    unfolding assms using demo_write_decodes demo_resolve_a e mk op
    by (simp add: write_handle_def run_defs write_file_def write_bytes_def cut_host_def is_os_error_def eval_nat_numeral)
  have ok: "dict_ok (marked_at (w_recent w1))" "dict_get (marked_at (w_recent w1)) (demo_root @ [py ''a'']) = None"
    using run by (simp_all add: recent_writes_init_def dict_simps)
  have "p_is_file (w_fs w1) (demo_root @ [py ''a''])" using run f by simp
  from unmarked_reported [OF this ok] run show ?thesis by (simp add: node_at_def dict_simps)
qed


end
