(* ===== verification/Fs_Links.thy ===== *)
theory Fs_Links
  imports Fs_Effects
begin

text \<open>
  Two file systems with the same links resolve every path alike, whatever files and directories
  they hold: what \<open>realpath\<close> reads of a file system is its links alone. The adapter makes and
  removes no links, so what was true of the resolution when it started stays true.
\<close>

section \<open>The links of a file system\<close>

definition link_at :: "filesystem \<Rightarrow> path \<Rightarrow> pystr option" where
  "link_at fs p = (case node_at fs p of Some (Symlink t) \<Rightarrow> Some t | _ \<Rightarrow> None)"

definition same_links :: "filesystem \<Rightarrow> filesystem \<Rightarrow> bool" where
  "same_links fs0 fs \<longleftrightarrow> (\<forall>p. link_at fs p = link_at fs0 p)"

lemma is_link_at: "is_link (node_at fs p) \<longleftrightarrow> link_at fs p \<noteq> None"
  by (cases "node_at fs p" rule: is_link.cases) (simp_all add: link_at_def)

lemma same_links_refl [simp]: "same_links fs fs"
  by (simp add: same_links_def)

lemma same_links_canonical: "same_links fs fs' \<Longrightarrow> canonical fs' p \<longleftrightarrow> canonical fs p"
  by (simp add: canonical_def is_link_at same_links_def)

lemma link_at_Nil [simp]: "link_at fs [] = None"
  by (simp add: link_at_def node_at_def)

lemma link_at_set:
  "link_at (dict_set q nd fs) p = (if p = [] then None else if p = q then (case nd of Symlink t \<Rightarrow> Some t | _ \<Rightarrow> None)
     else link_at fs p)"
  by (simp add: link_at_def node_at_set)

lemma link_at_pop: "link_at (dict_pop q fs) p = (if p = [] \<or> p = q then None else link_at fs p)"
  by (simp add: link_at_def node_at_pop)

lemma same_links_set:
  assumes "same_links fs0 fs" and "link_at fs q = None" and "\<not> is_link (Some nd)"
  shows "same_links fs0 (dict_set q nd fs)"
proof -
  have "link_at fs0 q = None" using assms(1,2) by (simp add: same_links_def)
  with assms show ?thesis by (cases nd) (auto simp: same_links_def link_at_set)
qed

lemma same_links_pop:
  assumes "same_links fs0 fs" and "link_at fs q = None"
  shows "same_links fs0 (dict_pop q fs)"
proof -
  have "link_at fs0 q = None" using assms by (simp add: same_links_def)
  with assms show ?thesis by (auto simp: same_links_def link_at_pop)
qed

text \<open>The operations of the adapter, on any path; \<open>unlink\<close> on a canonical one.\<close>

lemma same_links_mkdir: "same_links fs0 fs \<Longrightarrow> os_mkdir fs p = Inr fs' \<Longrightarrow> same_links fs0 fs'"
  by (auto simp: os_mkdir_def rbind_Inr_iff link_at_def intro!: same_links_set split: if_splits option.splits)

lemma same_links_mkdir_once: "same_links fs0 fs \<Longrightarrow> mkdir_once fs p = Inr fs' \<Longrightarrow> same_links fs0 fs'"
  by (auto simp: mkdir_once_def same_links_mkdir split: sum.splits if_splits)

lemma same_links_mkdir_p: "same_links fs0 fs \<Longrightarrow> same_links fs0 (snd (mkdir_p fs p))"
proof (induction fs p rule: mkdir_p.induct)
  case (1 fs p)
  show ?case
    unfolding mkdir_p.simps [of fs p]
    using "1.prems" "1.IH"
    by (auto split: sum.splits errno.splits prod.splits intro: same_links_mkdir same_links_mkdir_once)
qed

lemma same_links_open:
  assumes "same_links fs0 fs" and "open_wb fs p = Inr (q, fs')"
  shows "same_links fs0 (dict_set q (File b) fs)"
  using assms(2)
  by (rule open_wb_InrE) (auto simp: link_at_def intro!: same_links_set [OF assms(1)])

lemma same_links_unlink:
  assumes "same_links fs0 fs" and "canonical fs p" and "os_unlink fs p = Inr fs'"
  shows "same_links fs0 fs'"
proof -
  have "\<not> is_link (node_at fs (take (length p) p))" using assms(2) unfolding canonical_def by blast
  then have "link_at fs p = None" by (simp add: is_link_at)
  with os_unlink_canonical [OF assms(2,3)] assms(1) show ?thesis by (simp add: same_links_pop)
qed

section \<open>Resolution reads the links only\<close>

lemma lstat_link_at: "fs_wf fs \<Longrightarrow> canonical fs p \<Longrightarrow> lstat_link fs (p @ [c]) = link_at fs (p @ [c])"
  by (simp add: lstat_link_canonical link_at_def)

text \<open>Where the walk has arrived when every link was resolved, whatever its fuel.\<close>

definition arrived :: "filesystem \<Rightarrow> (path \<times> bool \<times> link_memo) res \<Rightarrow> bool" where
  "arrived fs r \<longleftrightarrow> (\<forall>q ok seen. r = Inr (q, ok, seen) \<longrightarrow> (ok \<longrightarrow> canonical fs q) \<and> memo_ok fs seen)"

lemma joinrealpath_same:
  assumes "fs_wf fs" and "fs_wf fs'" and "same_links fs fs'" and "canonical fs p" and "memo_ok fs seen"
  shows "joinrealpath k fs' p rest seen = joinrealpath k fs p rest seen \<and> arrived fs (joinrealpath k fs p rest seen)"
  using assms
proof (induction k fs p rest seen rule: joinrealpath.induct)
  case (1 k fs path seen)
  then show ?case by (simp add: arrived_def)
next
  case (2 k fs path name rest seen)
  let ?new = "path @ [name]"
  consider "name = [] \<or> name = DOT" | "name = DOTDOT" "name \<noteq> []" "name \<noteq> DOT" | "normal_name name"
    by (auto simp: normal_name_def)
  then show ?case
  proof cases
    case 1
    then show ?thesis using "2.IH"(1) "2.prems" by auto
  next
    case 2
    then show ?thesis using "2.IH"(2) "2.prems" canonical_butlast by auto
  next
    case 3
    then have nn: "\<not> (name = [] \<or> name = DOT)" "name \<noteq> DOTDOT" by (auto simp: normal_name_def)
    have can': "canonical fs' path" using same_links_canonical [OF "2.prems"(3)] "2.prems"(4) by simp
    have l: "lstat_link fs' ?new = lstat_link fs ?new" "lstat_link fs ?new = link_at fs ?new"
      using lstat_link_at [OF "2.prems"(1,4)] lstat_link_at [OF "2.prems"(2) can'] "2.prems"(3)
      by (simp_all add: same_links_def)
    show ?thesis
    proof (cases "path_error ?new")
      case (Some e)
      with nn show ?thesis by (simp add: arrived_def)
    next
      case pe: None
      show ?thesis
      proof (cases "lstat_link fs ?new")
        case None
        then have "canonical fs ?new"
          using 3 "2.prems"(4) l(2) by (simp add: canonical_snoc is_link_at)
        from "2.IH"(3) [OF nn refl pe None "2.prems"(1-3) this "2.prems"(5)] None nn pe l(1) show ?thesis by simp
      next
        case t: (Some target)
        show ?thesis
        proof (cases "dict_get seen ?new")
          case (Some v)
          show ?thesis
          proof (cases v)
            case None
            with Some t l(1) nn pe "2.prems"(5) show ?thesis by (simp add: arrived_def)
          next
            case vp: (Some p)
            have "canonical fs p" using "2.prems"(5) Some vp by (auto simp: memo_ok_def)
            from "2.IH"(6) [OF nn refl pe t Some vp "2.prems"(1-3) this "2.prems"(5)] Some vp t l(1) nn pe show ?thesis by simp
          qed
        next
          case s: None
          show ?thesis
          proof (cases k)
            case 0
            with s t l(1) nn pe show ?thesis by (simp add: arrived_def)
          next
            case k: (Suc k')
            let ?start = "if is_abs target then [] else path"
            let ?r = "joinrealpath k' fs ?start (split_on SLASH target) (dict_set ?new None seen)"
            have "canonical fs ?start" "memo_ok fs (dict_set ?new None seen)"
              using "2.prems" by (auto intro: memo_ok_set)
            from "2.IH"(4) [OF nn refl pe t s k "2.prems"(1-3) this]
            have same: "joinrealpath k' fs' ?start (split_on SLASH target) (dict_set ?new None seen) = ?r"
              and arr: "arrived fs ?r" by simp_all
            show ?thesis
            proof (cases ?r)
              case (Inl e)
              with same t l(1) nn pe s k show ?thesis by (simp add: arrived_def)
            next
              case (Inr res)
              obtain p ok seen' where res: "res = (p, ok, seen')" by (cases res)
              show ?thesis
              proof (cases ok)
                case False
                with arr same Inr res t l(1) nn pe s k show ?thesis by (simp add: arrived_def)
              next
                case True
                have "canonical fs p" "memo_ok fs (dict_set ?new (Some p) seen')"
                  using arr Inr res True by (auto simp: arrived_def intro: memo_ok_set)
                from "2.IH"(5) [OF nn refl pe t s k Inr res [symmetric] refl _ "2.prems"(1-3) this] True same Inr res t l(1) nn pe s k
                show ?thesis by simp
              qed
            qed
          qed
        qed
      qed
    qed
  qed
qed

lemma link_count_card: "fs_wf fs \<Longrightarrow> link_count fs = card {p. link_at fs p \<noteq> None}"
proof -
  assume wf: "fs_wf fs"
  let ?ls = "filter (\<lambda>(_, nd). case nd of Symlink _ \<Rightarrow> True | _ \<Rightarrow> False) fs"
  have ok: "dict_ok fs" using wf by (simp add: fs_wf_def)
  then have "distinct (map fst ?ls)" by (auto simp: dict_ok_def distinct_map intro: inj_on_subset)
  then have "card (set (map fst ?ls)) = link_count fs" by (simp add: link_count_def distinct_card del: set_map)
  moreover have "set (map fst ?ls) = {p. link_at fs p \<noteq> None}"
  proof (intro set_eqI iffI)
    fix p assume "p \<in> set (map fst ?ls)"
    then obtain t where m: "(p, Symlink t) \<in> set fs" by (auto split: fnode.splits)
    then have "p \<noteq> []" using wf by (auto simp: fs_wf_def)
    with m dict_get_mem [OF ok, of p "Symlink t"] show "p \<in> {p. link_at fs p \<noteq> None}"
      by (simp add: link_at_def node_at_def)
  next
    fix p assume "p \<in> {p. link_at fs p \<noteq> None}"
    then obtain t where "node_at fs p = Some (Symlink t)" by (auto simp: link_at_def split: option.splits fnode.splits)
    with node_at_Some_mem [OF this] show "p \<in> set (map fst ?ls)" by (force split: fnode.splits)
  qed
  ultimately show ?thesis by simp
qed

lemma realpath_same:
  assumes "fs_wf fs" and "fs_wf fs'" and "same_links fs fs'"
  shows "realpath fs' p = realpath fs p"
proof -
  have "link_count fs' = link_count fs"
    using link_count_card [OF assms(1)] link_count_card [OF assms(2)] assms(3) by (simp add: same_links_def)
  with joinrealpath_same [OF assms canonical_Nil memo_ok_empty, of "Suc (link_count fs)" p]
  show ?thesis by (simp add: realpath_def)
qed

section \<open>File systems whose links all resolve\<close>

definition links_safe :: "filesystem \<Rightarrow> bool" where
  "links_safe fs \<longleftrightarrow> (\<forall>p q ok. realpath fs p = Inr (q, ok) \<longrightarrow> ok)"

lemma links_safe_resolve: "links_safe fs \<Longrightarrow> resolve fs p = Inr q \<Longrightarrow> links_resolve fs p"
  using resolve_realpath [of fs p q] by (fastforce simp: links_safe_def links_resolve_def)

lemma links_safe_request:
  "links_safe fs \<Longrightarrow> resolve_within fs root rel = Inr target \<Longrightarrow> request_links_resolve fs root rel"
  by (elim resolve_within_InrE) (auto simp: request_links_resolve_def intro: links_safe_resolve)

lemma links_safe_same:
  assumes "fs_wf fs" and "fs_wf fs'" and "same_links fs fs'" and "links_safe fs"
  shows "links_safe fs'"
  using assms(4) by (simp add: links_safe_def realpath_same [OF assms(1-3)])

lemma resolve_by_realpath:
  assumes "fs_wf fs" and "links_safe fs"
  shows "resolve fs p = rbind (realpath fs p) (\<lambda>(q, _). case path_error q of Some e \<Rightarrow> Inl e | None \<Rightarrow> Inr q)"
proof (cases "realpath fs p")
  case (Inr r)
  obtain q ok where r: "r = (q, ok)" by (cases r)
  with Inr assms(2) have "ok" by (auto simp: links_safe_def)
  with Inr r realpath_canonical [OF assms(1)] have "canonical fs q" by simp
  from walk_not_loop [OF this] have "k_stat fs q \<noteq> Inl ELOOP"
    by (auto simp: k_stat_def rbind_Inl_iff split: option.splits)
  with Inr r show ?thesis
    by (auto simp: resolve_def split: option.splits sum.splits errno.splits)
qed (simp add: resolve_def)

lemma resolve_same:
  assumes "fs_wf fs" and "fs_wf fs'" and "same_links fs fs'" and "links_safe fs"
  shows "resolve fs' p = resolve fs p"
  using resolve_by_realpath [OF assms(1,4)] resolve_by_realpath [OF assms(2) links_safe_same [OF assms]]
    realpath_same [OF assms(1-3)] by simp

text \<open>
  A sufficient condition that can be checked link by link: every target is absolute and leads
  through no further link. A file system without links is the extreme case.
\<close>

definition flat_links :: "filesystem \<Rightarrow> bool" where
  "flat_links fs \<longleftrightarrow> (\<forall>p t. link_at fs p = Some t \<longrightarrow>
     (\<exists>q. split_on SLASH t = [] # q \<and> is_abs t \<and> canonical fs q \<and> path_error q = None))"

lemma lstat_link_Some: "lstat_link fs p = Some t \<Longrightarrow> \<exists>q. link_at fs q = Some t"
  by (auto simp: lstat_link_def link_at_def split: sum.splits option.splits fnode.splits)

lemma joinrealpath_flat:
  assumes "fs_wf fs" and "flat_links fs"
  shows "\<forall>x. dict_get seen x \<noteq> Some None \<Longrightarrow> joinrealpath k fs p rest seen = Inr (q, ok, seen') \<Longrightarrow> ok"
proof (induction rest arbitrary: p seen)
  case (Cons name rest)
  show ?case
  proof (cases "name = [] \<or> name = DOT \<or> name = DOTDOT")
    case True
    then show ?thesis using Cons.IH [OF Cons.prems(1)] Cons.prems(2) by (auto split: if_splits)
  next
    case nn: False
    let ?new = "p @ [name]"
    have pe: "path_error ?new = None" using Cons.prems(2) nn by (auto simp: Let_def split: option.splits)
    show ?thesis
    proof (cases "lstat_link fs ?new")
      case None
      then show ?thesis using Cons.IH [OF Cons.prems(1), of ?new] Cons.prems(2) nn pe by simp
    next
      case t: (Some t)
      from lstat_link_Some [OF t] assms(2) obtain c where
        c: "split_on SLASH t = [] # c" "is_abs t" "canonical fs c" "path_error c = None"
        unfolding flat_links_def by blast
      show ?thesis
      proof (cases "dict_get seen ?new")
        case (Some v)
        then obtain x where "v = Some x" using Cons.prems(1) by (cases v) auto
        then show ?thesis using Cons.IH [OF Cons.prems(1), of x] Cons.prems(2) nn pe t Some by simp
      next
        case s: None
        obtain k' where k: "k = Suc k'" using Cons.prems(2) nn pe t s by (cases k) auto
        have "joinrealpath k' fs [] c (dict_set ?new None seen) = Inr (c, True, dict_set ?new None seen)"
          using joinrealpath_canonical [OF assms(1), of "[]" c] c by simp
        then have "joinrealpath k fs c rest (dict_set ?new (Some c) (dict_set ?new None seen)) = Inr (q, ok, seen')"
          using Cons.prems(2) nn pe t s k c(1,2) by (simp add: Let_def)
        then show ?thesis by (rule Cons.IH [rotated]) (use Cons.prems(1) in \<open>simp add: dict_simps\<close>)
      qed
    qed
  qed
qed simp

lemma flat_links_safe: "fs_wf fs \<Longrightarrow> flat_links fs \<Longrightarrow> links_safe fs"
  using joinrealpath_flat [of fs dict_empty]
  by (fastforce simp: links_safe_def realpath_def rbind_Inr_iff)

end
