(* ===== verification/Fs_Confined.thy ===== *)
theory Fs_Confined
  imports Entrypoints Fs_Properties Fs_Links
begin

text \<open>
  The whole file storage adapter stays inside its directory. The theorems about the handlers ask
  that the links a request meets resolve; where all links of the file system do, this holds of
  every request, and it goes on holding because the adapter neither makes nor removes links. The
  invariant carries over all the loops.
\<close>

section \<open>The handlers leave the links alone\<close>

lemma keeps_links [keeps_intros]: "keeps (same_links fs0) (write_file H target c)"
  unfolding write_file_def
  by (intro keeps_seq keeps_create_write keeps_os_op) (auto intro: same_links_mkdir_p same_links_open)

lemma write_handle_links: "keeps (same_links fs0) (write_handle B H d rw ev)"
  unfolding write_handle_def by (intro keeps_intros)

text \<open>What is unlinked is a resolved target, which is no link.\<close>

lemma delete_run_links:
  assumes "target = root @ rest"
  shows "keeps (\<lambda>fs. confined fs1 root target fs \<and> same_links fs0 fs)
    (seq (os_op H (query (\<lambda>fs. p_is_file fs target))) (\<lambda>is_file.
     if \<not> is_file then report_failed B H ev p o' n
     else
       try_else is_os_error (os_op H (changing (\<lambda>fs. os_unlink fs target))) (b_nak B ev) (\<lambda>_.
       seq (publish_reply B H ev s t q) (\<lambda>_. b_ack B ev))))"
  by (intro keeps_intros keeps_changing)
     (blast intro: confined_unlink [OF _ assms] same_links_unlink dest: confined_def [THEN iffD1])

section \<open>Inside the root\<close>

text \<open>
  The invariant of the run: a well-formed file system with the links of the initial one, where
  \<open>root\<close> is a directory and nothing has changed outside it.
\<close>

definition inside :: "path \<Rightarrow> filesystem \<Rightarrow> filesystem \<Rightarrow> bool" where
  "inside root fs0 fs \<longleftrightarrow> fs_wf fs \<and> same_links fs0 fs \<and> node_at fs root = Some Dir
     \<and> (\<forall>q. outside root q \<longrightarrow> node_at fs q = node_at fs0 q)"

text \<open>What is fixed before the run: the watched directory \<open>d\<close> resolves to \<open>root\<close>, and all links resolve.\<close>

definition watched :: "path \<Rightarrow> path \<Rightarrow> filesystem \<Rightarrow> bool" where
  "watched d root fs0 \<longleftrightarrow> fs_wf fs0 \<and> links_safe fs0 \<and> resolve fs0 d = Inr root"

text \<open>A resolved target, seen from inside.\<close>

lemma inside_confined:
  assumes "watched d root fs0" and "inside root fs0 fs" and "resolve_within fs d p = Inr target"
  shows "confined fs root target fs \<and> (\<exists>rest. target = root @ rest)"
proof -
  have wf: "fs_wf fs0" "links_safe fs0" "resolve fs0 d = Inr root" "fs_wf fs" "same_links fs0 fs" "node_at fs root = Some Dir"
    using assms(1,2) by (simp_all add: watched_def inside_def)
  have "request_links_resolve fs d p"
    using links_safe_request [OF links_safe_same [OF wf(1,4,5,2)] assms(3)] .
  with resolved_confined [OF wf(4) _ wf(6) _ assms(3)] resolve_same [OF wf(1,4,5,2)] wf(3) show ?thesis by simp
qed

lemma confined_inside:
  "inside root fs0 fs \<Longrightarrow> confined fs root target fs' \<Longrightarrow> same_links fs0 fs' \<Longrightarrow> inside root fs0 fs'"
  by (auto simp: inside_def confined_def)

lemma write_inside:
  assumes "watched d root fs0"
  shows "keeps (inside root fs0) (write_handle B H d rw ev)"
  unfolding keeps_def
proof (intro allI impI)
  fix w r w' assume i: "inside root fs0 (w_fs w)" and run: "write_handle B H d rw ev w = (r, w')"
  have links: "same_links fs0 (w_fs w')" using keepsD [OF write_handle_links run] i by (simp add: inside_def)
  from run [unfolded write_handle_def] show "inside root fs0 (w_fs w')"
  proof (cases rule: resolved_command)
    case (run req target)
    from inside_confined [OF assms i run(2)] obtain rest where
      c: "confined (w_fs w) root target (w_fs w)" and t: "target = root @ rest" by blast
    from confined_inside [OF i keepsD [OF write_confined_run [OF t] run(3) c] links] show ?thesis .
  qed (use i in simp)
qed

lemma delete_inside:
  assumes "watched d root fs0"
  shows "keeps (inside root fs0) (delete_handle B H d ev)"
  unfolding keeps_def
proof (intro allI impI)
  fix w r w' assume i: "inside root fs0 (w_fs w)" and run: "delete_handle B H d ev w = (r, w')"
  from run [unfolded delete_handle_def] show "inside root fs0 (w_fs w')"
  proof (cases rule: resolved_command)
    case (run req target)
    from inside_confined [OF assms i run(2)] obtain rest where
      c: "confined (w_fs w) root target (w_fs w)" and t: "target = root @ rest" by blast
    have "same_links fs0 (w_fs w)" using i by (simp add: inside_def)
    with keepsD [OF delete_run_links [OF t] run(3)] c have
      "confined (w_fs w) root target (w_fs w')" "same_links fs0 (w_fs w')" by blast+
    with confined_inside [OF i] show ?thesis by blast
  qed (use i in simp)
qed

section \<open>The loops\<close>

lemma keeps_raise [keeps_intros]: "keeps I (raise e)"
  by (rule keeps_same) (simp add: raise_def)

lemma keeps_subscribe [keeps_intros]: "keeps I (b_subscribe B s d :: ('c fs_world, pystr) comp)"
  unfolding b_subscribe_def by (rule keeps_via)

lemma keeps_for_each [keeps_intros]: "(\<And>x. keeps I (f x)) \<Longrightarrow> keeps I (for_each f xs)"
proof (induction xs)
  case Nil
  show ?case by (rule keeps_same) simp
next
  case (Cons x xs)
  have "for_each f (x # xs) = seq (f x) (\<lambda>_. for_each f xs)" by (auto simp: seq_def fun_eq_iff)
  with Cons show ?case by (simp add: keeps_seq)
qed

lemma keeps_file_loop:
  assumes "\<And>ev. keeps I (write_handle B H d True ev)" and "\<And>ev. keeps I (delete_handle B H d ev)"
  shows "keeps I (loop_turn B (file_loops B H d sid) i)"
proof -
  have "\<forall>l \<in> set (file_loops B H d sid). \<forall>ev. keeps I (snd l ev)"
    by (simp add: file_loops_def assms read_handle_keeps list_handle_keeps)
  then have "\<forall>ev. keeps I (snd (file_loops B H d sid ! i) ev)" if "i < length (file_loops B H d sid)"
    using that by simp
  then show ?thesis
    unfolding loop_turn_def split_beta run_once_def by (auto intro!: keeps_intros)
qed

text \<open>The watch changes nothing at all.\<close>

lemma keeps_was_recent [keeps_intros]: "keeps I (was_recent H p)"
  by (rule keeps_same)
     (simp add: was_recent_def monotonic_def seq_def tick_def ret_def rw_was_recent_def Let_def)

lemma keeps_watch: "keeps I (run_forever B H d batches)"
  unfolding run_forever_def handle_change_def handle_new_file_def utc_now_def
  by (intro keeps_for_each) (auto split: option.splits intro!: keeps_intros)

lemma run_inside:
  assumes "watched d root fs0"
  shows "keeps (inside root fs0) (run_file_storage B H d sid turns)"
proof -
  have turn: "keeps (inside root fs0) (file_turn_step B H d sid t)" for t
    by (cases t) (simp_all add: file_turn_step_def keeps_file_loop write_inside [OF assms] delete_inside [OF assms] keeps_watch)
  show ?thesis
    unfolding run_file_storage_def file_starts_def write_start_def read_start_def list_start_def delete_start_def
    by (intro keeps_seq keeps_for_each turn keeps_subscribe keeps_ret keeps_same) simp
qed

section \<open>Property\<close>

text \<open>
  C6: the adapter never leaves its directory: on a file system whose links resolve, wherever they
  lead, whatever commands arrive, whatever fails, and in whatever order the four command loops
  and the watch take their turns, nothing outside the directory that the watched path resolves to
  changes, the directory itself stays, and the file system stays well formed with the same links.
\<close>

theorem adapter_confined:
  assumes "run_file_storage B H d sid turns w = (r, w')"
    and "fs_wf (w_fs w)" and "links_safe (w_fs w)" and "resolve (w_fs w) d = Inr root"
    and "node_at (w_fs w) root = Some Dir"
  shows "fs_wf (w_fs w') \<and> same_links (w_fs w) (w_fs w') \<and> node_at (w_fs w') root = Some Dir
    \<and> (\<forall>q. outside root q \<longrightarrow> node_at (w_fs w') q = node_at (w_fs w) q)"
proof -
  have "watched d root (w_fs w)" using assms(2-4) by (simp add: watched_def)
  from keepsD [OF run_inside [OF this] assms(1)] assms(2,5) show ?thesis by (simp add: inside_def)
qed

text \<open>A directory with a link that leads out of it, reached itself through a link.\<close>

definition linked_world :: "unit fs_world" where
  "linked_world = \<lparr>w_client = (), w_calls = [], w_tick = 0,
     w_fs = [([py ''d''], Dir), ([py ''d'', py ''old''], File [1]), ([py ''d'', py ''esc''], Symlink (py ''/etc'')),
        ([py ''srv''], Symlink (py ''/d'')), ([py ''etc''], Dir), ([py ''etc'', py ''key''], File [2])],
     w_recent = recent_writes_init DEFAULT_TTL\<rparr>"

definition traversal :: received_event where
  "traversal = plain_event (json_bytes (JDict
     [(py ''path'', JStr (py ''esc/key'')), (py ''content'', JStr (b64encode [9]))]))"

lemma linked_world_links: "link_at (w_fs linked_world) p =
  (if p = [py ''d'', py ''esc''] then Some (py ''/etc'') else if p = [py ''srv''] then Some (py ''/d'') else None)"
  by (auto simp: link_at_def node_at_def linked_world_def dict_get_def)

lemma linked_world_safe: "links_safe (w_fs linked_world)"
proof (rule flat_links_safe)
  show "fs_wf (w_fs linked_world)" by code_simp
  have "split_on SLASH (py ''/etc'') = [[], py ''etc'']" "split_on SLASH (py ''/d'') = [[], py ''d'']"
    "is_abs (py ''/etc'')" "is_abs (py ''/d'')" by code_simp+
  moreover have "canonical (w_fs linked_world) [py ''etc'']" "canonical (w_fs linked_world) [py ''d'']"
    "path_error [py ''etc''] = None" "path_error [py ''d''] = None" by code_simp+
  ultimately show "flat_links (w_fs linked_world)" by (auto simp: flat_links_def linked_world_links)
qed

theorem adapter_confined_witness:
  "node_at (w_fs (snd (run_file_storage (one_event_bus traversal) calm_host [py ''srv''] (py ''fs'')
      [CommandTurn 0, CommandTurn 3, WatchTurn []] linked_world))) [py ''etc'', py ''key''] = Some (File [2])"
proof -
  let ?run = "run_file_storage (one_event_bus traversal) calm_host [py ''srv''] (py ''fs'')
      [CommandTurn 0, CommandTurn 3, WatchTurn []] linked_world"
  have "fs_wf (w_fs linked_world)" "resolve (w_fs linked_world) [py ''srv''] = Inr [py ''d'']"
    "node_at (w_fs linked_world) [py ''d''] = Some Dir"
    "node_at (w_fs linked_world) [py ''etc'', py ''key''] = Some (File [2])" by code_simp+
  moreover have "outside [py ''d''] [py ''etc'', py ''key'']" by (simp add: outside_def)
  ultimately show ?thesis
    using adapter_confined [of "one_event_bus traversal" calm_host "[py ''srv'']" "py ''fs''"
        "[CommandTurn 0, CommandTurn 3, WatchTurn []]" linked_world "fst ?run" "snd ?run" "[py ''d'']"] linked_world_safe by simp
qed

end
