(* ===== verification/Bus_Properties.thy ===== *)
theory Bus_Properties
  imports Bus_Client
begin

text \<open>
  What the bus client guarantees: a published event reaches every recipient intact, nothing
  unverified is handed out, redelivery is delayed by the table, and what a client keeps when it
  is subscribed again and closed. Retries are in \<open>Bus_Retry\<close>.
\<close>

section \<open>Rules for the parts\<close>

definition bus_env_ok :: "('n, 'i, 'r, 'k) bus_env \<Rightarrow> bool" where
  "bus_env_ok V \<longleftrightarrow> age_ok (be_lib V) \<and> signing_ok (be_lib V) \<and> pydantic_ok (be_pydantic V)"

lemma bus_env_okD:
  assumes "bus_env_ok V"
  shows "age_ok (be_lib V)" and "signing_ok (be_lib V)" and "pydantic_ok (be_pydantic V)"
  using assms by (simp_all add: bus_env_ok_def)

text \<open>Texts without lone surrogates, which is what can be put on the wire.\<close>

definition client_scalar :: "('n, 'i, 'r, 'k) bus_env \<Rightarrow> 'n bus_client \<Rightarrow> bool" where
  "client_scalar V b \<longleftrightarrow> (\<forall>t. scalar_str (be_uuid V t)) \<and> scalar_str (cfg_service_id (bc_settings b))
     \<and> scalar_str (bc_signing_public_key b)"

definition args_scalar :: "publish_args \<Rightarrow> bool" where
  "args_scalar a \<longleftrightarrow> scalar_str (pa_event_type a) \<and> opt_scalar (pa_correlation_id a)"

text \<open>The details an event is published with.\<close>

definition made_details ::
  "('n, 'i, 'r, 'k) bus_env \<Rightarrow> pystr \<Rightarrow> publish_args \<Rightarrow> nat \<Rightarrow> 'n bus_client \<Rightarrow> bytes \<Rightarrow> event_details" where
  "made_details V version a t b sig =
     \<lparr>event_id = be_uuid V t, event_created = be_now V t, event_type = pa_event_type a,
      event_schema_version = version, source_service_id = cfg_service_id (bc_settings b),
      correlation_id = pa_correlation_id a, signature = Some (b64encode sig),
      source_public_key = Some (bc_signing_public_key b)\<rparr>"

lemma seal_eventE:
  assumes "seal_event V version a rs t b = Inr ev"
  obtains c sig keys where
    "(if rs = [] then Inr [] else encrypt_for_recipients (be_lib V) t (pa_payload a) rs) = Inr c"
    "sign (be_lib V) (bc_signing_seed b) (pa_payload a) = Inr sig" "as_strs rs = Inr keys"
    "ee_details (ev_event ev) = made_details V version a t b sig"
    "ee_encryption (ev_event ev) = \<lparr>algorithm = ENCRYPTION_ALGORITHM, recipients = keys\<rparr>"
    "ee_payload (ev_event ev) = b64encode c"
proof -
  from assms obtain c sig keys where
    "(if rs = [] then Inr [] else encrypt_for_recipients (be_lib V) t (pa_payload a) rs) = Inr c"
    "sign (be_lib V) (bc_signing_seed b) (pa_payload a) = Inr sig" "as_strs rs = Inr keys"
    "ev = \<lparr>ev_event = \<lparr>ee_details = made_details V version a t b sig,
        ee_encryption = \<lparr>algorithm = ENCRYPTION_ALGORITHM, recipients = keys\<rparr>, ee_payload = b64encode c\<rparr>\<rparr>"
    unfolding seal_event_def rbind_Inr_iff made_details_def by auto
  then show thesis by (intro that [of c sig keys]) simp_all
qed

lemma seal_event_scalar:
  assumes "seal_event V version a rs t b = Inr ev" and "client_scalar V b" and "args_scalar a"
    and "scalar_str version" and "\<And>keys. as_strs rs = Inr keys \<Longrightarrow> \<forall>k \<in> set keys. scalar_str k"
  shows "event_scalar ev"
  using assms(1)
proof (rule seal_eventE)
  fix c sig keys
  assume k: "as_strs rs = Inr keys" and d: "ee_details (ev_event ev) = made_details V version a t b sig"
    and e: "ee_encryption (ev_event ev) = \<lparr>algorithm = ENCRYPTION_ALGORITHM, recipients = keys\<rparr>"
    and p: "ee_payload (ev_event ev) = b64encode c"
  from assms(2-4) assms(5) [OF k] show "event_scalar ev"
    by (simp add: event_scalar_def Let_def d e p made_details_def client_scalar_def args_scalar_def
        opt_scalar_def ENCRYPTION_ALGORITHM_def)
qed

lemma as_strs_keys: "as_strs (map (\<lambda>r. JStr (f r)) rs) = Inr (map f rs)"
  using as_strs_map [of "map f rs"] by (simp add: o_def)

text \<open>A message that was accepted, taken apart.\<close>

lemma process_msgE:
  assumes "process_msg V m b = (Inr ev, b')"
  obtains e t c s key sig n1 n2 where
    "from_wire (be_pydantic V) (be_uuid V t) (be_now V t) (msg_data m) = Inr e" "re_event ev = e" "re_msg ev = m"
    "b64decode False (ee_payload (ev_event e)) = Inr c"
    "decrypt (be_lib V) c (kp_private_key (bc_encryption_keypair b)) = Inr (re_payload ev)"
    "signature (ee_details (ev_event e)) = Some s" "b64decode False s = Inr sig"
    "lookup_signing_key (be_js V) (be_text_of V) (source_service_id (ee_details (ev_event e))) n1 = (Inr (Some key), n2)"
    "n1 = bc_nats b" "verify (be_lib V) key (re_payload ev) sig = Inr True" "t = bc_tick b"
  using assms
  by (auto simp: process_msg_def seq_def draw_def lift_res_def with_client_def on_nats_def raise_def ret_def that
      split: prod.splits sum.splits option.splits if_splits)

lemma process_msgI:
  assumes "from_wire (be_pydantic V) (be_uuid V (bc_tick b)) (be_now V (bc_tick b)) (msg_data m) = Inr e"
    and "b64decode False (ee_payload (ev_event e)) = Inr c"
    and "decrypt (be_lib V) c (kp_private_key (bc_encryption_keypair b)) = Inr p"
    and "signature (ee_details (ev_event e)) = Some s" and "b64decode False s = Inr sig"
    and "lookup_signing_key (be_js V) (be_text_of V) (source_service_id (ee_details (ev_event e))) (bc_nats b)
           = (Inr (Some key), n2)"
    and "verify (be_lib V) key p sig = Inr True"
  shows "fst (process_msg V m b) = Inr \<lparr>re_event = e, re_payload = p, re_msg = m\<rparr>"
  using assms by (simp add: process_msg_def seq_def draw_def lift_res_def with_client_def on_nats_def ret_def)

text \<open>The state a message leaves: only the server and the counter move.\<close>

lemma process_msg_keeps:
  "process_msg V m b = (r, b') \<Longrightarrow> bc_encryption_keypair b' = bc_encryption_keypair b"
  by (auto simp: process_msg_def seq_def draw_def lift_res_def with_client_def on_nats_def raise_def ret_def
      split: prod.splits sum.splits option.splits if_splits)

text \<open>
  \<open>accepted V b ev\<close>: what holds of an event that a client in state \<open>b\<close> hands out. It opens with
  the client's key, and its signature verifies under the key that the identity directory, as it
  is then, holds for the claimed sender.
\<close>

definition accepted :: "('n, 'i, 'r, 'k) bus_env \<Rightarrow> 'n bus_client \<Rightarrow> received_event \<Rightarrow> bool" where
  "accepted V b ev \<longleftrightarrow>
     (\<exists>c s sig key. b64decode False (ee_payload (ev_event (re_event ev))) = Inr c
        \<and> decrypt (be_lib V) c (kp_private_key (bc_encryption_keypair b)) = Inr (re_payload ev)
        \<and> signature (details ev) = Some s \<and> b64decode False s = Inr sig
        \<and> fst (lookup_signing_key (be_js V) (be_text_of V) (source_service_id (details ev)) (bc_nats b)) = Inr (Some key)
        \<and> verify (be_lib V) key (re_payload ev) sig = Inr True)"

lemma process_msg_accepted:
  assumes "process_msg V m b = (Inr ev, b')"
  shows "accepted V b ev \<and> re_msg ev = m"
  using assms by (rule process_msgE) (auto simp: accepted_def details_def)

lemma process_all_keeps: "bc_encryption_keypair (snd (process_all V ms b)) = bc_encryption_keypair b"
proof (induction ms arbitrary: b)
  case (Cons m ms)
  obtain r b1 where p: "process_msg V m b = (r, b1)" by fastforce
  with Cons [of b1] process_msg_keeps [OF p] show ?case
    by (cases r) (auto simp: seq_def ret_def split: prod.splits sum.splits)
qed simp

text \<open>The state after a message that did not end the batch is where the rest goes on.\<close>

lemma process_all_step:
  assumes "process_msg V m b = (r, b1)" and "\<And>e. r = Inl e \<Longrightarrow> is_exception e"
  shows "snd (process_all V (m # ms) b) = snd (process_all V ms b1)"
  using assms by (cases r) (auto simp: seq_def ret_def split: prod.splits sum.splits)

lemma process_all_accepted:
  "process_all V ms b = (Inr evs, b') \<Longrightarrow>
   subseq (map re_msg evs) ms \<and>
   (\<forall>ev \<in> set evs. \<exists>k < length ms. re_msg ev = ms ! k \<and> accepted V (snd (process_all V (take k ms) b)) ev)"
proof (induction ms arbitrary: b evs)
  case (Cons m ms)
  obtain r b1 where p: "process_msg V m b = (r, b1)" by fastforce
  have go_on: "is_exception e" if "r = Inl e" for e using Cons.prems p that by (auto split: if_splits)
  have later: "\<exists>k < length (m # ms). re_msg ev = (m # ms) ! k \<and> accepted V (snd (process_all V (take k (m # ms)) b)) ev"
    if "\<exists>k < length ms. re_msg ev = ms ! k \<and> accepted V (snd (process_all V (take k ms) b1)) ev" for ev
  proof -
    from that obtain k where k: "k < length ms" "re_msg ev = ms ! k"
      and acc: "accepted V (snd (process_all V (take k ms) b1)) ev" by blast
    from acc have "accepted V (snd (process_all V (m # take k ms) b)) ev"
      using process_all_step [OF p go_on] by simp
    with k show ?thesis by (intro exI [of _ "Suc k"]) simp
  qed
  show ?case
  proof (cases r)
    case (Inl e)
    with Cons.prems p have "process_all V ms b1 = (Inr evs, b')" by (auto split: if_splits)
    from Cons.IH [OF this] later show ?thesis by auto
  next
    case (Inr ev)
    with Cons.prems p obtain rest where rest: "process_all V ms b1 = (Inr rest, b')" and evs: "evs = ev # rest"
      by (auto simp: seq_def ret_def split: prod.splits sum.splits)
    have now: "accepted V b ev" "re_msg ev = m" using process_msg_accepted p Inr by blast+
    then have "\<exists>k < length (m # ms). re_msg ev = (m # ms) ! k \<and> accepted V (snd (process_all V (take k (m # ms)) b)) ev"
      by (intro exI [of _ 0]) simp
    with Cons.IH [OF rest] evs now later show ?thesis by auto
  qed
qed simp

text \<open>The client's key pair stays what it was: \<open>keeps_keys m\<close> says so of a step, rule by rule.\<close>

definition keeps_keys :: "('n bus_client, 'a) comp \<Rightarrow> bool" where
  "keeps_keys m \<longleftrightarrow> (\<forall>b. bc_encryption_keypair (snd (m b)) = bc_encryption_keypair b)"

named_theorems keeps_keys_intros \<open>steps that keep the key pair\<close>

lemma keeps_keys_seq [keeps_keys_intros]:
  "keeps_keys m \<Longrightarrow> (\<And>a. keeps_keys (k a)) \<Longrightarrow> keeps_keys (seq m k)"
  unfolding keeps_keys_def seq_def by (auto split: prod.splits sum.splits) (metis snd_conv)+

lemma keeps_keys_steps [keeps_keys_intros]:
  "keeps_keys (on_nats n)" "keeps_keys draw" "keeps_keys (with_client f)" "keeps_keys (lift_res r)"
  "keeps_keys (ret a)" "keeps_keys (raise e)"
  by (auto simp: keeps_keys_def on_nats_def draw_def with_client_def lift_res_def ret_def raise_def split: prod.splits)

lemma keeps_keys_cache [keeps_keys_intros]: "keeps_keys (cache_for V subject)"
  by (auto simp: keeps_keys_def cache_for_def seq_def on_nats_def split: option.splits prod.splits sum.splits)

lemma keeps_keys_send [keeps_keys_intros]: "keeps_keys (send_event V a ev)"
  unfolding send_event_def by (auto intro!: keeps_keys_intros split: option.splits)

lemma keeps_keys_publish: "keeps_keys (publish V version a)"
  unfolding publish_def by (intro keeps_keys_intros)

lemma keeps_keys_ack: "keeps_keys (ack V m)"
  unfolding ack_def by (intro keeps_keys_intros)

lemma keeps_keys_fetch: "keeps_keys (fetch V durable batch)"
  by (auto simp: keeps_keys_def fetch_def try_else_def on_nats_def ret_def process_all_keeps
      split: option.splits prod.splits sum.splits)

section \<open>A message on its way\<close>

lemma sealed_processed:
  assumes ok: "bus_env_ok V" and kp: "keypair_from_seed (be_lib V) (bc_signing_seed s) = Inr kp"
    and seal: "seal_event V version a (map (\<lambda>r. JStr (recipient_str (be_lib V) r)) rs) t s = Inr ev"
    and sc: "client_scalar V s" "args_scalar a" "scalar_str version"
    and wire: "msg_data m = to_wire (be_pydantic V) ev"
    and me: "kp_private_key (bc_encryption_keypair b) = identity_str (be_lib V) i" "identity_to_public (be_lib V) i \<in> set rs"
    and dir: "lookup_signing_key (be_js V) (be_text_of V) (cfg_service_id (bc_settings s)) (bc_nats b)
        = (Inr (Some (sk_public_key kp)), n')"
    and user: "user_key (be_lib V) (sk_public_key kp)"
  shows "fst (process_msg V m b) = Inr \<lparr>re_event = ev, re_payload = pa_payload a, re_msg = m\<rparr>"
  using seal
proof (rule seal_eventE)
  fix c sig keys
  assume enc: "(if map (\<lambda>r. JStr (recipient_str (be_lib V) r)) rs = [] then Inr []
        else encrypt_for_recipients (be_lib V) t (pa_payload a) (map (\<lambda>r. JStr (recipient_str (be_lib V) r)) rs)) = Inr c"
    and sg: "sign (be_lib V) (bc_signing_seed s) (pa_payload a) = Inr sig"
    and d: "ee_details (ev_event ev) = made_details V version a t s sig"
    and p: "ee_payload (ev_event ev) = b64encode c"
  have keys: "\<forall>k \<in> set keys. scalar_str k"
    if "as_strs (map (\<lambda>r. JStr (recipient_str (be_lib V) r)) rs) = Inr keys" for keys
    using that bus_env_okD(1) [OF ok] by (auto simp: as_strs_keys age_ok_def)
  have "event_scalar ev" using seal_event_scalar [OF seal sc] keys by blast
  from from_wire_to_wire [OF bus_env_okD(3) [OF ok] this] wire
  have "from_wire (be_pydantic V) (be_uuid V (bc_tick b)) (be_now V (bc_tick b)) (msg_data m) = Inr ev" by simp
  moreover have "b64decode False (ee_payload (ev_event ev)) = Inr c" unfolding p by (rule b64.dec_enc) simp
  moreover have "decrypt (be_lib V) c (kp_private_key (bc_encryption_keypair b)) = Inr (pa_payload a)"
    using decrypt_sealed [OF bus_env_okD(1) [OF ok], of t "pa_payload a" rs c i] enc me by (auto split: if_splits)
  moreover have "signature (ee_details (ev_event ev)) = Some (b64encode sig)" by (simp add: d made_details_def)
  moreover have "b64decode False (b64encode sig) = Inr sig" by (rule b64.dec_enc) simp
  moreover have "verify (be_lib V) (sk_public_key kp) (pa_payload a) sig = Inr True"
    using signed_verifies [OF bus_env_okD(2) [OF ok] kp sg] user by simp
  ultimately show ?thesis using dir d by (intro process_msgI) (simp_all add: made_details_def)
qed

section \<open>A client over the server in memory\<close>

definition toy_env :: "(mem_nats, 8 word, 8 word, bytes) bus_env" where
  "toy_env = \<lparr>be_js = mem_js, be_lib = toy_crypto, be_pydantic = plain_pydantic, be_uuid = (\<lambda>t. nat_str t),
     be_now = (\<lambda>t. int t), be_text_of = (\<lambda>_. [])\<rparr>"

lemma toy_env_ok: "bus_env_ok toy_env"
  by (simp add: bus_env_ok_def toy_env_def toy_age_ok toy_signing_ok plain_pydantic_ok)

definition demo_public :: pystr where
  "demo_public = sk_public_key (projr (keypair_from_seed toy_crypto (py ''SU'')))"

lemma demo_keypair: "keypair_from_seed toy_crypto (py ''SU'') = Inr \<lparr>sk_seed = py ''SU'', sk_public_key = demo_public\<rparr>"
  using toy_keypair [of "py ''SU''"] by (auto simp: demo_public_def)

lemma demo_user_key [simp]: "user_key toy_crypto demo_public"
proof -
  have "take 1 (utf8_bytes (py ''SU'')) \<noteq> [79]" by code_simp
  from toy_user_key [OF _ this demo_keypair] show ?thesis by simp
qed

lemma scalar_demo_public [simp]: "scalar_str demo_public"
  using keypair_scalar [OF toy_signing_ok demo_keypair] by simp

definition demo_nats :: "(pystr \<times> pystr option \<times> bytes) list \<Rightarrow> mem_nats" where
  "demo_nats log = \<lparr>mem_kv = [((IDENTITY_BUCKET_NAME, py ''svc''), identity_value (py ''svc'') (py ''t'') demo_public 0)],
     mem_log = log, mem_subs = [(py ''e.x'', 0)], mem_acks = []\<rparr>"

definition demo_client :: "mem_nats \<Rightarrow> mem_nats bus_client" where
  "demo_client n = \<lparr>bc_nats = n,
     bc_settings = \<lparr>cfg_service_id = py ''svc'', cfg_nats_url = [], cfg_nats_creds_path = [], cfg_subjects = [],
       cfg_log_level = INFO\<rparr>,
     bc_adapter_type = py ''t'', bc_encryption_keypair = \<lparr>kp_private_key = [263], kp_public_key = [263]\<rparr>,
     bc_signing_seed = py ''SU'', bc_signing_public_key = demo_public, bc_recipient_caches = [],
     bc_subscriptions = [(py ''d'', 0)], bc_background_tasks = [], bc_tick = 0\<rparr>"

lemma demo_keypair_env:
  "keypair_from_seed (be_lib toy_env) (bc_signing_seed (demo_client n)) = Inr \<lparr>sk_seed = py ''SU'', sk_public_key = demo_public\<rparr>"
  using demo_keypair by (simp add: toy_env_def demo_client_def)

definition demo_args :: publish_args where
  "demo_args = \<lparr>pa_subject = py ''e.x'', pa_payload = [104, 105], pa_event_type = py ''Greeting'',
     pa_correlation_id = None, pa_msg_id = Some (py ''once'')\<rparr>"

lemma nat_str_scalar [simp]: "scalar_str (nat_str n)"
  by (rule plain_ascii_scalar [OF plain_ascii_nat_str])

lemma demo_client_scalar: "client_scalar toy_env (demo_client n)" "args_scalar demo_args"
  by (simp_all add: client_scalar_def args_scalar_def toy_env_def demo_client_def demo_args_def opt_scalar_def)

lemma demo_recipient: "recipient_str toy_crypto 7 = [263]" "identity_str toy_crypto 7 = [263]"
  "identity_to_public toy_crypto i = i"
  by (simp_all add: toy_crypto_def)

lemma demo_sealed:
  assumes "rs = [] \<or> rs = [JStr [263]]"
  shows "\<exists>ev. seal_event toy_env (py ''1'') demo_args rs t (demo_client n) = Inr ev"
proof -
  from sign_succeeds [OF demo_keypair] obtain sig where
    "sign toy_crypto (py ''SU'') (pa_payload demo_args) = Inr sig" by blast
  moreover have "encrypt_for_recipients toy_crypto t p [JStr [263]] = Inr (seal toy_crypto t [7] p)" for p
    using seal_succeeds [OF toy_age_ok, of "[7]" t p] by (simp add: demo_recipient)
  ultimately show ?thesis using assms by (auto simp: seal_event_def toy_env_def demo_client_def)
qed

definition demo_event :: event where
  "demo_event = projr (seal_event toy_env (py ''1'') demo_args [JStr [263]] 0 (demo_client empty_nats))"

lemma demo_event: "seal_event toy_env (py ''1'') demo_args [JStr [263]] 0 (demo_client n) = Inr demo_event"
proof -
  have "seal_event toy_env (py ''1'') demo_args [JStr [263]] 0 (demo_client n)
      = seal_event toy_env (py ''1'') demo_args [JStr [263]] 0 (demo_client empty_nats)"
    by (simp add: seal_event_def demo_client_def)
  with demo_sealed [of "[JStr [263]]" 0 empty_nats] show ?thesis by (auto simp: demo_event_def)
qed

definition demo_msg :: msg where
  "demo_msg = \<lparr>msg_subject = py ''e.x'', msg_data = to_wire plain_pydantic demo_event, msg_num_delivered = 1, msg_token = 0\<rparr>"

lemma demo_directory:
  "lookup_signing_key mem_js f (py ''svc'') (demo_nats log) = (Inr (Some demo_public), demo_nats log)"
proof -
  have "entry_item ''signingPublicKey'' (identity_value (py ''svc'') (py ''t'') demo_public 0) = Inr (Some (JStr demo_public))"
    by (rule identity_item) simp_all
  then show ?thesis by (simp add: lookup_signing_key_def mem_js_def demo_nats_def dict_get_def try_else_def lift_res_def)
qed

lemma demo_event_scalar: "event_scalar demo_event"
proof (rule seal_event_scalar [OF demo_event demo_client_scalar])
  show "\<forall>k \<in> set keys. scalar_str k" if "as_strs [JStr [263]] = Inr keys" for keys
    using that by (auto simp: scalar_str_def is_surrogate_def code_point_def)
qed simp

definition demo_received :: received_event where
  "demo_received = \<lparr>re_event = demo_event, re_payload = [104, 105], re_msg = demo_msg\<rparr>"

lemma demo_processed_by:
  assumes "b = (demo_client n)\<lparr>bc_nats := n\<rparr>"
    and "lookup_signing_key mem_js (\<lambda>_. []) (py ''svc'') n = (Inr (Some demo_public), n)"
  shows "fst (process_msg toy_env demo_msg b) = Inr demo_received"
proof -
  have s: "seal_event toy_env (py ''1'') demo_args (map (\<lambda>r. JStr (recipient_str (be_lib toy_env) r)) [7]) 0
      (demo_client empty_nats) = Inr demo_event"
    using demo_event by (simp add: toy_env_def demo_recipient)
  have "fst (process_msg toy_env demo_msg b) = Inr \<lparr>re_event = demo_event, re_payload = pa_payload demo_args, re_msg = demo_msg\<rparr>"
    by (rule sealed_processed [OF toy_env_ok demo_keypair_env s demo_client_scalar, of _ _ 7 n])
       (use assms in \<open>simp_all add: demo_client_def toy_env_def demo_msg_def demo_recipient\<close>)
  then show ?thesis by (simp add: demo_received_def demo_args_def)
qed

lemma demo_processed: "fst (process_msg toy_env demo_msg (demo_client (demo_nats []))) = Inr demo_received"
  by (rule demo_processed_by [OF _ demo_directory]) (simp add: demo_client_def)

section \<open>Properties\<close>

text \<open>
  C3: a published event reaches every recipient intact: whoever holds the identity of one of
  the recipients and looks up the sender's key, which is a user key, accepts the message, reads
  exactly the payload that was published, and finds the type, the correlation and the sender it
  was given.
\<close>

theorem delivered_intact:
  assumes "bus_env_ok V" and "keypair_from_seed (be_lib V) (bc_signing_seed s) = Inr kp"
    and "seal_event V version a (map (\<lambda>r. JStr (recipient_str (be_lib V) r)) rs) t s = Inr ev"
    and "client_scalar V s" and "args_scalar a" and "scalar_str version"
    and "msg_data m = to_wire (be_pydantic V) ev"
    and "kp_private_key (bc_encryption_keypair b) = identity_str (be_lib V) i"
    and "identity_to_public (be_lib V) i \<in> set rs"
    and "lookup_signing_key (be_js V) (be_text_of V) (cfg_service_id (bc_settings s)) (bc_nats b)
           = (Inr (Some (sk_public_key kp)), n')"
    and "user_key (be_lib V) (sk_public_key kp)"
  shows "\<exists>got. fst (process_msg V m b) = Inr got \<and> re_payload got = pa_payload a \<and> re_msg got = m
    \<and> event_type (details got) = pa_event_type a \<and> correlation_id (details got) = pa_correlation_id a
    \<and> event_id (details got) = event_id_of ev \<and> source_service_id (details got) = cfg_service_id (bc_settings s)"
  using sealed_processed [OF assms] assms(3)
  by (elim seal_eventE) (simp add: details_def event_id_of_def made_details_def)

theorem delivered_intact_witness:
  "\<exists>got. fst (process_msg toy_env demo_msg (demo_client (demo_nats []))) = Inr got \<and> re_payload got = [104, 105]"
proof -
  have s: "seal_event toy_env (py ''1'') demo_args (map (\<lambda>r. JStr (recipient_str (be_lib toy_env) r)) [7]) 0
      (demo_client empty_nats) = Inr demo_event"
    using demo_event by (simp add: toy_env_def demo_recipient)
  have "\<exists>got. fst (process_msg toy_env demo_msg (demo_client (demo_nats []))) = Inr got
      \<and> re_payload got = pa_payload demo_args \<and> re_msg got = demo_msg
      \<and> event_type (details got) = pa_event_type demo_args \<and> correlation_id (details got) = pa_correlation_id demo_args
      \<and> event_id (details got) = event_id_of demo_event
      \<and> source_service_id (details got) = cfg_service_id (bc_settings (demo_client empty_nats))"
    by (rule delivered_intact [OF toy_env_ok demo_keypair_env s demo_client_scalar, of _ _ 7 "demo_nats []"])
       (simp_all add: demo_client_def toy_env_def demo_keypair demo_msg_def demo_recipient demo_directory)
  then show ?thesis by (auto simp: demo_args_def)
qed

text \<open>
  C15: a published payload is readable by exactly the services registered for its subject. When
  the cache of the subject has followed a history of the bucket in which nothing ended the watch,
  and the live registrations are keys that age has printed, \<open>publish\<close> sends an event whose payload
  an identity decrypts to the published bytes when its public key is registered in the view
  of that history (put, replaced, deleted and expired entries counted), and otherwise not; and
  with no registration at all the payload is empty.
\<close>

theorem sealed_for_registered:
  assumes "age_ok (be_lib V)" and "keypair_from_seed (be_lib V) (bc_signing_seed b) = Inr kp"
    and "\<forall>item \<in> set its. item_harmless item" and "view = bucket_view (rev (updates its))"
    and "\<forall>x \<in> ran view. \<exists>r. x = JStr (recipient_str (be_lib V) r)"
    and "dict_get (bc_recipient_caches b) (pa_subject a)
           = Some (fold consume its ((new_cache (pa_subject a))\<lparr>rc_task := Running\<rparr>))"
  shows "\<exists>ev. publish V version a b = send_event V a ev (b\<lparr>bc_tick := Suc (bc_tick b)\<rparr>)
    \<and> (if view = Map.empty then ee_payload (ev_event ev) = []
       else \<forall>i. rbind (b64decode False (ee_payload (ev_event ev))) (\<lambda>c. decrypt (be_lib V) c (identity_str (be_lib V) i))
         = (if JStr (recipient_str (be_lib V) (identity_to_public (be_lib V) i)) \<in> ran view
            then Inr (pa_payload a) else Inl DecryptError))"
proof -
  let ?L = "be_lib V" and ?c = "fold consume its ((new_cache (pa_subject a))\<lparr>rc_task := Running\<rparr>)" and ?t = "bc_tick b"
  let ?key = "\<lambda>r. JStr (recipient_str ?L r)"
  from fold_consume [OF fresh_cache_ok assms(3)] current_view [of ?c]
  have cur: "set (current ?c) = ran view" "current ?c = [] \<longleftrightarrow> view = Map.empty"
    by (auto simp: assms(4) set_empty [symmetric] ran_def fun_eq_iff simp del: set_empty)
  with assms(5) obtain rs where rs: "current ?c = map ?key rs" by (metis ex_map_conv)
  have inj: "?key r = ?key q \<Longrightarrow> r = q" for r q using assms(1) unfolding age_ok_def by (metis json.inject(4) sum.inject(2))
  from sign_succeeds [OF assms(2)] obtain sig where sig: "sign ?L (bc_signing_seed b) (pa_payload a) = Inr sig" by blast
  obtain c where c: "(if map ?key rs = [] then Inr [] else encrypt_for_recipients ?L ?t (pa_payload a) (map ?key rs)) = Inr c"
    using seal_succeeds [OF assms(1), of rs ?t "pa_payload a"] by (cases "rs = []") auto
  have "seal_event V version a (current ?c) ?t b' = seal_event V version a (current ?c) ?t b" if "b' = b\<lparr>bc_tick := n\<rparr>" for b' n
    by (simp add: seal_event_def that)
  moreover obtain ev where ev: "seal_event V version a (current ?c) ?t b = Inr ev" and p: "ee_payload (ev_event ev) = b64encode c"
    using c sig by (auto simp: seal_event_def rs as_strs_keys)
  ultimately have "publish V version a b = send_event V a ev (b\<lparr>bc_tick := Suc ?t\<rparr>)"
    using assms(6) by (simp add: publish_def cache_for_def seq_def draw_def with_client_def)
  moreover have "rbind (b64decode False (ee_payload (ev_event ev))) (\<lambda>c. decrypt ?L c (identity_str ?L i))
      = (if ?key (identity_to_public ?L i) \<in> ran view then Inr (pa_payload a) else Inl DecryptError)"
    if "view \<noteq> Map.empty" for i
  proof -
    have "b64decode False (ee_payload (ev_event ev)) = Inr c" unfolding p by (rule b64.dec_enc) simp
    moreover have "encrypt_for_recipients ?L ?t (pa_payload a) (map ?key rs) = Inr c"
      using c cur rs that by (auto split: if_splits)
    moreover have "?key (identity_to_public ?L i) \<in> ran view \<longleftrightarrow> identity_to_public ?L i \<in> set rs"
      using cur(1) rs inj [of "identity_to_public ?L i"] by fastforce
    ultimately show ?thesis using decrypt_sealed [OF assms(1)] by simp
  qed
  moreover have "ee_payload (ev_event ev) = []" if "view = Map.empty" using c cur rs p that by auto
  ultimately show ?thesis by auto
qed

definition key_put :: "string \<Rightarrow> pystr \<Rightarrow> kv_entry" where
  "key_put k key = \<lparr>ke_key = py k, ke_operation = KV_PUT, ke_value = Some (registration_value (py k) [] key 0)\<rparr>"

definition demo_history :: "watch_item list" where
  "demo_history = [Update (key_put ''e.x.a'' [263]), Update (key_put ''e.x.b'' [265]), CaughtUp, Update (demo_purge ''e.x.b'')]"

definition caching_client :: "mem_nats bus_client" where
  "caching_client = (demo_client empty_nats)\<lparr>bc_recipient_caches :=
     [(py ''e.x'', fold consume demo_history ((new_cache (py ''e.x''))\<lparr>rc_task := Running\<rparr>))]\<rparr>"

theorem sealed_for_registered_witness:
  "\<exists>ev. publish toy_env (py ''1'') demo_args caching_client = send_event toy_env demo_args ev (caching_client\<lparr>bc_tick := 1\<rparr>)
     \<and> rbind (b64decode False (ee_payload (ev_event ev))) (\<lambda>c. decrypt toy_crypto c [263]) = Inr [104, 105]
     \<and> rbind (b64decode False (ee_payload (ev_event ev))) (\<lambda>c. decrypt toy_crypto c [265]) = Inl DecryptError"
proof -
  have scalar: "scalar_str [263]" "scalar_str [265]" by (simp_all add: scalar_str_def is_surrogate_def code_point_def)
  have put: "harmless (key_put k key)" "entry_key (key_put k key) = Some (JStr key)" if "scalar_str key" for k key
    using that by (auto simp: harmless_def entry_key_def key_put_def registration_item)
  have h: "\<forall>item \<in> set demo_history. item_harmless item"
    using put(1) scalar by (auto simp: demo_history_def) (simp add: harmless_def demo_purge_def)
  have view: "[py ''e.x.a'' \<mapsto> JStr [263]] = bucket_view (rev (updates demo_history))"
    by (rule ext) (simp add: demo_history_def entry_effect_def put(2) scalar, auto simp: key_put_def demo_purge_def)
  have kp: "keypair_from_seed (be_lib toy_env) (bc_signing_seed caching_client)
      = Inr \<lparr>sk_seed = py ''SU'', sk_public_key = demo_public\<rparr>"
    using demo_keypair_env by (simp add: caching_client_def demo_client_def)
  have cache: "dict_get (bc_recipient_caches caching_client) (pa_subject demo_args)
      = Some (fold consume demo_history ((new_cache (pa_subject demo_args))\<lparr>rc_task := Running\<rparr>))"
    by (simp add: caching_client_def demo_args_def dict_get_def)
  have keys: "\<forall>x \<in> ran [py ''e.x.a'' \<mapsto> JStr [263]]. \<exists>r. x = JStr (recipient_str (be_lib toy_env) r)"
    using demo_recipient(1) by (auto simp: toy_env_def) metis
  have id: "identity_str toy_crypto 7 = [263]" "identity_str toy_crypto 9 = [265]"
    "recipient_str toy_crypto 7 = [263]" "recipient_str toy_crypto 9 = [265]" by (simp_all add: toy_crypto_def)
  from sealed_for_registered [OF bus_env_okD(1) [OF toy_env_ok] kp h view keys cache, of "py ''1''"]
  obtain ev where p: "publish toy_env (py ''1'') demo_args caching_client
      = send_event toy_env demo_args ev (caching_client\<lparr>bc_tick := Suc (bc_tick caching_client)\<rparr>)"
    and d: "rbind (b64decode False (ee_payload (ev_event ev))) (\<lambda>c. decrypt toy_crypto c (identity_str toy_crypto i))
      = (if JStr (recipient_str toy_crypto i) = JStr [263] then Inr (pa_payload demo_args) else Inl DecryptError)" for i
    by (auto simp: toy_env_def demo_recipient(3))
  have "bc_tick caching_client = 0" by (simp add: caching_client_def demo_client_def)
  with p d [of 7] d [of 9] show ?thesis unfolding id by (intro exI [of _ ev]) (simp add: demo_args_def)
qed

text \<open>What a fetch hands out.\<close>

lemma fetch_hands_out:
  assumes "fetch V durable batch b = (Inr evs, b')"
  shows "evs = [] \<or> (\<exists>h ms n1. dict_get (bc_subscriptions b) durable = Some h
    \<and> sub_fetch (be_js V) h batch (bc_nats b) = (Inr ms, n1) \<and> subseq (map re_msg evs) ms
    \<and> (\<forall>ev \<in> set evs. \<exists>k < length ms. \<exists>b0. b0 = snd (process_all V (take k ms) (b\<lparr>bc_nats := n1\<rparr>))
        \<and> bc_encryption_keypair b0 = bc_encryption_keypair b \<and> re_msg ev = ms ! k \<and> accepted V b0 ev))"
proof -
  from assms obtain h where h: "dict_get (bc_subscriptions b) durable = Some h"
    and "try_else is_timeout_error (on_nats (sub_fetch (be_js V) h batch)) (ret []) (process_all V) b = (Inr evs, b')"
    by (auto simp: fetch_def split: option.splits)
  from this(2) show ?thesis
  proof (cases rule: try_else_cases)
    case (2 e w1)
    then show ?thesis by (simp add: ret_def)
  next
    case (3 ms b1)
    then obtain n1 where f: "sub_fetch (be_js V) h batch (bc_nats b) = (Inr ms, n1)" and b1: "b1 = b\<lparr>bc_nats := n1\<rparr>"
      by (auto simp: on_nats_def split: prod.splits)
    have "bc_encryption_keypair (snd (process_all V (take k ms) (b\<lparr>bc_nats := n1\<rparr>))) = bc_encryption_keypair b" for k
      by (simp add: process_all_keeps)
    with process_all_accepted [OF 3(2)] b1 have
      "subseq (map re_msg evs) ms" "\<forall>ev \<in> set evs. \<exists>k < length ms. \<exists>b0. b0 = snd (process_all V (take k ms) (b\<lparr>bc_nats := n1\<rparr>))
        \<and> bc_encryption_keypair b0 = bc_encryption_keypair b \<and> re_msg ev = ms ! k \<and> accepted V b0 ev" by auto
    with f h show ?thesis by (intro disjI2 exI [of _ h] exI [of _ ms] exI [of _ n1] conjI)
  qed simp
qed

text \<open>
  C4: nothing unverified is handed out: every event that a fetch returns decrypted under the
  client's own key and carries a signature that verifies under the key which the identity
  directory, not the message, holds for its claimed sender; the messages that fail are left
  out, and the others come in order.
\<close>

theorem fetched_authentic:
  assumes "fetch V durable batch b = (Inr evs, b')"
  shows "evs = [] \<or> (\<exists>h ms n1. dict_get (bc_subscriptions b) durable = Some h
    \<and> sub_fetch (be_js V) h batch (bc_nats b) = (Inr ms, n1) \<and> subseq (map re_msg evs) ms
    \<and> (\<forall>ev \<in> set evs. \<exists>k < length ms. \<exists>b0. b0 = snd (process_all V (take k ms) (b\<lparr>bc_nats := n1\<rparr>))
        \<and> bc_encryption_keypair b0 = bc_encryption_keypair b \<and> re_msg ev = ms ! k \<and> accepted V b0 ev))"
  using assms by (rule fetch_hands_out)

lemma demo_fetch:
  "\<exists>b'. fetch toy_env (py ''d'') 10 (demo_client (demo_nats [(py ''e.x'', None, to_wire plain_pydantic demo_event)]))
     = (Inr [demo_received], b')"
proof -
  let ?n = "demo_nats [(py ''e.x'', None, to_wire plain_pydantic demo_event)]"
  let ?n1 = "?n\<lparr>mem_subs := [(py ''e.x'', 1)]\<rparr>"
  let ?b = "demo_client ?n" and ?b1 = "demo_client ?n1"
  have "lookup_signing_key mem_js (\<lambda>_. []) (py ''svc'') ?n1 = (Inr (Some demo_public), ?n1)"
    using demo_directory [of "\<lambda>_. []" "mem_log ?n"]
    by (auto simp: lookup_signing_key_def mem_js_def demo_nats_def dict_get_def try_else_def lift_res_def split: sum.splits)
  from demo_processed_by [OF _ this, of ?b1] have "fst (process_msg toy_env demo_msg ?b1) = Inr demo_received"
    by (simp add: demo_client_def)
  then obtain b2 where p: "process_msg toy_env demo_msg ?b1 = (Inr demo_received, b2)"
    by (cases "process_msg toy_env demo_msg ?b1") simp
  have "on_nats (sub_fetch (be_js toy_env) 0 10) ?b = (Inr [demo_msg], ?b1)"
    by (simp add: on_nats_def toy_env_def mem_js_def mem_fetch_def demo_client_def demo_nats_def demo_msg_def Let_def)
  moreover have "dict_get (bc_subscriptions ?b) (py ''d'') = Some 0" by (simp add: demo_client_def dict_get_def)
  ultimately show ?thesis using p by (simp add: fetch_def try_else_def seq_def ret_def)
qed

theorem fetched_authentic_witness:
  "\<exists>b0. bc_encryption_keypair b0 = \<lparr>kp_private_key = [263], kp_public_key = [263]\<rparr> \<and> accepted toy_env b0 demo_received"
proof -
  from demo_fetch obtain b' where
    f: "fetch toy_env (py ''d'') 10 (demo_client (demo_nats [(py ''e.x'', None, to_wire plain_pydantic demo_event)]))
      = (Inr [demo_received], b')" by blast
  from fetched_authentic [OF f] show ?thesis by (auto simp: demo_client_def)
qed

text \<open>
  The signature covers the payload alone: from any accepted message another one that
  differs in its id, time, type, version, correlation and recipients is accepted just so, with
  the same payload under the new headers.
\<close>

lemma headers_unsigned:
  assumes "pydantic_ok (be_pydantic V)" and "process_msg V m b = (Inr ev, b')"
    and "ev' = \<lparr>ev_event = \<lparr>ee_details = (details ev)\<lparr>event_id := i, event_created := c, event_type := ty,
        event_schema_version := v, correlation_id := ci\<rparr>, ee_encryption = enc,
        ee_payload = ee_payload (ev_event (re_event ev))\<rparr>\<rparr>"
    and "event_scalar ev'" and "msg_data m' = to_wire (be_pydantic V) ev'"
  shows "fst (process_msg V m' b) = Inr \<lparr>re_event = ev', re_payload = re_payload ev, re_msg = m'\<rparr>"
  using assms(2)
proof (rule process_msgE)
  fix e t d s key sig n1 n2
  assume e: "re_event ev = e" and d: "b64decode False (ee_payload (ev_event e)) = Inr d"
    "decrypt (be_lib V) d (kp_private_key (bc_encryption_keypair b)) = Inr (re_payload ev)"
    and s: "signature (ee_details (ev_event e)) = Some s" "b64decode False s = Inr sig"
    and k: "lookup_signing_key (be_js V) (be_text_of V) (source_service_id (ee_details (ev_event e))) n1 = (Inr (Some key), n2)"
    "n1 = bc_nats b" and v: "verify (be_lib V) key (re_payload ev) sig = Inr True"
  have "from_wire (be_pydantic V) (be_uuid V (bc_tick b)) (be_now V (bc_tick b)) (msg_data m') = Inr ev'"
    unfolding assms(5) by (rule from_wire_to_wire [OF assms(1,4)])
  with e d s k v show ?thesis
    by (intro process_msgI [of V b m' ev' d "re_payload ev" s sig key n2]) (simp_all add: assms(3) details_def)
qed

lemma headers_unsigned_witness:
  "\<exists>m' got. fst (process_msg toy_env m' (demo_client (demo_nats []))) = Inr got
     \<and> re_payload got = [104, 105] \<and> event_type (details got) = py ''Forged''"
proof -
  obtain b' where p: "process_msg toy_env demo_msg (demo_client (demo_nats [])) = (Inr demo_received, b')"
    using demo_processed by (cases "process_msg toy_env demo_msg (demo_client (demo_nats []))") simp
  let ?ev = "\<lparr>ev_event = \<lparr>ee_details = (details demo_received)\<lparr>event_id := [], event_created := 0,
      event_type := py ''Forged'', event_schema_version := [], correlation_id := None\<rparr>,
      ee_encryption = \<lparr>algorithm = [], recipients = []\<rparr>, ee_payload = ee_payload (ev_event (re_event demo_received))\<rparr>\<rparr>"
  have "event_scalar ?ev"
    using demo_event_scalar by (simp add: event_scalar_def Let_def demo_received_def details_def opt_scalar_def)
  from headers_unsigned [OF bus_env_okD(3) [OF toy_env_ok] p refl this, of
      "\<lparr>msg_subject = [], msg_data = to_wire (be_pydantic toy_env) ?ev, msg_num_delivered = 1, msg_token = 0\<rparr>"]
  show ?thesis by (intro exI conjI) (assumption | simp add: demo_received_def details_def)+
qed

text \<open>
  An event published while no recipient is known is lost: its payload is empty whatever
  was to be said, so every receiver that fetches it fails to process it.
\<close>

lemma published_to_nobody_is_lost:
  assumes "pydantic_ok (be_pydantic V)" and "\<And>i. age_decrypt (be_lib V) [] [i] = Inl DecryptError"
    and "seal_event V version a [] t s = Inr ev" and "client_scalar V s" and "args_scalar a" and "scalar_str version"
    and "msg_data m = to_wire (be_pydantic V) ev"
  shows "ee_payload (ev_event ev) = [] \<and> (\<exists>e. fst (process_msg V m b) = Inl e)"
  using assms(3)
proof (rule seal_eventE)
  fix c sig keys
  assume "(if ([] :: json list) = [] then Inr [] else encrypt_for_recipients (be_lib V) t (pa_payload a) []) = Inr c"
    and p: "ee_payload (ev_event ev) = b64encode c"
  then have c: "c = []" by simp
  have "event_scalar ev" by (rule seal_event_scalar [OF assms(3-6)]) simp
  from from_wire_to_wire [OF assms(1) this] have
    w: "from_wire (be_pydantic V) (be_uuid V t) (be_now V t) (msg_data m) = Inr ev" for t unfolding assms(7) .
  have "b64decode False (b64encode []) = Inr []" by (rule b64.dec_enc) simp
  then have "b64decode False [] = Inr []" by simp
  moreover have "\<exists>e. decrypt (be_lib V) [] k = Inl e" for k
    using assms(2) by (cases "identity_from_str (be_lib V) k") (simp_all add: decrypt_def)
  ultimately show ?thesis
    using c p w by (auto simp: process_msg_def seq_def draw_def lift_res_def with_client_def split: sum.splits)
       (metis sum.distinct(1))
qed

lemma published_to_nobody_is_lost_witness:
  "\<exists>ev. seal_event toy_env (py ''1'') demo_args [] 0 (demo_client empty_nats) = Inr ev \<and> ee_payload (ev_event ev) = []"
proof -
  obtain ev where ev: "seal_event toy_env (py ''1'') demo_args [] 0 (demo_client empty_nats) = Inr ev"
    using demo_sealed [of "[]"] by auto
  have "ee_payload (ev_event ev) = [] \<and> (\<exists>e. fst (process_msg toy_env
      \<lparr>msg_subject = [], msg_data = to_wire (be_pydantic toy_env) ev, msg_num_delivered = 1, msg_token = 0\<rparr>
      (demo_client empty_nats)) = Inl e)"
    by (rule published_to_nobody_is_lost [OF bus_env_okD(3) [OF toy_env_ok] _ ev demo_client_scalar])
       (simp_all add: toy_env_def toy_empty_box)
  with ev show ?thesis by blast
qed

text \<open>
  C37: the redelivery delays: a message delivered for the \<open>k\<close>-th time is delayed by an entry of
  the table, at least two and at most sixty seconds, never by less than after an earlier
  delivery, and by the whole minute from the last allowed attempt on.
\<close>

theorem nak_delay_escalates:
  assumes "1 \<le> k" and "k \<le> l"
  shows "\<exists>d e. nak_delay k = Inr d \<and> nak_delay l = Inr e \<and> 2 \<le> d \<and> d \<le> e \<and> e \<le> 60
    \<and> (MAX_DELIVER_ATTEMPTS \<le> l \<longrightarrow> e = 60)"
proof -
  have delay: "nak_delay j = Inr (if j = 1 then 2 else if j = 2 then 5 else if j = 3 then 15 else if j = 4 then 30 else 60)"
    if "1 \<le> j" for j
  proof -
    consider "j = 1" | "j = 2" | "j = 3" | "j = 4" | "5 \<le> j" using \<open>1 \<le> j\<close> by linarith
    then show ?thesis
      by cases (simp_all add: nak_delay_def py_index_def Let_def REDELIVERY_BACKOFF_SECONDS_def min_def)
  qed
  from delay [OF assms(1)] delay [of l] assms show ?thesis
    by (auto simp: MAX_DELIVER_ATTEMPTS_def)
qed

theorem nak_delay_escalates_witness:
  "\<exists>d e. nak_delay 1 = Inr d \<and> nak_delay 7 = Inr e \<and> d \<le> e \<and> e = 60"
  using nak_delay_escalates [of 1 7] by (auto simp: MAX_DELIVER_ATTEMPTS_def)

text \<open>A recipient cache whose watch has ended with an exception.\<close>

definition watch_died :: "recipient_cache \<Rightarrow> bool" where
  "watch_died c \<longleftrightarrow> (case rc_task c of Failed e \<Rightarrow> e \<noteq> CancelledErr | _ \<Rightarrow> False)"

lemma cache_stop_died: "(\<exists>e. fst (cache_stop c) = Inl e) \<longleftrightarrow> watch_died c"
  by (auto simp: cache_stop_def watch_died_def split: watch_task.splits)

lemma stop_caches_died: "(\<exists>e. fst (stop_caches cs) = Inl e) \<longleftrightarrow> list_ex (\<lambda>(s, c). watch_died c) cs"
proof (induction cs)
  case (Cons p cs)
  obtain s c where p: "p = (s, c)" by fastforce
  show ?case
  proof (cases "cache_stop c")
    case (Pair r c')
    with cache_stop_died [of c] Cons p show ?thesis by (cases r) (auto split: prod.splits)
  qed
qed simp

text \<open>
  C36: closing cancels every heartbeat; but if a recipient cache's watch has died it raises
  that exception and leaves the connection open. Only otherwise is the connection closed.
\<close>

theorem close_outcome:
  "map hb_cancelled (bc_background_tasks (snd (close V b))) = replicate (length (bc_background_tasks b)) True
   \<and> (if list_ex (\<lambda>(s, c). watch_died c) (bc_recipient_caches b)
      then isl (fst (close V b)) \<and> bc_nats (snd (close V b)) = bc_nats b
      else fst (close V b) = fst (nc_close (be_js V) (bc_nats b))
        \<and> bc_nats (snd (close V b)) = snd (nc_close (be_js V) (bc_nats b)))"
proof -
  have c: "map (hb_cancelled \<circ> hb_cancelled_update (\<lambda>_. True)) ts = replicate (length ts) True" for ts
    by (induction ts) simp_all
  show ?thesis
  proof (cases "stop_caches (bc_recipient_caches b)")
    case (Pair r cs)
    with stop_caches_died [of "bc_recipient_caches b"] c show ?thesis
      by (cases r) (auto simp: close_def Let_def on_nats_def split: prod.splits)
  qed
qed

text \<open>What a successful \<open>subscribe\<close> leaves.\<close>

lemma subscribe_Inr:
  assumes "subscribe V subject d b = (Inr k, b')"
  shows "k = consumer_name (cfg_service_id (bc_settings b)) subject d
    \<and> bc_settings b' = bc_settings b \<and> (\<exists>h. bc_subscriptions b' = dict_set k h (bc_subscriptions b))
    \<and> (\<exists>t. bc_background_tasks b' = bc_background_tasks b @ [t])"
  using assms unfolding subscribe_def Let_def
  by (auto simp: seq_def draw_def on_nats_def split: prod.splits sum.splits)

text \<open>
  Subscribing again to the same consumer keeps one subscription but starts another
  heartbeat: the background tasks grow with every call.
\<close>

lemma subscribe_again:
  assumes "subscribe V subject d b = (Inr k, b1)" and "subscribe V subject d b1 = (Inr k', b2)"
  shows "k' = k \<and> dom (dict_get (bc_subscriptions b2)) = dom (dict_get (bc_subscriptions b1))
    \<and> length (bc_background_tasks b2) = length (bc_background_tasks b) + 2"
proof -
  note one = subscribe_Inr [OF assms(1)] and two = subscribe_Inr [OF assms(2)]
  have k: "k' = k" using one two by simp
  with one two show ?thesis by (auto simp: dict_simps)
qed

lemma subscribe_again_witness:
  "length (bc_background_tasks (snd (subscribe toy_env (py ''e.x'') None
     (snd (subscribe toy_env (py ''e.x'') None (demo_client empty_nats)))))) = 2"
proof -
  obtain k b1 where one: "subscribe toy_env (py ''e.x'') None (demo_client empty_nats) = (Inr k, b1)"
    by (simp add: subscribe_def seq_def draw_def on_nats_def heartbeat_def register_def toy_env_def mem_js_def ret_def Let_def)
  obtain k' b2 where two: "subscribe toy_env (py ''e.x'') None b1 = (Inr k', b2)"
    by (simp add: subscribe_def seq_def draw_def on_nats_def heartbeat_def register_def toy_env_def mem_js_def ret_def Let_def)
  from subscribe_again [OF one two] one two show ?thesis by (simp add: demo_client_def)
qed

end
