(* ===== verification/Rest_Service.thy ===== *)
theory Rest_Service
  imports Rest_Api Bus_Properties
begin

text \<open>
  The REST service as it runs: requests, the reply watcher and the ends of waits take turns over
  one client and one \<open>PendingReplies\<close>. The state keeps what became of each request, so that an
  answer can be traced to the publish of its order and to the reply that was fetched for it. The
  service refines the step relation of \<open>Rest_Api\<close>; what the client guarantees of the events it
  hands out is a locale, interpreted on any client and on the model of \<open>bus_client.py\<close>.
\<close>

section \<open>The running service\<close>

text \<open>
  \<open>sv_sent\<close> are the requests whose order has been published but whose handler has not gone on yet,
  \<open>sv_waiting\<close> those whose waits are the \<open>sv_flights\<close>, in the same order, both with the id of their
  event; \<open>sv_answers\<close> those answered at once; \<open>sv_watcher\<close> is what killed the watcher, if anything.
\<close>

record 'c rest_service =
  sv_world :: "'c rest_world"
  sv_sent :: "(order_call \<times> pystr) list"
  sv_waiting :: "(order_call \<times> pystr) list"
  sv_flights :: "flight list"
  sv_answers :: "(order_call \<times> response res) list"
  sv_watcher :: "exn option"

definition service_init :: "'c \<Rightarrow> 'c rest_service" where
  "service_init client = \<lparr>sv_world = \<lparr>w_client = client, w_calls = [], w_tick = 0, w_replies = pending_replies_init\<rparr>,
     sv_sent = [], sv_waiting = [], sv_flights = [], sv_answers = [], sv_watcher = None\<rparr>"

definition REPLY_BATCH :: nat where "REPLY_BATCH = 10"

text \<open>A request at the route, up to the return of \<open>publish\<close>.\<close>

definition take_order :: "'c bus \<Rightarrow> order_call \<Rightarrow> 'c rest_service \<Rightarrow> 'c rest_service" where
  "take_order B call s =
     (case publish_order B call (sv_world s) of
        (Inl e, w) \<Rightarrow> s\<lparr>sv_world := w, sv_answers := sv_answers s @ [(call, Inl e)]\<rparr>
      | (Inr eid, w) \<Rightarrow> s\<lparr>sv_world := w, sv_sent := sv_sent s @ [(call, eid)]\<rparr>)"

text \<open>The \<open>i\<close>-th of these goes on: an answer at once, or one more waiting request.\<close>

definition go_on :: "rest_api_settings \<Rightarrow> nat \<Rightarrow> 'c rest_service \<Rightarrow> 'c rest_service" where
  "go_on settings i s =
     (if i < length (sv_sent s) then
        (case sv_sent s ! i of (call, eid) \<Rightarrow>
         let s' = s\<lparr>sv_sent := take i (sv_sent s) @ drop (Suc i) (sv_sent s)\<rparr> in
         case answer_or_wait settings call eid (sv_world s) of
           (Inl e, w) \<Rightarrow> s'\<lparr>sv_world := w, sv_answers := sv_answers s @ [(call, Inl e)]\<rparr>
         | (Inr (Inl response), w) \<Rightarrow> s'\<lparr>sv_world := w, sv_answers := sv_answers s @ [(call, Inr response)]\<rparr>
         | (Inr (Inr wt), w) \<Rightarrow> s'\<lparr>sv_world := w, sv_waiting := sv_waiting s @ [(call, eid)],
             sv_flights := sv_flights s @ [\<lparr>fl_event_id = wt_event_id wt, fl_future = wt_future wt, fl_response = None\<rparr>]\<rparr>)
      else s)"

text \<open>One pass of the watcher's loop, while its task is alive.\<close>

definition watcher_pass :: "'c bus \<Rightarrow> pystr \<Rightarrow> 'c rest_service \<Rightarrow> 'c rest_service" where
  "watcher_pass B durable s =
     (if sv_watcher s = None then
        (case run_reply_watcher B durable REPLY_BATCH [False] (sv_world s) of
           (Some (Inl e), w) \<Rightarrow> s\<lparr>sv_world := w, sv_watcher := Some e\<rparr>
         | (_, w) \<Rightarrow> s\<lparr>sv_world := w\<rparr>)
      else s)"

text \<open>The end of the wait of the \<open>i\<close>-th waiting request, unless it is over already.\<close>

definition end_flight ::
  "(flight \<Rightarrow> pending_replies \<Rightarrow> response res \<times> pending_replies) \<Rightarrow> nat \<Rightarrow> 'c rest_service \<Rightarrow> 'c rest_service" where
  "end_flight over i s =
     (if i < length (sv_flights s) \<and> fl_response (sv_flights s ! i) = None then
        (case over (sv_flights s ! i) (w_replies (sv_world s)) of (r, p) \<Rightarrow>
           s\<lparr>sv_world := (sv_world s)\<lparr>w_replies := p\<rparr>,
             sv_flights := (sv_flights s)[i := (sv_flights s ! i)\<lparr>fl_response := Some r\<rparr>]\<rparr>)
      else s)"

definition wait_over :: "flight \<Rightarrow> pending_replies \<Rightarrow> response res \<times> pending_replies" where
  "wait_over fl p = (case finish_wait (fl_event_id fl) (fl_future fl) p of (r, q) \<Rightarrow> (Inr r, q))"

definition wait_cancelled :: "flight \<Rightarrow> pending_replies \<Rightarrow> response res \<times> pending_replies" where
  "wait_cancelled fl p = (Inl CancelledErr, cancel_wait (fl_event_id fl) (fl_future fl) p)"

datatype rest_turn = OrderTurn order_call | GoesOn nat | WatcherTurn | WaitOver nat | WaitCancelled nat

fun service_turn :: "'c bus \<Rightarrow> rest_api_settings \<Rightarrow> pystr \<Rightarrow> rest_turn \<Rightarrow> 'c rest_service \<Rightarrow> 'c rest_service" where
  "service_turn B settings durable (OrderTurn call) s = take_order B call s"
| "service_turn B settings durable (GoesOn i) s = go_on settings i s"
| "service_turn B settings durable WatcherTurn s = watcher_pass B durable s"
| "service_turn B settings durable (WaitOver i) s = end_flight wait_over i s"
| "service_turn B settings durable (WaitCancelled i) s = end_flight wait_cancelled i s"

definition run_service :: "'c bus \<Rightarrow> rest_api_settings \<Rightarrow> pystr \<Rightarrow> rest_turn list \<Rightarrow> 'c \<Rightarrow> 'c rest_service" where
  "run_service B settings durable turns client = fold (service_turn B settings durable) turns (service_init client)"

section \<open>Refinement and traces\<close>

definition waits :: "flight list \<Rightarrow> 'c rest_world \<Rightarrow> rest_state" where
  "waits fls w = \<lparr>st_replies = w_replies w, st_flights = fls\<rparr>"

text \<open>The events a list of calls has fetched for the watcher, and whether the order of a request was
  published in it, under the id the request was then given.\<close>

definition fetched_events :: "pystr \<Rightarrow> bus_call list \<Rightarrow> received_event set" where
  "fetched_events durable cs = {ev. \<exists>evs. Fetched durable REPLY_BATCH (Inr evs) \<in> set cs \<and> ev \<in> set evs}"

definition order_published :: "order_call \<times> pystr \<Rightarrow> bus_call list \<Rightarrow> bool" where
  "order_published sent cs \<longleftrightarrow> (case sent of (call, eid) \<Rightarrow>
     \<exists>body. oc_body call = Inr body \<and> Published (order_args body (oc_idempotency_key call)) (Inr eid) \<in> set cs)"

lemma traces_grow:
  "fetched_events durable cs \<subseteq> fetched_events durable (cs @ ds)"
  "order_published sent cs \<Longrightarrow> order_published sent (cs @ ds)"
  by (auto simp: fetched_events_def order_published_def)

text \<open>
  \<open>service_ok\<close>: the waiting requests are a reachable state of the step relation, each request is
  about an order that was published, and each future that is done holds an event that was fetched.
\<close>

definition service_ok ::
  "('c \<Rightarrow> bool) \<Rightarrow> (received_event \<Rightarrow> bool) \<Rightarrow> pystr \<Rightarrow> (order_call \<times> pystr) set \<Rightarrow> flight list \<Rightarrow> 'c rest_world \<Rightarrow> bool" where
  "service_ok keeps good durable ids fls w \<longleftrightarrow> rest_reachable (waits fls w) \<and> keeps (w_client w) \<and>
     (\<forall>eid \<in> ids. order_published eid (w_calls w)) \<and>
     (\<forall>ev. Done ev \<in> set (pr_futures (w_replies w)) \<longrightarrow> good ev \<and> ev \<in> fetched_events durable (w_calls w))"

definition event_ids :: "'c rest_service \<Rightarrow> (order_call \<times> pystr) set" where
  "event_ids s = set (sv_sent s) \<union> set (sv_waiting s)"

abbreviation "service_good keeps good durable s \<equiv> service_ok keeps good durable (event_ids s) (sv_flights s) (sv_world s)"

lemma service_init_ok: "keeps client \<Longrightarrow> service_good keeps good durable (service_init client)"
  using rest_reachable.start
  by (simp add: service_ok_def service_init_def waits_def rest_init_def pending_replies_init_def event_ids_def)

lemma service_ok_step:
  assumes "service_ok keeps good durable ids fls w" and "rest_step (waits fls w) (waits fls' w')"
    and "keeps (w_client w')" and "w_calls w' = w_calls w @ cs"
    and "\<And>eid. eid \<in> ids' \<Longrightarrow> eid \<in> ids \<or> order_published eid (w_calls w')"
    and "\<And>ev. Done ev \<in> set (pr_futures (w_replies w')) \<Longrightarrow>
      Done ev \<in> set (pr_futures (w_replies w)) \<or> good ev \<and> ev \<in> fetched_events durable (w_calls w')"
  shows "service_ok keeps good durable ids' fls' w'"
proof -
  have "rest_reachable (waits fls' w')"
    using assms(1,2) unfolding service_ok_def by (blast intro: rest_reachable.step)
  moreover have "order_published eid (w_calls w')" if "eid \<in> ids'" for eid
    using assms(5) [OF that] assms(1,4) traces_grow(2) by (fastforce simp: service_ok_def)
  moreover have "good ev \<and> ev \<in> fetched_events durable (w_calls w')" if "Done ev \<in> set (pr_futures (w_replies w'))" for ev
    using assms(6) [OF that] assms(1,4) traces_grow(1) by (fastforce simp: service_ok_def)
  ultimately show ?thesis using assms(3) by (simp add: service_ok_def)
qed

text \<open>A call that leaves the replies alone.\<close>

lemma service_ok_call:
  assumes "service_ok keeps good durable ids fls w" and "via m label w = (r, w')" and "keeps (snd (m (w_client w)))"
  shows "service_ok keeps good durable ids fls w'"
proof -
  have w': "w' = w\<lparr>w_client := snd (m (w_client w)), w_calls := w_calls w @ [label r]\<rparr>"
    using assms(2) by (auto simp: via_def split: prod.splits)
  then show ?thesis
    using assms(1,3) traces_grow unfolding service_ok_def waits_def by fastforce
qed

text \<open>The requests beside the waits are those the waits belong to.\<close>

lemma service_turn_waiting:
  assumes "map snd (sv_waiting s) = map fl_event_id (sv_flights s)"
  shows "map snd (sv_waiting (service_turn B settings durable t s)) = map fl_event_id (sv_flights (service_turn B settings durable t s))"
proof -
  have over: "map fl_event_id (sv_flights (end_flight over i s)) = map fl_event_id (sv_flights s)
      \<and> sv_waiting (end_flight over i s) = sv_waiting s" for over i
    by (auto simp: end_flight_def map_update split: prod.splits) (metis list_update_id nth_map)
  have gone: "map snd (sv_waiting (go_on settings i s)) = map fl_event_id (sv_flights (go_on settings i s))" for i
  proof (cases "sv_sent s ! i")
    case (Pair call eid)
    with assms show ?thesis
      by (cases "oc_wait call \<le> 0") (auto simp: go_on_def answer_or_wait_def ret_def Let_def split: prod.splits)
  qed
  show ?thesis
    using assms over gone
    by (cases t) (auto simp: take_order_def watcher_pass_def split: prod.splits sum.splits option.splits)
qed

lemma run_service_waiting:
  "map snd (sv_waiting (run_service B settings durable turns client)) = map fl_event_id (sv_flights (run_service B settings durable turns client))"
proof -
  have "map snd (sv_waiting s) = map fl_event_id (sv_flights s) \<Longrightarrow>
      map snd (sv_waiting (fold (service_turn B settings durable) turns s))
      = map fl_event_id (sv_flights (fold (service_turn B settings durable) turns s))" for s
    by (induction turns arbitrary: s) (simp_all add: service_turn_waiting)
  then show ?thesis by (simp add: run_service_def service_init_def)
qed

section \<open>What a client guarantees of the events it hands out\<close>

locale event_source =
  fixes B :: "'c bus"
    and keeps :: "'c \<Rightarrow> bool"
    and good :: "received_event \<Rightarrow> bool"
  assumes publish_keeps: "keeps c \<Longrightarrow> keeps (snd (bus_publish B a c))"
    and ack_keeps: "keeps c \<Longrightarrow> keeps (snd (bus_ack B m c))"
    and fetch_keeps: "keeps c \<Longrightarrow> keeps (snd (bus_fetch B d n c))"
    and fetch_good: "keeps c \<Longrightarrow> bus_fetch B d n c = (Inr evs, c') \<Longrightarrow> ev \<in> set evs \<Longrightarrow> good ev"
begin

lemma take_order_ok:
  assumes "service_good keeps good durable s"
  shows "service_good keeps good durable (take_order B call s)"
proof (cases "oc_body call")
  case (Inl e)
  with assms show ?thesis by (simp add: take_order_def publish_order_def seq_def lift_res_def event_ids_def)
next
  case (Inr body)
  let ?a = "order_args body (oc_idempotency_key call)" and ?w = "sv_world s"
  obtain r w1 where p: "b_publish B ?a ?w = (r, w1)" by fastforce
  have ok: "service_ok keeps good durable (event_ids s) (sv_flights s) w1"
    using service_ok_call [OF assms p [unfolded b_publish_def]] publish_keeps assms by (simp add: service_ok_def)
  note run = take_order_def publish_order_def Inr p seq_def lift_res_def
  show ?thesis
  proof (cases r)
    case (Inl e)
    with ok show ?thesis by (simp add: run event_ids_def)
  next
    case id: (Inr eid)
    have "order_published (call, eid) (w_calls w1)"
      using b_publish_calls [OF p] id Inr by (auto simp: order_published_def)
    with ok have "service_ok keeps good durable (insert (call, eid) (event_ids s)) (sv_flights s) w1"
      by (simp add: service_ok_def)
    with id show ?thesis by (simp add: run event_ids_def)
  qed
qed

lemma go_on_ok:
  assumes ok: "service_good keeps good durable s"
  shows "service_good keeps good durable (go_on settings i s)"
proof (cases "i < length (sv_sent s)")
  case True
  obtain call eid where c: "sv_sent s ! i = (call, eid)" by fastforce
  let ?sent = "take i (sv_sent s) @ drop (Suc i) (sv_sent s)"
  have id: "(call, eid) \<in> event_ids s" and less: "set ?sent \<subseteq> set (sv_sent s)"
    using True c nth_mem [OF True] by (force simp: event_ids_def dest: in_set_takeD in_set_dropD)+
  show ?thesis
  proof (cases "oc_wait call \<le> 0")
    case wait: True
    with True c ok less show ?thesis
      by (auto simp: go_on_def answer_or_wait_def ret_def event_ids_def service_ok_def)
  next
    case False
    obtain f q where reg: "pr_register eid (w_replies (sv_world s)) = (f, q)" by fastforce
    let ?fl = "\<lparr>fl_event_id = eid, fl_future = f, fl_response = None\<rparr>" and ?w' = "(sv_world s)\<lparr>w_replies := q\<rparr>"
    have "pr_futures q = pr_futures (w_replies (sv_world s)) @ [Pending]"
      using reg by (auto simp: pr_register_def Let_def)
    moreover have "rest_step (waits (sv_flights s) (sv_world s)) (waits (sv_flights s @ [?fl]) ?w')"
      using rest_step.wait [of eid "waits (sv_flights s) (sv_world s)" f q] reg by (simp add: waits_def)
    ultimately have "service_ok keeps good durable (set ?sent \<union> set (sv_waiting s @ [(call, eid)])) (sv_flights s @ [?fl]) ?w'"
      using ok id less by (intro service_ok_step [OF ok, where cs = "[]"]) (auto simp: service_ok_def event_ids_def)
    with True c False reg show ?thesis by (simp add: go_on_def answer_or_wait_def event_ids_def)
  qed
qed (use ok in \<open>simp add: go_on_def\<close>)

lemma handled_ok:
  "for_each (reply_handle B) evs w = (r, w') \<Longrightarrow> service_ok keeps good durable ids fls w \<Longrightarrow>
   \<forall>ev \<in> set evs. good ev \<and> ev \<in> fetched_events durable (w_calls w) \<Longrightarrow> service_ok keeps good durable ids fls w'"
proof (induction evs arbitrary: w)
  case (Cons ev evs)
  obtain found q where res: "pr_resolve ev (w_replies w) = (found, q)" by fastforce
  let ?w1 = "w\<lparr>w_replies := q\<rparr>"
  obtain r2 w2 where a: "b_ack B ev ?w1 = (r2, w2)" by fastforce
  have q: "set (pr_futures q) \<subseteq> insert (Done ev) (set (pr_futures (w_replies w)))"
    using res set_update_subset_insert by (fastforce simp: pr_resolve_def split: option.splits if_splits)
  have "rest_step (waits fls w) (waits fls ?w1)"
    using rest_step.reply [of ev "waits fls w" found q] res by (simp add: waits_def)
  then have ok1: "service_ok keeps good durable ids fls ?w1"
    by (rule service_ok_step [OF Cons.prems(2), where cs = "[]"])
       (use Cons.prems(2,3) q in \<open>auto simp: service_ok_def\<close>)
  have ok2: "service_ok keeps good durable ids fls w2"
    using service_ok_call [OF ok1 a [unfolded b_ack_def]] ack_keeps ok1 by (simp add: service_ok_def)
  have h: "reply_handle B ev w = (r2, w2)"
    using res a by (simp add: reply_handle_def seq_def resolve_reply_def)
  show ?case
  proof (cases r2)
    case (Inl e)
    with h Cons.prems(1) ok2 show ?thesis by simp
  next
    case (Inr u)
    with h Cons.prems(1) have "for_each (reply_handle B) evs w2 = (r, w')" by simp
    moreover have "\<forall>ev \<in> set evs. good ev \<and> ev \<in> fetched_events durable (w_calls w2)"
      using Cons.prems(3) b_ack_calls [OF a] traces_grow(1) by fastforce
    ultimately show ?thesis by (rule Cons.IH [OF _ ok2])
  qed
qed simp

lemma watcher_pass_ok:
  assumes ok: "service_good keeps good durable s"
  shows "service_good keeps good durable (watcher_pass B durable s)"
proof -
  obtain r w1 where f: "b_fetch B durable REPLY_BATCH (sv_world s) = (r, w1)" by fastforce
  have ok1: "service_ok keeps good durable (event_ids s) (sv_flights s) w1"
    using service_ok_call [OF ok f [unfolded b_fetch_def]] fetch_keeps ok by (simp add: service_ok_def)
  have calls: "w_calls w1 = w_calls (sv_world s) @ [Fetched durable REPLY_BATCH r]"
    using f by (auto simp: b_fetch_def via_def split: prod.splits)
  have pass: "service_ok keeps good durable (event_ids s) (sv_flights s) w2"
    if "run_once B (reply_handle B) durable REPLY_BATCH (sv_world s) = (r2, w2)" for r2 w2
  proof (cases r)
    case (Inl e)
    with f that ok1 show ?thesis by (simp add: run_once_def seq_def)
  next
    case (Inr evs)
    obtain r3 w3 where h: "for_each (reply_handle B) evs w1 = (r3, w3)" by fastforce
    have "w2 = w3" using that f Inr h by (auto simp: run_once_def seq_def ret_def split: sum.splits)
    moreover have "good ev \<and> ev \<in> fetched_events durable (w_calls w1)" if "ev \<in> set evs" for ev
    proof -
      have "bus_fetch B durable REPLY_BATCH (w_client (sv_world s)) = (Inr evs, w_client w1)"
        using f Inr by (auto simp: b_fetch_def via_def split: prod.splits)
      with fetch_good ok that have "good ev" unfolding service_ok_def by blast
      with calls Inr that show ?thesis by (auto simp: fetched_events_def)
    qed
    ultimately show ?thesis using handled_ok [OF h ok1] by blast
  qed
  obtain r2 w2 where "run_once B (reply_handle B) durable REPLY_BATCH (sv_world s) = (r2, w2)" by fastforce
  with pass [OF this] ok show ?thesis
    by (auto simp: watcher_pass_def run_reply_watcher_def event_ids_def split: sum.splits)
qed

lemma end_flight_ok:
  assumes ok: "service_good keeps good durable s"
    and step: "\<And>r p fls. i < length (sv_flights s) \<Longrightarrow> fl_response (sv_flights s ! i) = None \<Longrightarrow>
      over (sv_flights s ! i) (w_replies (sv_world s)) = (r, p) \<Longrightarrow>
      rest_step (waits (sv_flights s) (sv_world s))
        \<lparr>st_replies = p, st_flights = (sv_flights s)[i := (sv_flights s ! i)\<lparr>fl_response := Some r\<rparr>]\<rparr>
      \<and> set (pr_futures p) \<subseteq> insert Cancelled (set (pr_futures (w_replies (sv_world s))))"
  shows "service_good keeps good durable (end_flight over i s)"
proof (cases "i < length (sv_flights s) \<and> fl_response (sv_flights s ! i) = None")
  case True
  obtain r p where o: "over (sv_flights s ! i) (w_replies (sv_world s)) = (r, p)" by fastforce
  let ?fls = "(sv_flights s)[i := (sv_flights s ! i)\<lparr>fl_response := Some r\<rparr>]" and ?w = "(sv_world s)\<lparr>w_replies := p\<rparr>"
  from step [OF _ _ o] True have "service_ok keeps good durable (event_ids s) ?fls ?w"
    by (intro service_ok_step [OF ok, where cs = "[]"])
       (use ok in \<open>auto simp: service_ok_def waits_def event_ids_def\<close>)
  with True o show ?thesis by (simp add: end_flight_def event_ids_def)
next
  case False
  with ok show ?thesis by (auto simp: end_flight_def)
qed

lemma wait_over_ok:
  "service_good keeps good durable s \<Longrightarrow>
   service_good keeps good durable (end_flight wait_over i s)"
proof (erule end_flight_ok)
  fix r p
  assume i: "i < length (sv_flights s)" "fl_response (sv_flights s ! i) = None"
    and o: "wait_over (sv_flights s ! i) (w_replies (sv_world s)) = (r, p)"
  then obtain resp where r: "r = Inr resp"
    and f: "finish_wait (fl_event_id (sv_flights s ! i)) (fl_future (sv_flights s ! i)) (w_replies (sv_world s)) = (resp, p)"
    by (auto simp: wait_over_def split: prod.splits)
  from f have "set (pr_futures p) \<subseteq> insert Cancelled (set (pr_futures (w_replies (sv_world s))))"
    by (auto simp: finish_wait_def pr_unregister_def split: future.splits dest!: set_update_subset_insert [THEN subsetD])
  with rest_step.finish [of i "waits (sv_flights s) (sv_world s)" resp p] i f r
  show "rest_step (waits (sv_flights s) (sv_world s))
        \<lparr>st_replies = p, st_flights = (sv_flights s)[i := (sv_flights s ! i)\<lparr>fl_response := Some r\<rparr>]\<rparr>
      \<and> set (pr_futures p) \<subseteq> insert Cancelled (set (pr_futures (w_replies (sv_world s))))"
    by (simp add: waits_def)
qed

lemma wait_cancelled_ok:
  "service_good keeps good durable s \<Longrightarrow>
   service_good keeps good durable (end_flight wait_cancelled i s)"
proof (erule end_flight_ok)
  fix r p
  assume i: "i < length (sv_flights s)" "fl_response (sv_flights s ! i) = None"
    and o: "wait_cancelled (sv_flights s ! i) (w_replies (sv_world s)) = (r, p)"
  then have r: "r = Inl CancelledErr"
    and p: "p = cancel_wait (fl_event_id (sv_flights s ! i)) (fl_future (sv_flights s ! i)) (w_replies (sv_world s))"
    by (auto simp: wait_cancelled_def)
  from p have "set (pr_futures p) \<subseteq> insert Cancelled (set (pr_futures (w_replies (sv_world s))))"
    by (auto simp: cancel_wait_def pr_unregister_def split: if_splits dest!: set_update_subset_insert [THEN subsetD])
  with rest_step.cancel [of i "waits (sv_flights s) (sv_world s)" p] i p r
  show "rest_step (waits (sv_flights s) (sv_world s))
        \<lparr>st_replies = p, st_flights = (sv_flights s)[i := (sv_flights s ! i)\<lparr>fl_response := Some r\<rparr>]\<rparr>
      \<and> set (pr_futures p) \<subseteq> insert Cancelled (set (pr_futures (w_replies (sv_world s))))"
    by (simp add: waits_def)
qed

lemma run_service_ok:
  assumes "keeps client"
  shows "service_good keeps good durable (run_service B settings durable turns client)"
proof -
  have turn: "service_good keeps good durable s \<Longrightarrow>
      service_good keeps good durable (service_turn B settings durable t s)" for s t
    by (cases t) (simp_all add: take_order_ok go_on_ok watcher_pass_ok wait_over_ok wait_cancelled_ok)
  have "service_good keeps good durable s \<Longrightarrow>
      service_good keeps good durable (fold (service_turn B settings durable) turns s)" for s
    by (induction turns arbitrary: s) (simp_all add: turn)
  then show ?thesis
    using service_init_ok [where keeps = keeps and good = good and durable = durable, OF assms]
    by (simp add: run_service_def service_init_def)
qed

text \<open>What an answer to a waiting request can be.\<close>

lemma answer_traced:
  assumes "keeps client" and "s = run_service B settings durable turns client"
    and "i < length (sv_flights s)" and "fl_response (sv_flights s ! i) = Some (Inr r)"
  shows "\<exists>call. sv_waiting s ! i = (call, fl_event_id (sv_flights s ! i))
    \<and> order_published (call, fl_event_id (sv_flights s ! i)) (w_calls (sv_world s))
    \<and> (r = timeout_response (fl_event_id (sv_flights s ! i))
       \<or> (\<exists>ev \<in> fetched_events durable (w_calls (sv_world s)). good ev
            \<and> correlation_id (details ev) = Some (fl_event_id (sv_flights s ! i)) \<and> r = \<lparr>rs_status = 200, rs_body = re_payload ev\<rparr>))"
proof -
  have ok: "service_good keeps good durable s"
    using run_service_ok [OF assms(1)] assms(2) by simp
  have eq: "map snd (sv_waiting s) = map fl_event_id (sv_flights s)"
    unfolding assms(2) by (rule run_service_waiting)
  then have len: "i < length (sv_waiting s)" using assms(3) by (metis length_map)
  with eq assms(3) have id: "snd (sv_waiting s ! i) = fl_event_id (sv_flights s ! i)" by (metis nth_map)
  then obtain call where call: "sv_waiting s ! i = (call, fl_event_id (sv_flights s ! i))" by (metis prod.collapse)
  have "(call, fl_event_id (sv_flights s ! i)) \<in> event_ids s"
    using nth_mem [OF len] unfolding call by (simp add: event_ids_def)
  then have pub: "order_published (call, fl_event_id (sv_flights s ! i)) (w_calls (sv_world s))"
    using ok by (simp add: service_ok_def)
  have "rest_reachable (waits (sv_flights s) (sv_world s))" using ok by (simp add: service_ok_def)
  from reply_correlates [OF this _ assms(4)] assms(3) ok call pub show ?thesis
    by (auto simp: service_ok_def waits_def)
qed

text \<open>What is left of a registration once every wait is over.\<close>

lemma over_unregistered:
  assumes "keeps client" and "s = run_service B settings durable turns client"
    and "list_all (\<lambda>fl. fl_response fl \<noteq> None) (sv_flights s)"
  shows "pr_pending (w_replies (sv_world s)) = []"
proof -
  have "rest_reachable (waits (sv_flights s) (sv_world s))"
    using run_service_ok [OF assms(1)] assms(2) by (simp add: service_ok_def)
  from over_leaves_nothing [OF this] assms(3) show ?thesis by (simp add: waits_def)
qed

end

text \<open>Any client, of which nothing is known; and the client of \<open>bus_client.py\<close>, which keeps its keys
  and hands out only what it has decrypted with them and verified.\<close>

interpretation any_client: event_source B "\<lambda>_. True" "\<lambda>_. True" for B
  by unfold_locales simp_all

definition authentic :: "('n, 'i, 'r, 'k) bus_env \<Rightarrow> encryption_key_pair \<Rightarrow> received_event \<Rightarrow> bool" where
  "authentic V kp ev \<longleftrightarrow> (\<exists>b. bc_encryption_keypair b = kp \<and> accepted V b ev)"

lemma fetch_authentic:
  assumes "fetch V durable batch b = (Inr evs, b')" and "ev \<in> set evs"
  shows "authentic V (bc_encryption_keypair b) ev"
  using fetch_hands_out [OF assms(1)] assms(2) unfolding authentic_def by auto

interpretation real_client: event_source "client_bus V" "\<lambda>b. bc_encryption_keypair b = kp" "authentic V kp" for V kp
  by unfold_locales
     (use keeps_keys_publish keeps_keys_ack keeps_keys_fetch fetch_authentic
      in \<open>fastforce simp: client_bus_def keeps_keys_def\<close>)+

text \<open>
  While the watcher is alive, every reply that was fetched has been settled, in order; when it has
  died, what is left unsettled is a suffix of what was fetched.
\<close>

definition replies_accounted :: "'c rest_service \<Rightarrow> bool" where
  "replies_accounted s \<longleftrightarrow> (\<exists>rest. fetched (w_calls (sv_world s)) = settled (w_calls (sv_world s)) @ rest
     \<and> (sv_watcher s = None \<longrightarrow> rest = []))"

lemma watcher_pass_settles:
  assumes "replies_accounted s" shows "replies_accounted (watcher_pass B durable s)"
proof (cases "sv_watcher s")
  case None
  with assms have eq: "settled (w_calls (sv_world s)) = fetched (w_calls (sv_world s))"
    by (auto simp: replies_accounted_def)
  obtain r w where r: "run_command_loop B (reply_handle B) durable REPLY_BATCH [False] (sv_world s) = (r, w)" by fastforce
  show ?thesis
  proof (cases "r = None \<or> r = Some (Inr ())")
    case True
    from reply_cmd.loop_settles [OF r eq True] True r None show ?thesis
      by (auto simp: watcher_pass_def run_reply_watcher_def replies_accounted_def)
  next
    case False
    then obtain e where e: "r = Some (Inl e)" by (cases r; cases "the r") auto
    from reply_cmd.loop_raised [OF r [unfolded e] eq] r e None show ?thesis
      by (auto simp: watcher_pass_def run_reply_watcher_def replies_accounted_def)
  qed
qed (use assms in \<open>simp add: watcher_pass_def\<close>)

lemma order_settles:
  "settled (w_calls (sv_world (take_order B call s))) = settled (w_calls (sv_world s))"
  "fetched (w_calls (sv_world (take_order B call s))) = fetched (w_calls (sv_world s))"
  "w_calls (sv_world (go_on settings i s)) = w_calls (sv_world s)"
  by (auto simp: take_order_def go_on_def create_order_defs seq_def lift_res_def ret_def b_publish_def via_def Let_def
      split: sum.splits prod.splits if_splits)

lemma service_turn_settles: "replies_accounted s \<Longrightarrow> replies_accounted (service_turn B settings durable t s)"
proof (cases t)
  case (OrderTurn call)
  have "sv_watcher (take_order B call s) = sv_watcher s"
    by (auto simp: take_order_def split: prod.splits sum.splits)
  then show "replies_accounted s \<Longrightarrow> ?thesis" using OrderTurn by (simp add: replies_accounted_def order_settles)
next
  case (GoesOn i)
  have "sv_watcher (go_on settings i s) = sv_watcher s"
    by (auto simp: go_on_def Let_def split: prod.splits sum.splits)
  then show "replies_accounted s \<Longrightarrow> ?thesis" using GoesOn by (simp add: replies_accounted_def order_settles)
next
  case WatcherTurn
  then show "replies_accounted s \<Longrightarrow> ?thesis" by (simp add: watcher_pass_settles)
qed (auto simp: end_flight_def replies_accounted_def split: prod.splits)

lemma run_service_accounted: "replies_accounted (run_service B settings durable turns client)"
proof -
  have "replies_accounted s \<Longrightarrow> replies_accounted (fold (service_turn B settings durable) turns s)" for s
    by (induction turns arbitrary: s) (simp_all add: service_turn_settles)
  moreover have "replies_accounted (service_init client)" by (simp add: replies_accounted_def service_init_def)
  ultimately show ?thesis by (simp add: run_service_def)
qed

lemma run_service_settles:
  assumes "sv_watcher (run_service B settings durable turns client) = None"
  shows "settled (w_calls (sv_world (run_service B settings durable turns client)))
    = fetched (w_calls (sv_world (run_service B settings durable turns client)))"
  using run_service_accounted [of B settings durable turns client] assms by (auto simp: replies_accounted_def)

end
