(* ===== verification/Mains.thy ===== *)
theory Mains
  imports Entrypoints Rest_Service
begin

text \<open>
  The processes: \<open>main()\<close> of the six adapters. The four polling adapters load their settings,
  connect a client, run their loops over it until the shutdown and close the client on every way
  out; the two HTTP services load theirs and hand an application to \<open>uvicorn\<close>, whose lifespan
  connects and closes. Here the adapters' handlers meet the bus client they run over: the bus is
  \<open>client_bus\<close>. A relative watched directory is resolved against the working directory, an argument.
  The last section says what any run of the six leaves settled.
\<close>

section \<open>Connect, run, close\<close>

text \<open>
  The outcome, and where the process got: \<open>Inl\<close> the state of the server when no client was
  connected, \<open>Inr\<close> the world with the closed client.
\<close>

definition adapter_main ::
  "('n, 'i, 'r, 'k) bus_env \<Rightarrow> adapter_settings \<Rightarrow> pystr \<Rightarrow> bytes res \<Rightarrow> nat
   \<Rightarrow> ('n bus_client \<Rightarrow> ('n bus_client, 'z) world_scheme) \<Rightarrow> (('n bus_client, 'z) world_scheme, unit) comp
   \<Rightarrow> 'n \<Rightarrow> unit res \<times> ('n + ('n bus_client, 'z) world_scheme)" where
  "adapter_main V settings adapter_type creds entropy start_world run n =
     (case connect_as_adapter V settings adapter_type creds entropy n of
        (Inl e, n') \<Rightarrow> (Inl e, Inl n')
      | (Inr client, n') \<Rightarrow>
        (case run (start_world client) of (r, w) \<Rightarrow>
          (case close V (w_client w) of (r', client') \<Rightarrow>
            (case r' of Inl e \<Rightarrow> Inl e | Inr _ \<Rightarrow> r, Inr (w\<lparr>w_client := client'\<rparr>)))))"

definition FILE_STORAGE_ADAPTER_TYPE :: pystr where "FILE_STORAGE_ADAPTER_TYPE = py ''file-storage-adapter''"
definition DB_ADAPTER_TYPE :: pystr where "DB_ADAPTER_TYPE = py ''database-adapter-mysql''"
definition HTTP_ADAPTER_TYPE :: pystr where "HTTP_ADAPTER_TYPE = py ''http-adapter''"
definition WEBHOOK_SENDER_TYPE :: pystr where "WEBHOOK_SENDER_TYPE = py ''webhook-sender''"

text \<open>A path as the process sees it: one that is not absolute starts at its working directory.\<close>

definition in_cwd :: "path \<Rightarrow> pystr \<Rightarrow> path" where
  "in_cwd cwd s = (if is_abs s then path_parts s else cwd @ path_parts s)"

definition file_storage_main ::
  "('n, 'i, 'r, 'k) bus_env \<Rightarrow> host \<Rightarrow> path \<Rightarrow> file_storage_settings res \<Rightarrow> bytes res \<Rightarrow> nat \<Rightarrow> filesystem \<Rightarrow> file_turn list
   \<Rightarrow> 'n \<Rightarrow> unit res \<times> ('n + 'n bus_client fs_world)" where
  "file_storage_main V H cwd loaded creds entropy fs turns n =
     (case loaded of
        Inl e \<Rightarrow> (Inl e, Inl n)
      | Inr settings \<Rightarrow>
        adapter_main V (adapter_settings.truncate settings) FILE_STORAGE_ADAPTER_TYPE creds entropy
          (\<lambda>client. \<lparr>w_client = client, w_calls = [], w_tick = 0, w_fs = fs, w_recent = recent_writes_init DEFAULT_TTL\<rparr>)
          (run_file_storage (client_bus V) H (in_cwd cwd (cfg_watch_dir settings)) (cfg_service_id settings) turns) n)"

definition db_adapter_main ::
  "('n, 'i, 'r, 'k) bus_env \<Rightarrow> host \<Rightarrow> db_adapter_settings res \<Rightarrow> bytes res \<Rightarrow> nat \<Rightarrow> (pystr \<Rightarrow> 'd engine) \<Rightarrow> 'd
   \<Rightarrow> db_turn list \<Rightarrow> 'n \<Rightarrow> unit res \<times> ('n + ('n bus_client, 'd) db_world)" where
  "db_adapter_main V H loaded creds entropy create_engine db turns n =
     (case loaded of
        Inl e \<Rightarrow> (Inl e, Inl n)
      | Inr settings \<Rightarrow>
        adapter_main V (adapter_settings.truncate settings) DB_ADAPTER_TYPE creds entropy
          (\<lambda>client. \<lparr>w_client = client, w_calls = [], w_tick = 0, w_db = db\<rparr>)
          (run_db_adapter (client_bus V) H create_engine settings turns) n)"

definition http_adapter_main ::
  "('n, 'i, 'r, 'k) bus_env \<Rightarrow> host \<Rightarrow> 'h http_client \<Rightarrow> http_adapter_settings res \<Rightarrow> bytes res \<Rightarrow> nat \<Rightarrow> 'h
   \<Rightarrow> (nat \<Rightarrow> nat list) \<Rightarrow> 'n \<Rightarrow> unit res \<times> ('n + ('n bus_client, 'h) http_world)" where
  "http_adapter_main V H C loaded creds entropy http turns n =
     (case loaded of
        Inl e \<Rightarrow> (Inl e, Inl n)
      | Inr settings \<Rightarrow>
        adapter_main V (adapter_settings.truncate settings) HTTP_ADAPTER_TYPE creds entropy
          (\<lambda>client. \<lparr>w_client = client, w_calls = [], w_tick = 0, w_http = http, w_posts = []\<rparr>)
          (run_http_adapter (client_bus V) H C settings turns) n)"

definition webhook_sender_main ::
  "('n, 'i, 'r, 'k) bus_env \<Rightarrow> 'h http_client \<Rightarrow> webhook_sender_settings res \<Rightarrow> bytes res \<Rightarrow> nat \<Rightarrow> 'h
   \<Rightarrow> (nat \<Rightarrow> nat list) \<Rightarrow> 'n \<Rightarrow> unit res \<times> ('n + ('n bus_client, 'h) http_world)" where
  "webhook_sender_main V C loaded creds entropy http turns n =
     (case loaded of
        Inl e \<Rightarrow> (Inl e, Inl n)
      | Inr settings \<Rightarrow>
        adapter_main V (adapter_settings.truncate settings) WEBHOOK_SENDER_TYPE creds entropy
          (\<lambda>client. \<lparr>w_client = client, w_calls = [], w_tick = 0, w_http = http, w_posts = []\<rparr>)
          (run_webhook_sender (client_bus V) C settings turns) n)"

section \<open>The HTTP services\<close>

text \<open>
  \<open>uvicorn\<close> enters the lifespan of the application, brings in the requests until it is told to
  shut down, and leaves the lifespan: it is the list of the requests, or of the turns that they
  and the reply watcher take. The result is what became of the requests.
\<close>

definition listener_main ::
  "('n, 'i, 'r, 'k) bus_env \<Rightarrow> webhook_listener_settings res \<Rightarrow> bytes res \<Rightarrow> nat \<Rightarrow> (pystr \<times> webhook_request) list
   \<Rightarrow> ('n, response res list \<times> bus_call list) comp" where
  "listener_main V loaded creds entropy requests n =
     (case loaded of
        Inl e \<Rightarrow> (Inl e, n)
      | Inr settings \<Rightarrow>
        listener_lifespan V (adapter_settings.truncate settings) creds entropy None
          (\<lambda>client. case serve_webhooks (client_bus V) settings requests \<lparr>w_client = client, w_calls = [], w_tick = 0\<rparr> of
             (answers, w) \<Rightarrow> (Inr (answers, w_calls w), w_client w)) n)"

definition rest_main ::
  "('n, 'i, 'r, 'k) bus_env \<Rightarrow> rest_api_settings res \<Rightarrow> bytes res \<Rightarrow> nat \<Rightarrow> rest_turn list
   \<Rightarrow> ('n, 'n bus_client rest_service) comp" where
  "rest_main V loaded creds entropy turns n =
     (case loaded of
        Inl e \<Rightarrow> (Inl e, n)
      | Inr settings \<Rightarrow>
        rest_lifespan V (adapter_settings.truncate settings) creds entropy None
          (\<lambda>client. let s = run_service (client_bus V) settings (reply_durable (cfg_service_id settings)) turns client
             in ((Inr s, sv_watcher s), w_client (sv_world s))) n)"

text \<open>
  A listener that ends well has answered every request and has published the write requests of
  the authorised ones, in their order, and nothing else.
\<close>

lemma listener_main_publishes:
  assumes "listener_main V (Inr settings) creds entropy requests n = (Inr (answers, calls), n')"
  shows "length answers = length requests \<and> publish_calls calls =
     concat (map (\<lambda>(path, request). case authorised_body settings path request of
        None \<Rightarrow> [] | Some body \<Rightarrow> [webhook_args path body (wq_idempotency_key request)]) requests)"
proof -
  from assms obtain client w where
    "serve_webhooks (client_bus V) settings requests \<lparr>w_client = client, w_calls = [], w_tick = 0\<rparr> = (answers, w)"
    and "calls = w_calls w"
    by (auto simp: listener_main_def listener_lifespan_def split: prod.splits sum.splits)
  with serve_webhooks_publishes [OF this(1)] show ?thesis by simp
qed

text \<open>
  A REST service that ends well: its watcher was alive to the end, or cancelled from within, and
  while it was alive every reply it fetched was acknowledged. The answers are those of
  \<open>run_service\<close>, of which \<open>Rest_Service\<close> says more.
\<close>

lemma rest_main_ends:
  assumes "rest_main V (Inr settings) creds entropy turns n = (Inr s, n')"
  shows "(\<exists>client. s = run_service (client_bus V) settings (reply_durable (cfg_service_id settings)) turns client)
    \<and> sv_watcher s \<in> {None, Some CancelledErr}
    \<and> (sv_watcher s = None \<longrightarrow> settled (w_calls (sv_world s)) = fetched (w_calls (sv_world s)))"
proof -
  from assms obtain client where s: "s = run_service (client_bus V) settings (reply_durable (cfg_service_id settings)) turns client"
    and "sv_watcher s \<in> {None, Some CancelledErr}"
    by (auto simp: rest_main_def rest_lifespan_def Let_def split: prod.splits sum.splits option.splits if_splits)
  with run_service_settles [of "client_bus V" settings "reply_durable (cfg_service_id settings)" turns client]
  show ?thesis by auto
qed

section \<open>A process that ends well leaves nothing behind\<close>

lemma close_cancels: "map hb_cancelled (bc_background_tasks (snd (close V b))) = replicate (length (bc_background_tasks b)) True"
proof -
  have c: "map (hb_cancelled \<circ> hb_cancelled_update (\<lambda>_. True)) ts = replicate (length ts) True" for ts
    by (induction ts) simp_all
  show ?thesis by (auto simp: close_def Let_def on_nats_def c split: prod.splits sum.splits)
qed

text \<open>\<open>left_clean w\<close>: everything fetched is settled, and no heartbeat goes on.\<close>

definition left_clean :: "('n bus_client, 'z) world_scheme \<Rightarrow> bool" where
  "left_clean w \<longleftrightarrow> fetched (w_calls w) = settled (w_calls w)
     \<and> list_all hb_cancelled (bc_background_tasks (w_client w))"

lemma adapter_main_clean:
  assumes "adapter_main V settings adapter_type creds entropy start_world run n = (Inr (), Inr w)"
    and "accounted run" and "\<And>client. w_calls (start_world client) = []"
  shows "left_clean w"
proof -
  from assms(1) obtain client n' r1 w1 where run: "run (start_world client) = (r1, w1)"
    and w: "w = w1\<lparr>w_client := snd (close V (w_client w1))\<rparr>" and r: "r1 = Inr ()"
    by (auto simp: adapter_main_def split: prod.splits sum.splits)
  have "fetched (w_calls w1) = settled (w_calls w1)"
    using assms(2) run r unfolding accounted_def by (fastforce simp: assms(3))
  moreover have "list_all hb_cancelled (bc_background_tasks (w_client w))"
  proof -
    have "list_all (\<lambda>b. b) (map hb_cancelled (bc_background_tasks (w_client w)))"
      by (simp add: w close_cancels list_all_iff)
    then show ?thesis by (simp add: list.pred_map o_def)
  qed
  ultimately show ?thesis by (simp add: left_clean_def w)
qed

lemma mains_clean:
  "file_storage_main V H cwd fs_settings creds entropy fs file_turns n = (Inr (), Inr w1) \<Longrightarrow> left_clean w1"
  "db_adapter_main V H db_settings creds entropy create_engine db db_turns n = (Inr (), Inr w2) \<Longrightarrow> left_clean w2"
  "http_adapter_main V H C http_settings creds entropy h turns n = (Inr (), Inr w3) \<Longrightarrow> left_clean w3"
  "webhook_sender_main V C sender_settings creds entropy h turns n = (Inr (), Inr w4) \<Longrightarrow> left_clean w4"
  unfolding file_storage_main_def db_adapter_main_def http_adapter_main_def webhook_sender_main_def
  by (auto split: sum.splits intro!: adapter_main_clean
      simp: accounted_file_run accounted_db_run accounted_http_run accounted_sender_run)

section \<open>Property\<close>

lemma serve_webhooks_fetches_nothing:
  "fetched (w_calls (snd (serve_webhooks B settings requests w))) = fetched (w_calls w)"
proof (induction B settings requests w rule: serve_webhooks.induct)
  case (2 B settings path request rest w)
  obtain r1 w1 where rw: "receive_webhook B settings path request w = (r1, w1)" by fastforce
  have "fetched (w_calls w1) = fetched (w_calls w)"
    using rw by (cases rule: receive_webhook_cases) simp_all
  with 2 [OF rw [symmetric]] rw show ?case by (cases "serve_webhooks B settings rest w1") simp
qed simp

text \<open>
  C12: every adapter settles what it fetches. Whatever turns its loops take, when a run of the file
  storage adapter, the database adapter, the HTTP adapter or the webhook sender ends without an
  exception, every message any of its loops fetched has been settled once, in the order of
  fetching, and an exception leaves unsettled only messages after the last settled one; the same
  holds of the REST service at every point, as long as its reply watcher is alive and when it has
  died; and the webhook listener fetches nothing.
\<close>

theorem adapters_account:
  "accounted (run_file_storage B H watch_dir sid file_turns)
   \<and> accounted (run_db_adapter B H create_engine db_settings db_turns)
   \<and> accounted (run_http_adapter B H C http_settings turns)
   \<and> accounted (run_webhook_sender B C sender_settings turns)
   \<and> replies_accounted (run_service B rest_settings durable rest_turns client)
   \<and> fetched (w_calls (snd (serve_webhooks B listener_settings requests w))) = fetched (w_calls w)"
  by (simp add: accounted_file_run accounted_db_run accounted_http_run accounted_sender_run
      run_service_accounted serve_webhooks_fetches_nothing)

definition one_order_bus :: "unit bus" where
  "one_order_bus = calm_bus\<lparr>bus_fetch := (\<lambda>_ _. ret [demo_order])\<rparr>"

definition demo_db_settings :: db_adapter_settings where
  "demo_db_settings = adapter_settings.extend \<lparr>cfg_service_id = py ''db'', cfg_nats_url = [], cfg_nats_creds_path = [],
     cfg_subjects = [], cfg_log_level = INFO\<rparr> (db_adapter_settings.fields [] 3306 [] [] [] [] [])"

theorem adapters_account_witness:
  "let w = snd (run_db_adapter one_order_bus calm_host (\<lambda>_. table_engine) demo_db_settings [db_turn.OrderTurn, db_turn.OrderTurn] demo_db) in
     fetched (w_calls w) = replicate 2 (re_msg demo_order) \<and> settled (w_calls w) = replicate 2 (re_msg demo_order)"
proof -
  obtain r w where run: "run_db_adapter one_order_bus calm_host (\<lambda>_. table_engine) demo_db_settings [db_turn.OrderTurn, db_turn.OrderTurn] demo_db
      = (r, w)" by fastforce
  have f: "fetched (w_calls w) = replicate 2 (re_msg demo_order) \<and> r = Inr ()"
    using run
    by (auto simp: run_db_adapter_def Let_def db_write_start_def db_turn_step_def loop_turn_def run_once_def b_fetch_def b_subscribe_def
        one_order_bus_def db_write_handle_def demo_order_decodes demo_upsert try_else_def lift_res_def publish_reply_def utc_now_def
        b_publish_def b_ack_def via_def calm_bus_def calm_host_def seq_def tick_def ret_def demo_db_def FETCH_BATCH_def eval_nat_numeral)
  have "fetched (w_calls demo_db) = settled (w_calls demo_db)" by (simp add: demo_db_def)
  moreover have "accounted (run_db_adapter one_order_bus calm_host (\<lambda>_. table_engine) demo_db_settings [db_turn.OrderTurn, db_turn.OrderTurn])"
    by (rule adapters_account [THEN conjunct2, THEN conjunct1])
  ultimately have "\<exists>rest. fetched (w_calls w) = settled (w_calls w) @ rest \<and> (\<not> isl r \<longrightarrow> rest = [])"
    using run unfolding accounted_def by blast
  with f run show ?thesis by simp
qed

end
