(* ===== verification/Rest_Replies.thy ===== *)
theory Rest_Replies
  imports Rest_Service
begin

text \<open>
  What the running REST service guarantees its callers: an answer is the timeout or a reply to the
  caller's own order, no registration is left behind, and a reply that was fetched for a
  registered request reaches it. The closed instances run the service over the server in memory.
\<close>

section \<open>A reply that was fetched is not lost\<close>

definition holds_reply :: "nat \<Rightarrow> pending_replies \<Rightarrow> bool" where
  "holds_reply f p \<longleftrightarrow> f < length (pr_futures p) \<and> (\<exists>ev. pr_futures p ! f = Done ev)"

lemma nth_update_cases: "xs[g := v] ! f = xs ! f \<or> xs[g := v] ! f = v \<and> xs ! f = xs ! g"
  by (cases "g = f"; cases "f < length xs") (simp_all add: list_update_beyond)

lemma nth_update_other: "xs ! f \<noteq> xs ! g \<Longrightarrow> xs[g := v] ! f = xs ! f"
  using nth_update_cases by fastforce

lemma resolve_keeps:
  assumes "pr_resolve ev p = (found, q)"
  shows "pr_pending q = pr_pending p" and "length (pr_futures q) = length (pr_futures p)"
    and "holds_reply f p \<Longrightarrow> holds_reply f q"
    and "pr_futures p ! f \<noteq> Cancelled \<Longrightarrow> pr_futures q ! f \<noteq> Cancelled"
proof -
  show "pr_pending q = pr_pending p" and "length (pr_futures q) = length (pr_futures p)"
    using assms by (auto simp: pr_resolve_def split: option.splits if_splits)
  show "holds_reply f p \<Longrightarrow> holds_reply f q"
    using assms by (auto simp: pr_resolve_def holds_reply_def nth_update_other split: option.splits if_splits)
  have "pr_futures q ! f = pr_futures p ! f \<or> pr_futures q ! f = Done ev"
    using assms nth_update_cases by (fastforce simp: pr_resolve_def split: option.splits if_splits)
  then show "pr_futures p ! f \<noteq> Cancelled \<Longrightarrow> pr_futures q ! f \<noteq> Cancelled" by auto
qed

lemma resolve_hits:
  assumes "pr_resolve ev p = (found, q)" and "correlation_id (details ev) = Some c" and "dict_get (pr_pending p) c = Some f"
    and "f < length (pr_futures p)" and "pr_futures p ! f \<noteq> Cancelled"
  shows "holds_reply f q"
  using assms by (cases "pr_futures p ! f") (auto simp: pr_resolve_def holds_reply_def)

lemma handled_hits:
  assumes acks: "\<forall>m c. fst (bus_ack B m c) = Inr ()"
  shows "for_each (reply_handle B) evs w = (r, w') \<Longrightarrow> f < length (pr_futures (w_replies w)) \<Longrightarrow>
    holds_reply f (w_replies w)
    \<or> (pr_futures (w_replies w) ! f \<noteq> Cancelled \<and> dict_get (pr_pending (w_replies w)) c = Some f
        \<and> (\<exists>ev \<in> set evs. correlation_id (details ev) = Some c)) \<Longrightarrow>
    holds_reply f (w_replies w')"
proof (induction evs arbitrary: w)
  case (Cons ev evs)
  obtain found q where res: "pr_resolve ev (w_replies w) = (found, q)" by fastforce
  obtain r2 w2 where a: "b_ack B ev (w\<lparr>w_replies := q\<rparr>) = (r2, w2)" by fastforce
  have w2: "w_replies w2 = q" "r2 = Inr ()"
    using a acks by (auto simp: b_ack_def via_def split: prod.splits) (metis fst_conv)
  have "reply_handle B ev w = (r2, w2)" using res a by (simp add: reply_handle_def seq_def resolve_reply_def)
  with Cons.prems(1) w2 have rest: "for_each (reply_handle B) evs w2 = (r, w')" by simp
  show ?case
  proof (rule Cons.IH [OF rest])
    show "f < length (pr_futures (w_replies w2))" using Cons.prems(2) resolve_keeps(2) [OF res] w2 by simp
    show "holds_reply f (w_replies w2) \<or> (pr_futures (w_replies w2) ! f \<noteq> Cancelled
        \<and> dict_get (pr_pending (w_replies w2)) c = Some f \<and> (\<exists>ev \<in> set evs. correlation_id (details ev) = Some c))"
      using Cons.prems(2,3) resolve_keeps [OF res] resolve_hits [OF res] w2 by auto
  qed
qed auto

text \<open>A reply that a future holds stays there, whatever turn is next.\<close>

lemma end_flight_holds:
  assumes "over \<in> {wait_over, wait_cancelled}" and "holds_reply f (w_replies (sv_world s))"
  shows "holds_reply f (w_replies (sv_world (end_flight over i s)))"
  using assms
  by (auto simp: end_flight_def wait_over_def wait_cancelled_def finish_wait_def cancel_wait_def pr_unregister_def
      holds_reply_def nth_update_other split: future.splits)

lemma for_each_holds:
  "for_each (reply_handle B) evs w = (r, w') \<Longrightarrow> holds_reply f (w_replies w) \<Longrightarrow> holds_reply f (w_replies w')"
proof (induction evs arbitrary: w)
  case (Cons ev evs)
  obtain found q where res: "pr_resolve ev (w_replies w) = (found, q)" by fastforce
  obtain r2 w2 where a: "b_ack B ev (w\<lparr>w_replies := q\<rparr>) = (r2, w2)" by fastforce
  then have "w_replies w2 = q" by (auto simp: b_ack_def via_def split: prod.splits)
  then have "holds_reply f (w_replies w2)" using resolve_keeps(3) [OF res] Cons.prems(2) by simp
  moreover have "reply_handle B ev w = (r2, w2)" using res a by (simp add: reply_handle_def seq_def resolve_reply_def)
  ultimately show ?case using Cons by (cases r2) auto
qed simp

lemma watcher_pass_run:
  assumes "sv_watcher s = None"
  shows "\<exists>r. (r, sv_world (watcher_pass B durable s)) = run_once B (reply_handle B) durable REPLY_BATCH (sv_world s)
    \<and> sv_flights (watcher_pass B durable s) = sv_flights s"
  using assms
  by (cases "run_once B (reply_handle B) durable REPLY_BATCH (sv_world s)")
     (auto simp: watcher_pass_def run_reply_watcher_def split: sum.splits)

lemma b_fetch_replies: "b_fetch B durable n w = (r, w') \<Longrightarrow> w_replies w' = w_replies w"
  by (auto simp: b_fetch_def via_def split: prod.splits)

lemma service_turn_holds:
  assumes "holds_reply f (w_replies (sv_world s))"
  shows "holds_reply f (w_replies (sv_world (service_turn B settings durable t s)))"
proof (cases t)
  case (OrderTurn call)
  with assms show ?thesis
    by (auto simp: take_order_def publish_order_def seq_def lift_res_def b_publish_def via_def split: sum.splits prod.splits)
next
  case (GoesOn i)
  with assms show ?thesis
    by (auto simp: go_on_def answer_or_wait_def ret_def pr_register_def Let_def holds_reply_def nth_append
        split: sum.splits prod.splits if_splits)
next
  case WatcherTurn
  show ?thesis
  proof (cases "sv_watcher s")
    case None
    from watcher_pass_run [OF this] obtain r where
      r: "run_once B (reply_handle B) durable REPLY_BATCH (sv_world s) = (r, sv_world (watcher_pass B durable s))" by metis
    obtain r1 w1 where f: "b_fetch B durable REPLY_BATCH (sv_world s) = (r1, w1)" by fastforce
    have w1: "holds_reply f (w_replies w1)" using b_fetch_replies [OF f] assms by simp
    show ?thesis
    proof (cases r1)
      case (Inl e)
      with r f w1 WatcherTurn show ?thesis by (auto simp: run_once_def seq_def)
    next
      case (Inr evs)
      obtain r2 w2 where h: "for_each (reply_handle B) evs w1 = (r2, w2)" by fastforce
      with r f Inr have "sv_world (watcher_pass B durable s) = w2" by (auto simp: run_once_def seq_def ret_def split: sum.splits)
      with for_each_holds [OF h w1] WatcherTurn show ?thesis by simp
    qed
  next
    case (Some e)
    with assms WatcherTurn show ?thesis by (simp add: watcher_pass_def)
  qed
qed (use assms end_flight_holds in auto)

text \<open>A waiting request stays as it is until its own wait ends.\<close>

lemma service_turn_waits:
  assumes "i < length (sv_flights s)" and "t \<noteq> WaitOver i" and "t \<noteq> WaitCancelled i"
  shows "i < length (sv_flights (service_turn B settings durable t s))
    \<and> sv_flights (service_turn B settings durable t s) ! i = sv_flights s ! i"
  using assms
  by (cases t) (auto simp: take_order_def go_on_def watcher_pass_def end_flight_def Let_def nth_append
      split: prod.splits sum.splits option.splits)

lemma fold_turns_wait:
  "holds_reply f (w_replies (sv_world s)) \<Longrightarrow> i < length (sv_flights s) \<Longrightarrow>
   WaitOver i \<notin> set turns \<Longrightarrow> WaitCancelled i \<notin> set turns \<Longrightarrow>
   holds_reply f (w_replies (sv_world (fold (service_turn B settings durable) turns s)))
   \<and> i < length (sv_flights (fold (service_turn B settings durable) turns s))
   \<and> sv_flights (fold (service_turn B settings durable) turns s) ! i = sv_flights s ! i"
proof (induction turns arbitrary: s)
  case (Cons t turns)
  let ?s = "service_turn B settings durable t s"
  have w: "i < length (sv_flights ?s)" "sv_flights ?s ! i = sv_flights s ! i"
    using service_turn_waits [OF Cons.prems(2), of t B settings durable] Cons.prems(3,4) by auto
  with Cons.IH [OF service_turn_holds [OF Cons.prems(1)] w(1)] Cons.prems(3,4) show ?case by simp
qed simp

lemma watcher_pass_hits:
  assumes "sv_watcher s = None" and "bus_fetch B durable REPLY_BATCH (w_client (sv_world s)) = (Inr evs, c)"
    and "ev \<in> set evs" and "correlation_id (details ev) = Some eid" and "\<forall>m c. fst (bus_ack B m c) = Inr ()"
    and "dict_get (pr_pending (w_replies (sv_world s))) eid = Some f" and "f < length (pr_futures (w_replies (sv_world s)))"
    and "pr_futures (w_replies (sv_world s)) ! f \<noteq> Cancelled"
  shows "holds_reply f (w_replies (sv_world (watcher_pass B durable s)))
    \<and> sv_flights (watcher_pass B durable s) = sv_flights s"
proof -
  from watcher_pass_run [OF assms(1)] obtain r where
    r: "run_once B (reply_handle B) durable REPLY_BATCH (sv_world s) = (r, sv_world (watcher_pass B durable s))"
    and fl: "sv_flights (watcher_pass B durable s) = sv_flights s" by metis
  obtain w1 where f: "b_fetch B durable REPLY_BATCH (sv_world s) = (Inr evs, w1)"
    using assms(2) by (simp add: b_fetch_def via_def)
  obtain r2 w2 where h: "for_each (reply_handle B) evs w1 = (r2, w2)" by fastforce
  with r f have "sv_world (watcher_pass B durable s) = w2" by (auto simp: run_once_def seq_def ret_def split: sum.splits)
  moreover have "holds_reply f (w_replies w2)"
    by (rule handled_hits [OF assms(5) h, of _ eid]) (use assms b_fetch_replies [OF f] in auto)
  ultimately show ?thesis using fl by simp
qed

section \<open>Properties\<close>

text \<open>
  C14: no registration outlives its request: whatever turns the requests, the watcher and the
  ends of waits take, over any client, once every waiting request is over, by its reply, its
  timeout or its cancellation, \<open>PendingReplies\<close> is empty.
\<close>

theorem no_pending_left:
  assumes "s = run_service B settings durable turns client"
    and "list_all (\<lambda>fl. fl_response fl \<noteq> None) (sv_flights s)"
  shows "pr_pending (w_replies (sv_world s)) = []"
  by (rule any_client.over_unregistered [OF TrueI assms])

definition demo_rest_settings :: rest_api_settings where
  "demo_rest_settings = \<lparr>cfg_service_id = py ''rest'', cfg_nats_url = [], cfg_nats_creds_path = [], cfg_subjects = [],
     cfg_log_level = INFO, cfg_rest_port = 8080, cfg_default_reply_timeout = 30000000\<rparr>"

definition demo_order_call :: order_call where
  "demo_order_call = \<lparr>oc_body = Inr [123, 125], oc_wait = 5000000, oc_idempotency_key = None\<rparr>"

theorem no_pending_left_witness:
  "pr_pending (w_replies (sv_world (run_service calm_bus demo_rest_settings (py ''d'')
     [OrderTurn demo_order_call, GoesOn 0, WatcherTurn, OrderTurn demo_order_call, GoesOn 0, WaitCancelled 1, WaitOver 0] ()))) = []"
  (is "pr_pending (w_replies (sv_world ?s)) = []")
proof (rule no_pending_left [OF refl])
  show "list_all (\<lambda>fl. fl_response fl \<noteq> None) (sv_flights ?s)"
    by (simp add: run_service_def service_init_def take_order_def go_on_def create_order_defs demo_order_call_def seq_def lift_res_def
        ret_def b_publish_def via_def calm_bus_def pr_register_def pending_replies_init_def end_flight_def
        wait_over_def wait_cancelled_def finish_wait_def cancel_wait_def watcher_pass_def run_reply_watcher_def
        run_once_def b_fetch_def pr_unregister_def)
qed

text \<open>
  C13: replies are never mixed up. Whatever turns are taken over a client of the bus, the wait of a
  request is for the event of that request's own order: its body was published with its
  idempotency key, and that publish returned the id the wait is for. The request is answered
  either with its timeout or with the payload of a reply that the watcher fetched, that opened
  under the client's key and verified under the key the directory holds for its sender, and whose
  correlation id is the id of that event.
\<close>

theorem replies_correlate:
  assumes "s = run_service (client_bus V) settings durable turns client"
    and "i < length (sv_flights s)" and "fl_response (sv_flights s ! i) = Some (Inr r)"
  shows "\<exists>call eid. sv_waiting s ! i = (call, eid) \<and> fl_event_id (sv_flights s ! i) = eid
    \<and> order_published (call, eid) (w_calls (sv_world s))
    \<and> (r = timeout_response eid
       \<or> (\<exists>ev \<in> fetched_events durable (w_calls (sv_world s)). authentic V (bc_encryption_keypair client) ev
            \<and> correlation_id (details ev) = Some eid \<and> r = \<lparr>rs_status = 200, rs_body = re_payload ev\<rparr>))"
  using real_client.answer_traced [OF refl assms] by blast

text \<open>An order published over the server in memory, whose event gets the id \<open>0\<close>.\<close>

lemma order_subject_split: "split_on 46 REST_ORDER_CREATED_SUBJECT = [py ''events'', py ''orders'', py ''OrderCreated'']"
  by code_simp

lemma demo_order_sealed:
  assumes "scalar_str version"
  shows "\<exists>ev. seal_event toy_env version (order_args body key) [] 0 (demo_client n) = Inr ev
    \<and> event_id_of ev = nat_str 0 \<and> event_scalar ev"
proof -
  from sign_succeeds [OF demo_keypair] obtain sig where "sign toy_crypto (py ''SU'') body = Inr sig" by blast
  then have "\<exists>ev. seal_event toy_env version (order_args body key) [] 0 (demo_client n) = Inr ev"
    by (simp add: seal_event_def toy_env_def demo_client_def order_args_def)
  then obtain ev where ev: "seal_event toy_env version (order_args body key) [] 0 (demo_client n) = Inr ev" by blast
  from ev have "event_id_of ev = nat_str 0"
    by (rule seal_eventE) (simp add: event_id_of_def made_details_def toy_env_def)
  moreover have "event_scalar ev"
    by (rule seal_event_scalar [OF ev demo_client_scalar(1) _ assms])
       (auto simp: args_scalar_def order_args_def opt_scalar_def)
  ultimately show ?thesis using ev by blast
qed

definition demo_cache :: recipient_cache where
  "demo_cache = (new_cache REST_ORDER_CREATED_SUBJECT)\<lparr>rc_task := Running, rc_ready := True\<rparr>"

definition after_order :: "(pystr \<times> pystr option \<times> bytes) list \<Rightarrow> mem_nats bus_client" where
  "after_order log = (demo_client (demo_nats log))
     \<lparr>bc_tick := 1, bc_recipient_caches := [(REST_ORDER_CREATED_SUBJECT, demo_cache)]\<rparr>"

lemma demo_publish:
  assumes "seq_of_id key (demo_nats log) = None" and "scalar_str version"
  shows "\<exists>ev. event_id_of ev = nat_str 0 \<and> event_scalar ev \<and> publish toy_env version (order_args body key) (demo_client (demo_nats log))
    = (Inr (nat_str 0), after_order (log @ [(REST_ORDER_CREATED_SUBJECT, key, to_wire plain_pydantic ev)]))"
proof -
  let ?b = "demo_client (demo_nats log)"
  let ?b1 = "?b\<lparr>bc_recipient_caches := [(REST_ORDER_CREATED_SUBJECT, demo_cache)]\<rparr>"
  let ?b2 = "?b1\<lparr>bc_tick := 1\<rparr>"
  obtain ev where ev: "seal_event toy_env version (order_args body key) [] 0 ?b2 = Inr ev" "event_id_of ev = nat_str 0"
    "event_scalar ev"
    using demo_order_sealed [OF assms(2), of body key "demo_nats log"] by (auto simp: seal_event_def)
  have "mem_keys BUCKET_NAME (demo_nats log) = []"
    by (simp add: mem_keys_def demo_nats_def BUCKET_NAME_def IDENTITY_BUCKET_NAME_def)
  then have c: "cache_for toy_env REST_ORDER_CREATED_SUBJECT ?b = (Inr demo_cache, ?b1)"
    by (simp add: cache_for_def demo_client_def dict_get_def seq_def on_nats_def watch_def cache_start_def toy_env_def
        mem_js_def new_cache_def ret_def demo_cache_def dict_set_def Let_def)
  have cur: "current demo_cache = []" by (simp add: current_def demo_cache_def new_cache_def dict_values_def dict_empty_def)
  have d: "draw ?b1 = (Inr 0, ?b2)" by (simp add: draw_def demo_client_def)
  have "send_event toy_env (order_args body key) ev ?b2
      = (Inr (nat_str 0), after_order (log @ [(REST_ORDER_CREATED_SUBJECT, key, to_wire plain_pydantic ev)]))"
    using assms(1) ev(2)
    by (simp add: send_event_def seq_def on_nats_def toy_env_def mem_js_def mem_publish_def order_args_def order_subject_split
        mem_append_def ret_def after_order_def demo_client_def demo_nats_def)
  then have "publish toy_env version (order_args body key) ?b
      = (Inr (nat_str 0), after_order (log @ [(REST_ORDER_CREATED_SUBJECT, key, to_wire plain_pydantic ev)]))"
    using c cur d ev(1) by (simp add: publish_def seq_def with_client_def order_args_def [of body key])
  with ev(2,3) show ?thesis by blast
qed

definition demo_reply_args :: publish_args where
  "demo_reply_args = demo_args\<lparr>pa_correlation_id := Some (nat_str 0), pa_msg_id := None\<rparr>"

text \<open>A reply to that event, in the stream under the subject the client has subscribed to.\<close>

lemma demo_reply_fetched:
  "\<exists>rep. \<forall>x. fst x \<noteq> py ''e.x'' \<longrightarrow>
     (\<exists>got c. fetch toy_env (py ''d'') REPLY_BATCH (after_order [(py ''e.x'', None, to_wire plain_pydantic rep), x]) = (Inr [got], c)
        \<and> correlation_id (details got) = Some (nat_str 0) \<and> re_payload got = [104, 105])"
proof -
  from sign_succeeds [OF demo_keypair] obtain sig where
    "sign toy_crypto (py ''SU'') (pa_payload demo_reply_args) = Inr sig" by blast
  moreover have "encrypt_for_recipients toy_crypto 9 p [JStr [263]] = Inr (seal toy_crypto 9 [7] p)" for p
    using seal_succeeds [OF toy_age_ok, of "[7]" 9 p] by (simp add: demo_recipient)
  ultimately obtain rep where rep: "seal_event toy_env (py ''1'') demo_reply_args
      (map (\<lambda>r. JStr (recipient_str (be_lib toy_env) r)) [7]) 9 (demo_client empty_nats) = Inr rep"
    by (auto simp: seal_event_def toy_env_def demo_client_def demo_recipient)
  have args: "args_scalar demo_reply_args"
    by (simp add: demo_reply_args_def demo_args_def args_scalar_def opt_scalar_def)
  let ?m = "\<lparr>msg_subject = py ''e.x'', msg_data = to_wire plain_pydantic rep, msg_num_delivered = 1, msg_token = 0\<rparr>"
  let ?got = "\<lparr>re_event = rep, re_payload = pa_payload demo_reply_args, re_msg = ?m\<rparr>"
  have "\<exists>c. fetch toy_env (py ''d'') REPLY_BATCH (after_order [(py ''e.x'', None, to_wire plain_pydantic rep), x]) = (Inr [?got], c)"
    if x: "fst x \<noteq> py ''e.x''" for x
  proof -
    let ?log = "[(py ''e.x'', None, to_wire plain_pydantic rep), x]"
    let ?n1 = "(demo_nats ?log)\<lparr>mem_subs := [(py ''e.x'', 1)]\<rparr>"
    let ?b = "after_order ?log" and ?b1 = "(after_order ?log)\<lparr>bc_nats := ?n1\<rparr>"
    have "lookup_signing_key mem_js (\<lambda>_. []) (py ''svc'') ?n1 = (Inr (Some demo_public), ?n1)"
      using demo_directory [of "\<lambda>_. []" ?log]
      by (auto simp: lookup_signing_key_def mem_js_def demo_nats_def dict_get_def try_else_def lift_res_def split: sum.splits)
    then have "fst (process_msg toy_env ?m ?b1) = Inr ?got"
      by (intro sealed_processed [OF toy_env_ok demo_keypair_env rep demo_client_scalar(1) args, of _ _ 7 ?n1])
         (simp_all add: after_order_def demo_client_def toy_env_def demo_recipient)
    then obtain b2 where p: "process_msg toy_env ?m ?b1 = (Inr ?got, b2)" by (cases "process_msg toy_env ?m ?b1") simp
    have "on_nats (sub_fetch (be_js toy_env) 0 REPLY_BATCH) ?b = (Inr [?m], ?b1)"
      using x by (simp add: on_nats_def toy_env_def mem_js_def mem_fetch_def after_order_def demo_client_def demo_nats_def
          Let_def REPLY_BATCH_def)
    moreover have "dict_get (bc_subscriptions ?b) (py ''d'') = Some 0" by (simp add: after_order_def demo_client_def dict_get_def)
    ultimately show ?thesis using p by (simp add: fetch_def try_else_def seq_def ret_def)
  qed
  moreover from rep have "correlation_id (details ?got) = Some (nat_str 0)"
    by (rule seal_eventE) (simp add: details_def made_details_def demo_reply_args_def)
  moreover have "re_payload ?got = [104, 105]" by (simp add: demo_reply_args_def demo_args_def)
  ultimately show ?thesis by blast
qed

text \<open>Four turns: the order and its return, the pass of the watcher that fetches its reply, the end of the wait.\<close>

lemma demo_service_run:
  "\<exists>log. (let s = run_service (client_bus toy_env) demo_rest_settings (py ''d'') [OrderTurn demo_order_call, GoesOn 0, WatcherTurn, WaitOver 0]
        (demo_client (demo_nats log)) in
      sv_waiting s = [(demo_order_call, nat_str 0)]
      \<and> sv_flights s = [\<lparr>fl_event_id = nat_str 0, fl_future = 0, fl_response = Some (Inr \<lparr>rs_status = 200, rs_body = [104, 105]\<rparr>)\<rparr>])"
proof -
  from demo_reply_fetched obtain rep where rep: "\<And>x. fst x \<noteq> py ''e.x'' \<Longrightarrow>
     (\<exists>got c. fetch toy_env (py ''d'') REPLY_BATCH (after_order [(py ''e.x'', None, to_wire plain_pydantic rep), x]) = (Inr [got], c)
        \<and> correlation_id (details got) = Some (nat_str 0) \<and> re_payload got = [104, 105])" by blast
  let ?log = "[(py ''e.x'', None, to_wire plain_pydantic rep)]"
  have "seq_of_id None (demo_nats ?log) = None" "scalar_str (py ''1.0.0'')" by (simp_all add: seq_of_id_def)
  from demo_publish [OF this] obtain ev where
    p: "publish toy_env (py ''1.0.0'') (order_args [123, 125] None) (demo_client (demo_nats ?log))
      = (Inr (nat_str 0), after_order (?log @ [(REST_ORDER_CREATED_SUBJECT, None, to_wire plain_pydantic ev)]))" by blast
  let ?c1 = "after_order (?log @ [(REST_ORDER_CREATED_SUBJECT, None, to_wire plain_pydantic ev)])"
  have "fst (REST_ORDER_CREATED_SUBJECT, None :: pystr option, to_wire plain_pydantic ev) \<noteq> py ''e.x''"
    by (simp add: REST_ORDER_CREATED_SUBJECT_def)
  from rep [OF this] obtain got c2 where f: "fetch toy_env (py ''d'') REPLY_BATCH ?c1 = (Inr [got], c2)"
    and got: "correlation_id (details got) = Some (nat_str 0)" "re_payload got = [104, 105]" by auto
  let ?s = "run_service (client_bus toy_env) demo_rest_settings (py ''d'') [OrderTurn demo_order_call, GoesOn 0, WatcherTurn, WaitOver 0]
        (demo_client (demo_nats ?log))"
  have o: "service_turn (client_bus toy_env) demo_rest_settings (py ''d'') (GoesOn 0)
        (service_turn (client_bus toy_env) demo_rest_settings (py ''d'') (OrderTurn demo_order_call)
          (service_init (demo_client (demo_nats ?log))))
      = \<lparr>sv_world = \<lparr>w_client = ?c1, w_calls = [Published (order_args [123, 125] None) (Inr (nat_str 0))], w_tick = 0,
          w_replies = \<lparr>pr_pending = dict_set (nat_str 0) 0 dict_empty, pr_futures = [Pending]\<rparr>\<rparr>,
         sv_sent = [], sv_waiting = [(demo_order_call, nat_str 0)], sv_flights = [\<lparr>fl_event_id = nat_str 0, fl_future = 0, fl_response = None\<rparr>], sv_answers = [], sv_watcher = None\<rparr>"
    by (simp add: take_order_def go_on_def create_order_defs demo_order_call_def seq_def lift_res_def b_publish_def via_def
        client_bus_def p service_init_def ret_def pr_register_def pending_replies_init_def)
  have "sv_waiting ?s = [(demo_order_call, nat_str 0)]
      \<and> sv_flights ?s = [\<lparr>fl_event_id = nat_str 0, fl_future = 0, fl_response = Some (Inr \<lparr>rs_status = 200, rs_body = [104, 105]\<rparr>)\<rparr>]"
    using f got
    by (simp add: run_service_def o del: service_turn.simps(1,2))
       (simp add: watcher_pass_def run_reply_watcher_def run_once_def seq_def b_fetch_def via_def client_bus_def
        reply_handle_def resolve_reply_def pr_resolve_def dict_simps b_ack_def ack_def on_nats_def toy_env_def mem_js_def
        ret_def end_flight_def wait_over_def finish_wait_def)
  then show ?thesis by (intro exI [of _ ?log]) (simp add: Let_def)
qed

theorem replies_correlate_witness:
  "\<exists>log ev. let s = run_service (client_bus toy_env) demo_rest_settings (py ''d'')
        [OrderTurn demo_order_call, GoesOn 0, WatcherTurn, WaitOver 0] (demo_client (demo_nats log)) in
     order_published (demo_order_call, nat_str 0) (w_calls (sv_world s))
     \<and> ev \<in> fetched_events (py ''d'') (w_calls (sv_world s))
     \<and> authentic toy_env (bc_encryption_keypair (demo_client (demo_nats log))) ev
     \<and> correlation_id (details ev) = Some (nat_str 0)
     \<and> fl_response (sv_flights s ! 0) = Some (Inr \<lparr>rs_status = 200, rs_body = re_payload ev\<rparr>) \<and> re_payload ev = [104, 105]"
proof -
  from demo_service_run obtain log where
    run: "sv_waiting (run_service (client_bus toy_env) demo_rest_settings (py ''d'')
            [OrderTurn demo_order_call, GoesOn 0, WatcherTurn, WaitOver 0] (demo_client (demo_nats log))) = [(demo_order_call, nat_str 0)]"
      "sv_flights (run_service (client_bus toy_env) demo_rest_settings (py ''d'')
            [OrderTurn demo_order_call, GoesOn 0, WatcherTurn, WaitOver 0] (demo_client (demo_nats log)))
        = [\<lparr>fl_event_id = nat_str 0, fl_future = 0, fl_response = Some (Inr \<lparr>rs_status = 200, rs_body = [104, 105]\<rparr>)\<rparr>]"
    by (auto simp: Let_def)
  from replies_correlate [OF refl, of 0 toy_env demo_rest_settings "py ''d''"
      "[OrderTurn demo_order_call, GoesOn 0, WatcherTurn, WaitOver 0]" "demo_client (demo_nats log)"]
  show ?thesis by (intro exI [of _ log]) (auto simp: run timeout_response_def Let_def)
qed

text \<open>
  C34: a reply is not lost. When a request waits and is the one registered for its event, and the
  living watcher fetches a batch with a reply to that event among others, then the request is
  answered with a reply to its event, however long the batch is and whatever other turns come
  before its wait ends; provided that settling the replies does not fail.
\<close>

theorem registered_reply_answers:
  assumes "s = run_service B settings durable turns client" and "sv_watcher s = None"
    and "i < length (sv_flights s)" and "fl_response (sv_flights s ! i) = None" and "eid = fl_event_id (sv_flights s ! i)"
    and "dict_get (pr_pending (w_replies (sv_world s))) eid = Some (fl_future (sv_flights s ! i))"
    and "bus_fetch B durable REPLY_BATCH (w_client (sv_world s)) = (Inr evs, c)"
    and "ev \<in> set evs" and "correlation_id (details ev) = Some eid"
    and "\<forall>m c. fst (bus_ack B m c) = Inr ()" and "WaitOver i \<notin> set later" and "WaitCancelled i \<notin> set later"
  shows "\<exists>got. correlation_id (details got) = Some eid
    \<and> fl_response (sv_flights (run_service B settings durable (turns @ WatcherTurn # later @ [WaitOver i]) client) ! i)
        = Some (Inr \<lparr>rs_status = 200, rs_body = re_payload got\<rparr>)"
proof -
  let ?f = "fl_future (sv_flights s ! i)" and ?turn = "service_turn B settings durable"
  let ?s2 = "fold ?turn later (watcher_pass B durable s)" and ?all = "turns @ WatcherTurn # later @ [WaitOver i]"
  have reach: "rest_reachable (waits (sv_flights (run_service B settings durable ts client)) (sv_world (run_service B settings durable ts client)))" for ts
    using any_client.run_service_ok [OF TrueI, of durable B settings ts client] by (simp add: service_ok_def)
  have inv: "rest_inv (waits (sv_flights s) (sv_world s))" using rest_reachable_inv [OF reach [of turns]] assms(1) by simp
  have "?f < length (pr_futures (w_replies (sv_world s)))" "pr_futures (w_replies (sv_world s)) ! ?f \<noteq> Cancelled"
    using flight_at [OF inv, of i] assms(3,4) by (auto simp: waits_def flight_ok_def)
  from watcher_pass_hits [OF assms(2,7,8,9,10,6) this]
  have "holds_reply ?f (w_replies (sv_world (watcher_pass B durable s)))" and "sv_flights (watcher_pass B durable s) = sv_flights s"
    by simp_all
  with fold_turns_wait [of ?f "watcher_pass B durable s" i later B settings durable] assms(3,11,12)
  have h: "holds_reply ?f (w_replies (sv_world ?s2))" "i < length (sv_flights ?s2)" "sv_flights ?s2 ! i = sv_flights s ! i"
    by simp_all
  from h(1) obtain got where got: "pr_futures (w_replies (sv_world ?s2)) ! ?f = Done got" by (auto simp: holds_reply_def)
  have run: "run_service B settings durable (turns @ WatcherTurn # later) client = ?s2"
    "run_service B settings durable ?all client = end_flight wait_over i ?s2"
    using assms(1) by (simp_all add: run_service_def)
  have "sv_flights (end_flight wait_over i ?s2) ! i = (sv_flights s ! i)\<lparr>fl_response := Some (Inr \<lparr>rs_status = 200, rs_body = re_payload got\<rparr>)\<rparr>"
    using h got assms(4) by (simp add: end_flight_def wait_over_def finish_wait_def)
  moreover have "correlation_id (details got) = Some eid"
    using flight_at [OF rest_reachable_inv [OF reach [of "turns @ WatcherTurn # later"]], unfolded run, of i] h got assms(5)
    by (simp add: waits_def flight_ok_def)
  ultimately show ?thesis using run(2) by (intro exI [of _ got]) simp
qed

definition demo_reply_bus :: "unit bus" where
  "demo_reply_bus = calm_bus\<lparr>bus_publish := (\<lambda>_. ret (py ''e1'')), bus_fetch := (\<lambda>_ _. ret [plain_event [1], demo_reply])\<rparr>"

theorem registered_reply_answers_witness:
  "\<exists>got. correlation_id (details got) = Some (py ''e1'')
    \<and> fl_response (sv_flights (run_service demo_reply_bus demo_rest_settings (py ''d'')
         ([OrderTurn demo_order_call, GoesOn 0] @ WatcherTurn # [WatcherTurn] @ [WaitOver 0]) ()) ! 0)
        = Some (Inr \<lparr>rs_status = 200, rs_body = re_payload got\<rparr>)"
proof -
  have o: "run_service demo_reply_bus demo_rest_settings (py ''d'') [OrderTurn demo_order_call, GoesOn 0] ()
      = \<lparr>sv_world = \<lparr>w_client = (), w_calls = [Published (order_args [123, 125] None) (Inr (py ''e1''))], w_tick = 0,
          w_replies = \<lparr>pr_pending = dict_set (py ''e1'') 0 dict_empty, pr_futures = [Pending]\<rparr>\<rparr>,
         sv_sent = [], sv_waiting = [(demo_order_call, py ''e1'')], sv_flights = [\<lparr>fl_event_id = py ''e1'', fl_future = 0, fl_response = None\<rparr>], sv_answers = [], sv_watcher = None\<rparr>"
    by (simp add: run_service_def service_init_def take_order_def go_on_def create_order_defs demo_order_call_def seq_def lift_res_def
        ret_def b_publish_def via_def demo_reply_bus_def pr_register_def pending_replies_init_def)
  show ?thesis
    by (rule registered_reply_answers [OF o [symmetric], of 0 "py ''e1''" "[plain_event [1], demo_reply]" "()" demo_reply])
       (simp_all add: dict_simps demo_reply_bus_def calm_bus_def ret_def demo_reply_simps)
qed

text \<open>
  The hypothesis that the request is registered is needed: when the watcher's pass comes between
  the publish and its return, the reply is acknowledged and the request times out.
\<close>

lemma reply_before_registration_lost:
  "(let s = run_service demo_reply_bus demo_rest_settings (py ''d'')
       [OrderTurn demo_order_call, WatcherTurn, GoesOn 0, WaitOver 0] () in
    map fl_response (sv_flights s) = [Some (Inr (timeout_response (py ''e1'')))]
    \<and> settled (w_calls (sv_world s)) = [re_msg (plain_event [1]), re_msg demo_reply])"
proof -
  have "correlation_id (details (plain_event [1])) = None" by (simp add: plain_event_def details_def)
  then show ?thesis
    by (simp add: run_service_def service_init_def take_order_def go_on_def create_order_defs demo_order_call_def seq_def
        lift_res_def ret_def b_publish_def via_def demo_reply_bus_def calm_bus_def pr_register_def pending_replies_init_def
        watcher_pass_def run_reply_watcher_def run_once_def b_fetch_def reply_handle_def resolve_reply_def pr_resolve_def
        b_ack_def end_flight_def wait_over_def finish_wait_def demo_reply_simps dict_simps)
qed

end
