(* ===== verification/Bus_Retry.thy ===== *)
theory Bus_Retry
  imports Rest_Replies
begin

text \<open>
  Retries. A publish with a message id is stored once: JetStream suppresses what comes later with
  the same id, within its window, and \<open>BusClient.publish\<close> then answers with the event that was
  stored. The server's part of this is a locale, interpreted on the server in memory; the rest
  is shown of \<open>publish\<close> and carried up to the route of the REST service.
\<close>

section \<open>The server's suppression of duplicates\<close>

text \<open>
  \<open>kept n mid\<close> is where the event published under \<open>mid\<close> is stored, as long as the server
  remembers the id; \<open>stored n\<close> are the events of its streams; \<open>in_stream\<close> are the subjects of
  events, which the key-value buckets are not.
\<close>

locale duplicate_window =
  fixes J :: "'n jetstream"
    and kept :: "'n \<Rightarrow> pystr \<Rightarrow> (pystr \<times> nat) option"
    and stored :: "'n \<Rightarrow> pystr \<times> nat \<Rightarrow> bytes option"
    and in_stream :: "pystr \<Rightarrow> bool"
  assumes publish_fresh: "in_stream s \<Longrightarrow> kept n mid = None \<Longrightarrow> js_publish J s d (Some mid) None n = (Inr a, n') \<Longrightarrow>
      \<not> ack_duplicate a \<and> kept n' mid = Some (ack_stream a, ack_seq a) \<and> stored n' (ack_stream a, ack_seq a) = Some d"
    and publish_again: "in_stream s \<Longrightarrow> kept n mid = Some p \<Longrightarrow> js_publish J s d (Some mid) None n = (Inr a, n') \<Longrightarrow>
      ack_duplicate a \<and> (ack_stream a, ack_seq a) = p \<and> kept n' = kept n \<and> stored n' = stored n"
    and get_stored: "stored n (st, i) = Some d \<Longrightarrow> js_get_msg J st i n = (r, n') \<Longrightarrow>
      (\<forall>v. r = Inr v \<longrightarrow> v = Some d) \<and> kept n' = kept n \<and> stored n' = stored n"
    and watch_keeps: "kv_watch J bucket pattern n = (ri, n') \<Longrightarrow> kept n' = kept n \<and> stored n' = stored n"
begin

lemma cache_keeps:
  assumes "be_js V = J" and "cache_for V subject b = (r, b')"
  shows "kept (bc_nats b') = kept (bc_nats b) \<and> stored (bc_nats b') = stored (bc_nats b)
    \<and> client_scalar V b' = client_scalar V b"
proof (cases "dict_get (bc_recipient_caches b) subject")
  case (Some c)
  with assms(2) show ?thesis by (simp add: cache_for_def)
next
  case None
  obtain r1 n1 where w: "kv_watch J BUCKET_NAME (subject @ py ''.*'') (bc_nats b) = (r1, n1)" by fastforce
  from watch_keeps [OF w] assms None w show ?thesis
    by (auto simp: cache_for_def on_nats_def seq_def watch_def cache_start_def new_cache_def ret_def raise_def Let_def
        client_scalar_def split: sum.splits if_splits)
qed

lemma publishE:
  assumes "publish V version a b = (Inr i, b')"
  obtains c b0 ev where "cache_for V (pa_subject a) b = (Inr c, b0)"
    "seal_event V version a (current c) (bc_tick b0) (b0\<lparr>bc_tick := Suc (bc_tick b0)\<rparr>) = Inr ev"
    "send_event V a ev (b0\<lparr>bc_tick := Suc (bc_tick b0)\<rparr>) = (Inr i, b')"
  using assms by (auto simp: publish_def seq_def draw_def with_client_def that split: prod.splits sum.splits)

text \<open>The first publish under a message id is stored under it.\<close>

lemma publish_stores:
  assumes "be_js V = J" and "publish V version a b = (Inr i, b')" and "pa_msg_id a = Some mid"
    and "in_stream (pa_subject a)" and "kept (bc_nats b) mid = None"
  shows "\<exists>c b0 ev p. cache_for V (pa_subject a) b = (Inr c, b0)
    \<and> seal_event V version a (current c) (bc_tick b0) (b0\<lparr>bc_tick := Suc (bc_tick b0)\<rparr>) = Inr ev
    \<and> event_id_of ev = i \<and> kept (bc_nats b') mid = Some p \<and> stored (bc_nats b') p = Some (to_wire (be_pydantic V) ev)"
  using assms(2)
proof (rule publishE)
  fix c b0 ev
  assume c: "cache_for V (pa_subject a) b = (Inr c, b0)"
    and ev: "seal_event V version a (current c) (bc_tick b0) (b0\<lparr>bc_tick := Suc (bc_tick b0)\<rparr>) = Inr ev"
    and s: "send_event V a ev (b0\<lparr>bc_tick := Suc (bc_tick b0)\<rparr>) = (Inr i, b')"
  from s assms(1,3) obtain ack n1 where
    p: "js_publish J (pa_subject a) (to_wire (be_pydantic V) ev) (Some mid) None (bc_nats b0) = (Inr ack, n1)"
    by (auto simp: send_event_def seq_def on_nats_def split: prod.splits sum.splits)
  have "kept (bc_nats b0) mid = None" using cache_keeps [OF assms(1) c] assms(5) by simp
  from publish_fresh [OF assms(4) this p]
  have f: "\<not> ack_duplicate ack" "kept n1 mid = Some (ack_stream ack, ack_seq ack)"
    "stored n1 (ack_stream ack, ack_seq ack) = Some (to_wire (be_pydantic V) ev)" by simp_all
  from s p f(1) assms(1,3) have "i = event_id_of ev" "bc_nats b' = n1"
    by (auto simp: send_event_def seq_def on_nats_def ret_def split: prod.splits)
  with c ev f(2,3) show ?thesis by blast
qed

text \<open>A later publish under it stores nothing and answers with the event that is stored.\<close>

lemma publish_suppressed:
  assumes "be_js V = J" and "pydantic_ok (be_pydantic V)" and "publish V version a b = (Inr j, b')"
    and "pa_msg_id a = Some mid" and "in_stream (pa_subject a)" and "kept (bc_nats b) mid = Some p"
    and "stored (bc_nats b) p = Some (to_wire (be_pydantic V) ev0)" and "event_scalar ev0"
  shows "j = event_id_of ev0 \<and> kept (bc_nats b') = kept (bc_nats b) \<and> stored (bc_nats b') = stored (bc_nats b)"
  using assms(3)
proof (rule publishE)
  fix c b0 ev
  assume c: "cache_for V (pa_subject a) b = (Inr c, b0)"
    and s: "send_event V a ev (b0\<lparr>bc_tick := Suc (bc_tick b0)\<rparr>) = (Inr j, b')"
  note views = cache_keeps [OF assms(1) c]
  from s assms(1,4) obtain ack n1 where
    p: "js_publish J (pa_subject a) (to_wire (be_pydantic V) ev) (Some mid) None (bc_nats b0) = (Inr ack, n1)"
    by (auto simp: send_event_def seq_def on_nats_def split: prod.splits sum.splits)
  have "kept (bc_nats b0) mid = Some p" using views assms(6) by simp
  from publish_again [OF assms(5) this p] have dup: "ack_duplicate ack" "(ack_stream ack, ack_seq ack) = p"
    and same: "kept n1 = kept (bc_nats b0)" "stored n1 = stored (bc_nats b0)" by simp_all
  have st: "stored n1 (ack_stream ack, ack_seq ack) = Some (to_wire (be_pydantic V) ev0)"
    using dup(2) same(2) views assms(7) by simp
  obtain r n2 where g: "js_get_msg J (ack_stream ack) (ack_seq ack) n1 = (r, n2)" by fastforce
  from s p dup(1) g assms(1,4) obtain v where "r = Inr v"
    by (cases r) (auto simp: send_event_def seq_def on_nats_def)
  with get_stored [OF st g] have r: "r = Inr (Some (to_wire (be_pydantic V) ev0))"
    and keep: "kept n2 = kept n1" "stored n2 = stored n1" by simp_all
  from s p dup(1) g r assms(1,4) from_wire_to_wire [OF assms(2,8)] have "j = event_id_of ev0" "bc_nats b' = n2"
    by (auto simp: send_event_def seq_def on_nats_def draw_def lift_res_def)
  with keep same views show ?thesis by simp
qed

end

section \<open>The server in memory\<close>

definition mem_kept :: "mem_nats \<Rightarrow> pystr \<Rightarrow> (pystr \<times> nat) option" where
  "mem_kept n mid = map_option (\<lambda>i. (py ''EVENTS'', i)) (seq_of_id (Some mid) n)"

definition mem_stored :: "mem_nats \<Rightarrow> pystr \<times> nat \<Rightarrow> bytes option" where
  "mem_stored n p = (if fst p = py ''EVENTS'' \<and> snd p < length (mem_log n) then Some (snd (snd (mem_log n ! snd p))) else None)"

definition event_subject :: "pystr \<Rightarrow> bool" where
  "event_subject s \<longleftrightarrow> hd (split_on 46 s) \<noteq> py ''$KV''"

lemma mem_publish_event: "event_subject s \<Longrightarrow> mem_publish s d mid t n = mem_append s d mid n"
  by (auto simp: event_subject_def mem_publish_def split: list.splits)

lemma seq_of_id_append:
  "seq_of_id (Some mid) n = None \<Longrightarrow>
   seq_of_id (Some mid) (n\<lparr>mem_log := mem_log n @ [(s, Some mid, d)]\<rparr>) = Some (length (mem_log n))"
proof -
  assume none: "seq_of_id (Some mid) n = None"
  then have "filter (\<lambda>i. fst (snd (mem_log n ! i)) = Some mid) [0..<length (mem_log n)] = []"
    by (auto simp: seq_of_id_def split: list.splits)
  then have "filter (\<lambda>i. fst (snd ((mem_log n @ [(s, Some mid, d)]) ! i)) = Some mid) [0..<length (mem_log n)] = []"
    by (auto simp: filter_empty_conv nth_append)
  then show ?thesis by (simp add: seq_of_id_def)
qed

interpretation mem_window: duplicate_window mem_js mem_kept mem_stored event_subject
proof unfold_locales
  fix s n mid d a n'
  assume "event_subject s" and k: "mem_kept n mid = None" and "js_publish mem_js s d (Some mid) None n = (Inr a, n')"
  then have "mem_append s d (Some mid) n = (Inr a, n')" by (simp add: mem_js_def mem_publish_event)
  with k seq_of_id_append [of mid n s d]
  show "\<not> ack_duplicate a \<and> mem_kept n' mid = Some (ack_stream a, ack_seq a) \<and> mem_stored n' (ack_stream a, ack_seq a) = Some d"
    by (auto simp: mem_append_def mem_kept_def mem_stored_def)
next
  fix s n mid p d a n'
  assume "event_subject s" and "mem_kept n mid = Some p" and "js_publish mem_js s d (Some mid) None n = (Inr a, n')"
  then show "ack_duplicate a \<and> (ack_stream a, ack_seq a) = p \<and> mem_kept n' = mem_kept n \<and> mem_stored n' = mem_stored n"
    by (auto simp: mem_js_def mem_publish_event mem_append_def mem_kept_def)
next
  fix n st i d r n'
  assume "mem_stored n (st, i) = Some d" and "js_get_msg mem_js st i n = (r, n')"
  then show "(\<forall>v. r = Inr v \<longrightarrow> v = Some d) \<and> mem_kept n' = mem_kept n \<and> mem_stored n' = mem_stored n"
    by (auto simp: mem_js_def mem_stored_def split: if_splits)
next
  fix bucket pattern n ri n'
  assume "kv_watch mem_js bucket pattern n = (ri, n')"
  then show "mem_kept n' = mem_kept n \<and> mem_stored n' = mem_stored n" by (auto simp: mem_js_def)
qed

section \<open>A retried request\<close>

text \<open>The event that an outcome of the route names: at once, or as what the request waits for.\<close>

definition order_event :: "response + waiting \<Rightarrow> pystr \<Rightarrow> bool" where
  "order_event out eid \<longleftrightarrow> (case out of Inl r \<Rightarrow> r = accepted_response eid | Inr wt \<Rightarrow> wt_event_id wt = eid)"

lemma create_order_publishes:
  assumes "create_order (client_bus V) settings call w = (Inr out, w')"
  obtains body eid where
    "publish V (py ''1.0.0'') (order_args body (oc_idempotency_key call)) (w_client w) = (Inr eid, w_client w')"
    "order_event out eid"
proof -
  from assms obtain body where b: "oc_body call = Inr body"
    by (cases "oc_body call") (auto simp: create_order_defs seq_def lift_res_def)
  obtain r c where p: "publish V (py ''1.0.0'') (order_args body (oc_idempotency_key call)) (w_client w) = (r, c)" by fastforce
  with assms b that [of body] show thesis
    by (cases r) (auto simp: create_order_defs seq_def lift_res_def b_publish_def via_def client_bus_def ret_def
        order_event_def split: if_splits prod.splits)
qed

text \<open>The recipients an event was sealed for are texts that can be put on the wire.\<close>

definition recipients_scalar :: "'n bus_client \<Rightarrow> pystr \<Rightarrow> bool" where
  "recipients_scalar b subject \<longleftrightarrow> (\<forall>c keys. dict_get (bc_recipient_caches b) subject = Some c \<longrightarrow>
     as_strs (current c) = Inr keys \<longrightarrow> list_all scalar_str keys)"

lemma publish_uses_cache:
  assumes "publish V version a b = (Inr i, b')" and "cache_for V (pa_subject a) b = (Inr c, b0)"
  shows "dict_get (bc_recipient_caches b') (pa_subject a) = Some c"
proof -
  have "dict_get (bc_recipient_caches b0) (pa_subject a) = Some c"
    using assms(2) by (auto simp: cache_for_def seq_def on_nats_def dict_simps split: option.splits prod.splits sum.splits)
  moreover have "bc_recipient_caches b' = bc_recipient_caches b0"
    using assms by (auto simp: publish_def send_event_def seq_def draw_def with_client_def on_nats_def lift_res_def ret_def
        raise_def split: prod.splits sum.splits option.splits if_splits)
  ultimately show ?thesis by simp
qed

section \<open>Properties\<close>

text \<open>
  C22: a retried order is one order. When a request with an idempotency key has published its
  order, then, for as long as the server remembers the key, any further request with this key,
  whatever its body, stores nothing, and its outcome names the event of the first one: as the
  event id of the response, or as the event whose reply it waits for.
\<close>

theorem retried_order_same_event:
  assumes "duplicate_window (be_js V) kept stored in_stream" and "pydantic_ok (be_pydantic V)"
    and "in_stream REST_ORDER_CREATED_SUBJECT"
    and "create_order (client_bus V) settings call w = (Inr out, w1)" and "oc_idempotency_key call = Some mid"
    and "kept (bc_nats (w_client w)) mid = None" and "client_scalar V (w_client w)"
    and "recipients_scalar (w_client w1) REST_ORDER_CREATED_SUBJECT"
    and "kept (bc_nats (w_client w2)) mid = kept (bc_nats (w_client w1)) mid"
    and "stored (bc_nats (w_client w1)) \<subseteq>\<^sub>m stored (bc_nats (w_client w2))"
    and "create_order (client_bus V) settings' again w2 = (Inr out', w3)" and "oc_idempotency_key again = Some mid"
  shows "\<exists>eid. order_event out eid \<and> order_event out' eid
    \<and> stored (bc_nats (w_client w3)) = stored (bc_nats (w_client w2))"
proof -
  let ?s = "REST_ORDER_CREATED_SUBJECT"
  from assms(4) obtain body eid where o: "order_event out eid"
    and p: "publish V (py ''1.0.0'') (order_args body (Some mid)) (w_client w) = (Inr eid, w_client w1)"
    by (rule create_order_publishes) (simp add: assms(5))
  from assms(11) obtain body' eid' where o': "order_event out' eid'"
    and p': "publish V (py ''1.0.0'') (order_args body' (Some mid)) (w_client w2) = (Inr eid', w_client w3)"
    by (rule create_order_publishes) (simp add: assms(12))
  have args: "pa_subject (order_args d k) = ?s" "pa_msg_id (order_args d k) = k" "args_scalar (order_args d k)" for d k
    by (simp_all add: order_args_def args_scalar_def opt_scalar_def)
  from duplicate_window.publish_stores [OF assms(1) refl p args(2)] assms(3,6) args(1)
  obtain c b0 ev q where c: "cache_for V ?s (w_client w) = (Inr c, b0)"
    and ev: "seal_event V (py ''1.0.0'') (order_args body (Some mid)) (current c) (bc_tick b0) (b0\<lparr>bc_tick := Suc (bc_tick b0)\<rparr>) = Inr ev"
    and eid: "event_id_of ev = eid" and k: "kept (bc_nats (w_client w1)) mid = Some q"
    and st: "stored (bc_nats (w_client w1)) q = Some (to_wire (be_pydantic V) ev)" by auto
  have "client_scalar V (b0\<lparr>bc_tick := Suc (bc_tick b0)\<rparr>)"
    using duplicate_window.cache_keeps [OF assms(1) refl c] assms(7) by (simp add: client_scalar_def)
  moreover have "\<forall>k \<in> set keys. scalar_str k" if "as_strs (current c) = Inr keys" for keys
    using publish_uses_cache [OF p] c args(1) assms(8) that by (auto simp: recipients_scalar_def list_all_iff)
  ultimately have sc: "event_scalar ev" using seal_event_scalar [OF ev _ args(3)] by simp
  have k': "kept (bc_nats (w_client w2)) mid = Some q" using k assms(9) by simp
  have st': "stored (bc_nats (w_client w2)) q = Some (to_wire (be_pydantic V) ev)"
    using st assms(10) by (metis map_le_def domI)
  from duplicate_window.publish_suppressed [OF assms(1) refl assms(2) p' args(2) _ k' st' sc] assms(3) args(1)
  have "eid' = eid \<and> stored (bc_nats (w_client w3)) = stored (bc_nats (w_client w2))" using eid by simp
  with o o' show ?thesis by blast
qed

definition demo_retry :: "bytes \<Rightarrow> order_call" where
  "demo_retry body = \<lparr>oc_body = Inr body, oc_wait = 0, oc_idempotency_key = Some (py ''once'')\<rparr>"

definition demo_rest_world :: "mem_nats bus_client \<Rightarrow> mem_nats bus_client rest_world" where
  "demo_rest_world c = \<lparr>w_client = c, w_calls = [], w_tick = 0, w_replies = pending_replies_init\<rparr>"

lemma demo_create_order:
  assumes "publish toy_env (py ''1.0.0'') (order_args body (Some (py ''once''))) c = (Inr eid, c')"
  shows "\<exists>w. create_order (client_bus toy_env) demo_rest_settings (demo_retry body) (demo_rest_world c)
    = (Inr (Inl (accepted_response eid)), w) \<and> w_client w = c'"
  using assms
  by (simp add: create_order_defs demo_retry_def demo_rest_world_def seq_def lift_res_def ret_def b_publish_def via_def client_bus_def)

text \<open>The same key again: the message that is stored is read back.\<close>

lemma demo_publish_again:
  assumes "event_scalar ev" and "event_id_of ev = i"
  shows "\<exists>c. publish toy_env (py ''1.0.0'') (order_args body (Some (py ''once'')))
      (after_order [(REST_ORDER_CREATED_SUBJECT, Some (py ''once''), to_wire plain_pydantic ev)]) = (Inr i, c)"
proof -
  let ?n = "demo_nats [(REST_ORDER_CREATED_SUBJECT, Some (py ''once''), to_wire plain_pydantic ev)]"
  let ?b = "after_order [(REST_ORDER_CREATED_SUBJECT, Some (py ''once''), to_wire plain_pydantic ev)]"
  let ?b2 = "?b\<lparr>bc_tick := 2\<rparr>"
  from sign_succeeds [OF demo_keypair] obtain sig where "sign toy_crypto (py ''SU'') body = Inr sig" by blast
  then obtain ev2 where ev2: "seal_event toy_env (py ''1.0.0'') (order_args body (Some (py ''once''))) [] 1 ?b2 = Inr ev2"
    by (simp add: seal_event_def toy_env_def demo_client_def order_args_def after_order_def)
  have c: "cache_for toy_env REST_ORDER_CREATED_SUBJECT ?b = (Inr demo_cache, ?b)"
    by (simp add: cache_for_def after_order_def dict_get_def)
  have cur: "current demo_cache = []" by (simp add: current_def demo_cache_def new_cache_def dict_values_def dict_empty_def)
  have d: "draw ?b = (Inr 1, ?b2)" by (simp add: draw_def after_order_def)
  have ack: "js_publish mem_js REST_ORDER_CREATED_SUBJECT data (Some (py ''once'')) None ?n
      = (Inr \<lparr>ack_stream = py ''EVENTS'', ack_seq = 0, ack_duplicate = True\<rparr>, ?n)" for data
    by (simp add: mem_js_def mem_publish_def order_subject_split mem_append_def seq_of_id_def demo_nats_def)
  have get: "js_get_msg mem_js (py ''EVENTS'') 0 ?n = (Inr (Some (to_wire plain_pydantic ev)), ?n)"
    by (simp add: mem_js_def demo_nats_def)
  have "\<exists>c. send_event toy_env (order_args body (Some (py ''once''))) ev2 ?b2 = (Inr i, c)"
    using ack get assms from_wire_to_wire [OF plain_pydantic_ok assms(1)]
    by (simp add: send_event_def seq_def on_nats_def toy_env_def order_args_def after_order_def demo_client_def draw_def lift_res_def)
  then show ?thesis
    using c cur d ev2 by (simp add: publish_def seq_def with_client_def order_args_def [of body])
qed

theorem retried_order_same_event_witness:
  "\<exists>out out' eid w1 w3. create_order (client_bus toy_env) demo_rest_settings (demo_retry [1]) (demo_rest_world (demo_client (demo_nats [])))
      = (Inr out, w1)
    \<and> create_order (client_bus toy_env) demo_rest_settings (demo_retry [2]) (demo_rest_world (w_client w1)) = (Inr out', w3)
    \<and> order_event out eid \<and> order_event out' eid \<and> mem_stored (bc_nats (w_client w3)) = mem_stored (bc_nats (w_client w1))"
proof -
  have none: "seq_of_id (Some (py ''once'')) (demo_nats []) = None" by (simp add: seq_of_id_def demo_nats_def)
  have "scalar_str (py ''1.0.0'')" by simp
  from demo_publish [OF none this, of "[1]"] obtain ev where ev: "event_id_of ev = nat_str 0" "event_scalar ev"
    and p1: "publish toy_env (py ''1.0.0'') (order_args [1] (Some (py ''once''))) (demo_client (demo_nats []))
      = (Inr (nat_str 0), after_order [(REST_ORDER_CREATED_SUBJECT, Some (py ''once''), to_wire plain_pydantic ev)])" by auto
  let ?c1 = "after_order [(REST_ORDER_CREATED_SUBJECT, Some (py ''once''), to_wire plain_pydantic ev)]"
  from demo_publish_again [OF ev(2,1)] obtain c2 where
    p2: "publish toy_env (py ''1.0.0'') (order_args [2] (Some (py ''once''))) ?c1 = (Inr (nat_str 0), c2)" by blast
  from demo_create_order [OF p1] obtain w1 where
    o1: "create_order (client_bus toy_env) demo_rest_settings (demo_retry [1]) (demo_rest_world (demo_client (demo_nats [])))
      = (Inr (Inl (accepted_response (nat_str 0))), w1)" and c1: "w_client w1 = ?c1" by blast
  from demo_create_order [OF p2] obtain w3 where
    o2: "create_order (client_bus toy_env) demo_rest_settings (demo_retry [2]) (demo_rest_world (w_client w1))
      = (Inr (Inl (accepted_response (nat_str 0))), w3)" using c1 by auto
  have js: "be_js toy_env = mem_js" "be_pydantic toy_env = plain_pydantic" by (simp_all add: toy_env_def)
  have "\<exists>eid. order_event (Inl (accepted_response (nat_str 0))) eid \<and> order_event (Inl (accepted_response (nat_str 0))) eid
    \<and> mem_stored (bc_nats (w_client w3)) = mem_stored (bc_nats (w_client (demo_rest_world (w_client w1))))"
  proof (rule retried_order_same_event [OF _ _ _ o1 _ _ _ _ _ _ o2])
    show "duplicate_window (be_js toy_env) mem_kept mem_stored event_subject"
      unfolding js by (rule mem_window.duplicate_window_axioms)
    show "mem_kept (bc_nats (w_client (demo_rest_world (demo_client (demo_nats []))))) (py ''once'') = None"
      using none by (simp add: demo_rest_world_def demo_client_def mem_kept_def)
    show "recipients_scalar (w_client w1) REST_ORDER_CREATED_SUBJECT"
      by (simp add: c1 recipients_scalar_def after_order_def dict_get_def current_def demo_cache_def new_cache_def
          dict_values_def dict_empty_def)
  qed (use js in \<open>simp_all add: demo_retry_def demo_rest_world_def plain_pydantic_ok demo_client_scalar event_subject_def order_subject_split\<close>)
  with o1 o2 show ?thesis by (auto simp: demo_rest_world_def)
qed

end
