(* ===== verification/Spec2Isabelle.thy ===== *)
theory Spec2Isabelle
  imports Fs_Echo Fs_Confined Mains Bus_Retry
begin

text \<open>
  \<^bold>\<open>A verification development for JetCoreServiceBus.\<close>

  The program is a library (\<open>src/libs/jetcore\<close>) over a NATS server, and six adapters
  (\<open>src/adapters\<close>) that talk to each other through it. A publisher seals an event for the
  recipients registered for its subject and signs it; a recipient fetches, decrypts and verifies
  it, handles it and settles it with an ack or a nak.

  \<^bold>\<open>Theories and code.\<close>

  \<^item> \<open>Prelude\<close>: exceptions as the datatype \<open>exn\<close>, results as \<open>exn + 'a\<close>, computations \<open>comp\<close> on an
    explicit state, dictionaries as association lists, text as code points, and the locale \<open>codec\<close>.
  \<^item> \<open>Py_Codec\<close>, \<open>Py_Base32\<close>, \<open>Py_Json\<close>, \<open>Py_Time\<close>, \<open>Py_Sha256\<close>: the parts of Python's standard library
    the code computes with (UTF-8, base64, base32, \<open>json\<close>, \<open>isoformat\<close>, SHA-256), with their round
    trips and the exceptions they raise.
  \<^item> \<open>Envelope\<close> (\<open>envelope.py\<close>), \<open>Crypto\<close> (\<open>crypto.py\<close>), \<open>Config\<close> (\<open>config.py\<close> and the adapters'
    \<open>settings.py\<close>), \<open>Creds\<close> (\<open>creds.py\<close>).
  \<^item> \<open>Nats_Iface\<close>: the operations of the server as a record, with a server in memory for the witnesses;
    \<open>Registry\<close> (\<open>registry.py\<close>), \<open>Bus_Client\<close> (\<open>bus_client.py\<close>), \<open>Bus_Properties\<close>, and \<open>Bus_Retry\<close>
    (the locale \<open>duplicate_window\<close>: what the server promises of message ids, and retries up to
    the route of the REST service).
  \<^item> \<open>Bus_Iface\<close>: what a handler sees of the client (the record \<open>bus\<close>), the log of its calls, the
    command loop, and the locale \<open>command_handler\<close> (a handler settles its event once, or raises
    before settling) with what follows for every loop.
  \<^item> \<open>Fs_Payloads\<close> (\<open>payloads.py\<close>), \<open>Fs_Model\<close> (a POSIX file system with links, the calls of
    \<open>pathlib\<close> on it), \<open>Fs_Paths\<close> (\<open>paths.py\<close>), \<open>Fs_Effects\<close>, \<open>Fs_Links\<close> (resolution reads the links
    only), \<open>Recent_Writes\<close> (\<open>recent_writes.py\<close>),
    \<open>Fs_Handlers\<close> (the four \<open>*_handler.py\<close>), \<open>Fs_Safety\<close>, \<open>Fs_Properties\<close>, \<open>Fs_Watch\<close>
    (\<open>create_watch.py\<close>): the file storage adapter.
  \<^item> \<open>Db_Sql\<close> (the language of the one SQL statement, and what a server that executes it does),
    \<open>Db_Adapter\<close> (\<open>db_adapter_mysql\<close>: the statement of \<open>write_handler.py\<close> is a term of that language), \<open>Http_Adapters\<close> (\<open>http_adapter\<close> and \<open>webhook_sender\<close>),
    \<open>Webhook_Listener\<close> (\<open>webhook_listener/app.py\<close>), \<open>Rest_Api\<close> (\<open>rest_api_service\<close>: its parts, and a
    step relation on the requests that wait), \<open>Rest_Service\<close> (the service as it runs, which refines
    it; the locale \<open>event_source\<close>) and \<open>Rest_Replies\<close> (what its callers are guaranteed).
  \<^item> \<open>Entrypoints\<close> (\<open>run()\<close> of the polling adapters), \<open>Mains\<close> (\<open>main()\<close> of all six, over the real
    client, and what is settled in any run of them),
    \<open>Fs_Confined\<close> and \<open>Fs_Echo\<close> (the file storage adapter as a whole), and this theory (flows
    that cross adapters).

  A class is a record of its attributes, a method a definition that returns the updated state; the
  handlers run on a world that holds the client, the log of calls, a counter that indexes the
  readings of clocks and faults, and the adapter's own resources. A \<open>raise\<close> is \<open>Inl\<close> of an \<open>exn\<close>; a
  \<open>try\<close> is \<open>try_else\<close> or \<open>catch_as\<close>, and every \<open>except\<close> clause is a predicate on \<open>exn\<close>.

  \<^bold>\<open>What the lemmas show.\<close> The round trips of the formats carry the round trips of events,
  payloads, keys and identities. The laws of \<open>command_handler\<close>, discharged for all eight handlers,
  give the settling of every loop and, through \<open>accounted\<close>, of every adapter under every schedule.
  \<open>Fs_Paths\<close> and \<open>Fs_Effects\<close> show that an accepted path is canonical and that operations on a
  canonical path change nothing elsewhere; from that follow the confinement of the handlers and, on
  every file system whose links resolve, of the whole adapter, because it leaves the links as they
  are and \<open>Fs_Links\<close> shows that resolution depends on nothing else. The recipient cache refines the
  view computed from a bucket's history (locale \<open>live_view\<close>); the record of own writes is equivalent
  to a log that forgets nothing. The requests in flight of the REST service are a step relation
  with an invariant; the running service refines it, so that each answer is traced to the order
  its own request published and to a reply that was fetched and verified, and a reply to a registered
  request is not lost. A retried order is one order, by the laws of \<open>duplicate_window\<close>. Findings
  are stated as lemmas with a concrete run or a general statement.

  \<^bold>\<open>Bounds.\<close> The JSON scanner has as fuel twice the length of its text and two, which
  \<open>Py_Json\<close> shows to be enough; \<open>realpath\<close> has one unit per link of the file system and one more, and
  \<open>Fs_Paths\<close> shows that it never runs out; the kernel's walk stops after 40 links, as Linux does. A
  loop that ends only at a shutdown is given the list of its rounds, and its lemmas hold for
  every list. Time is counted in microseconds.

  \<^bold>\<open>Assumed of other code\<close>, always as a named predicate with an instance that satisfies it:
  \<open>age_ok\<close>, \<open>signing_ok\<close> and \<open>nkeys_ok\<close> (pyrage, PyNaCl, nkeys), \<open>pydantic_ok\<close> (time stamps print and
  parse back), \<open>engine_ok\<close> (MySQL executes the statements of \<open>Db_Sql\<close>, whatever they are; that the
  program's one is idempotent is proved of its text). A key pair may print with any prefix; what needs
  the prefix the code accepts has \<open>user_key\<close> as a hypothesis. \<open>paths.py\<close> does not check that the links on a
  requested path resolve, so the confinement of the handlers has \<open>request_links_resolve\<close> as a
  hypothesis, and \<open>resolve_within_loop_escapes\<close> shows what happens without it; a relative \<open>watch_dir\<close>
  is resolved against the working directory, an argument of \<open>main()\<close>.

  \<^bold>\<open>Not modelled.\<close> Switches of the event loop inside a pass of a loop: a turn is a whole
  pass (a request of the REST service is three turns, at whose ends others may come in), and the first exception ends a run, while \<open>asyncio.gather\<close> lets the other tasks go on until
  the process ends. Sleeps and timeouts are left out, as are log lines, signal handlers, the
  recursion limit, the rounding of floats other than in their text, the hand-over between
  the thread of the change stream and the event loop, the disposal of the engine, and
  FastAPI's parsing of requests; \<open>uvicorn\<close> is the list of what it brings in between the two ends
  of the lifespan. The set-up scripts, schemas, demo and tests hold no logic of the running program.
\<close>

section \<open>Across the components\<close>

text \<open>
  C1: what is posted to the webhook is what ends up in the file. The listener's request, sealed
  and signed by its client, which signs with a user key, for recipients among which is the file storage adapter, is accepted
  by that adapter's client; and when the write handler then publishes anything for it, the target
  that the posted path resolves to holds the posted body, and what is published correlates with
  the id of the event the listener published.
\<close>

theorem posted_body_is_written:
  assumes "bus_env_ok V" and "keypair_from_seed (be_lib V) (bc_signing_seed listener) = Inr kp"
    and "seal_event V (py ''1.0.0'') (webhook_args path body key)
           (map (\<lambda>r. JStr (recipient_str (be_lib V) r)) rs) t listener = Inr ev"
    and "client_scalar V listener" and "scalar_str path" and "path \<noteq> []"
    and "msg_data m = to_wire (be_pydantic V) ev"
    and "kp_private_key (bc_encryption_keypair adapter) = identity_str (be_lib V) i"
    and "identity_to_public (be_lib V) i \<in> set rs"
    and "lookup_signing_key (be_js V) (be_text_of V) (cfg_service_id (bc_settings listener)) (bc_nats adapter)
           = (Inr (Some (sk_public_key kp)), n')"
    and "resolve_within (w_fs w) d path = Inr target" and "fs_wf (w_fs w)" and "canonical (w_fs w) target"
    and "user_key (be_lib V) (sk_public_key kp)"
  shows "\<exists>got. fst (process_msg V m adapter) = Inr got
    \<and> (\<forall>a \<in> publishes (new_calls w (snd (write_handle B H d rw got w))).
         node_at (w_fs (snd (write_handle B H d rw got w))) target = Some (File body)
         \<and> pa_correlation_id a = Some (event_id_of ev))"
proof -
  let ?got = "\<lparr>re_event = ev, re_payload = write_request_payload path body, re_msg = m\<rparr>"
  have "args_scalar (webhook_args path body key)" by (simp add: args_scalar_def webhook_args_def opt_scalar_def)
  with sealed_processed [OF assms(1-4) _ _ assms(7-10,14)]
  have got: "fst (process_msg V m adapter) = Inr ?got" by (simp add: webhook_args_def)
  have d: "decode_write_requested (re_payload ?got) = Inr \<lparr>wr_path = path, wr_content = body\<rparr>"
    using write_request_decodes [OF assms(5,6)] by simp
  have "node_at (w_fs (snd (write_handle B H d rw ?got w))) target = Some (File body)
      \<and> pa_correlation_id a = Some (event_id_of ev)"
    if "a \<in> publishes (new_calls w (snd (write_handle B H d rw ?got w)))" for a
    using write_publishes [OF d _ assms(12,13) that] assms(11)
    by (auto simp: reply_args_def details_def event_id_of_def)
  with got show ?thesis by blast
qed

lemma demo_seals:
  "\<exists>ev. seal_event toy_env (py ''1.0.0'') a [JStr [263]] 0 (demo_client n) = Inr ev"
proof -
  from sign_succeeds [OF demo_keypair] obtain sig where
    "sign toy_crypto (py ''SU'') (pa_payload a) = Inr sig" by blast
  moreover have "encrypt_for_recipients toy_crypto t p [JStr [263]] = Inr (seal toy_crypto t [7] p)" for t p
    using seal_succeeds [OF toy_age_ok, of "[7]" t p] by (simp add: demo_recipient)
  ultimately show ?thesis by (auto simp: seal_event_def toy_env_def demo_client_def)
qed

text \<open>A run of the write handler on a received event that asks for three bytes in \<open>up/a\<close>.\<close>

lemma demo_write_publishes:
  assumes "decode_write_requested (re_payload got) = Inr \<lparr>wr_path = py ''up/a'', wr_content = [7, 8, 9]\<rparr>"
  shows "\<exists>a. a \<in> publishes (new_calls demo_world (snd (write_handle calm_bus calm_host demo_root False got demo_world)))"
proof -
  have e: "p_exists demo_fs (demo_root @ [py ''a''])" by code_simp
  have mk: "mkdir_p demo_fs demo_root = (Inr (), demo_fs)" by code_simp
  have op: "create_op (demo_root @ [py ''a'']) demo_fs
      = (Inr (demo_root @ [py ''a'']), dict_set (demo_root @ [py ''a'']) (File []) demo_fs)" by code_simp
  show ?thesis
    using assms demo_resolve_a e mk op
    by (auto simp: write_handle_def run_defs write_file_def write_bytes_def write_report_def publishes_def new_calls_def)
qed

theorem posted_body_is_written_witness:
  "\<exists>got m. fst (process_msg toy_env m (demo_client (demo_nats []))) = Inr got
     \<and> publishes (new_calls demo_world (snd (write_handle calm_bus calm_host demo_root False got demo_world))) \<noteq> {}
     \<and> node_at (w_fs (snd (write_handle calm_bus calm_host demo_root False got demo_world)))
         (demo_root @ [py ''a'']) = Some (File [7, 8, 9])"
proof -
  obtain ev where seal: "seal_event toy_env (py ''1.0.0'') (webhook_args (py ''up/a'') [7, 8, 9] None) [JStr [263]] 0
      (demo_client empty_nats) = Inr ev"
    using demo_seals by blast
  let ?m = "\<lparr>msg_subject = LISTENER_WRITE_REQUESTED_SUBJECT, msg_data = to_wire plain_pydantic ev, msg_num_delivered = 1, msg_token = 0\<rparr>"
  let ?b = "demo_client (demo_nats [])"
  have s: "seal_event toy_env (py ''1.0.0'') (webhook_args (py ''up/a'') [7, 8, 9] None)
      (map (\<lambda>r. JStr (recipient_str (be_lib toy_env) r)) [7]) 0 (demo_client empty_nats) = Inr ev"
    using seal by (simp add: toy_env_def demo_recipient)
  have args: "args_scalar (webhook_args (py ''up/a'') [7, 8, 9] None)"
    by (simp add: args_scalar_def webhook_args_def opt_scalar_def)
  note side = demo_client_def toy_env_def demo_recipient demo_directory
  have got: "fst (process_msg toy_env ?m ?b)
      = Inr \<lparr>re_event = ev, re_payload = write_request_payload (py ''up/a'') [7, 8, 9], re_msg = ?m\<rparr>" (is "_ = Inr ?got")
    using sealed_processed [OF toy_env_ok demo_keypair_env s demo_client_scalar(1) args, of ?m ?b 7 "demo_nats []"]
    by (simp add: side webhook_args_def)
  have "decode_write_requested (re_payload ?got) = Inr \<lparr>wr_path = py ''up/a'', wr_content = [7, 8, 9]\<rparr>"
    using write_request_decodes by simp
  from demo_write_publishes [OF this] obtain a where
    a: "a \<in> publishes (new_calls demo_world (snd (write_handle calm_bus calm_host demo_root False ?got demo_world)))"
    by blast
  have "\<exists>got. fst (process_msg toy_env ?m ?b) = Inr got
    \<and> (\<forall>a \<in> publishes (new_calls demo_world (snd (write_handle calm_bus calm_host demo_root False got demo_world))).
        node_at (w_fs (snd (write_handle calm_bus calm_host demo_root False got demo_world)))
          (demo_root @ [py ''a'']) = Some (File [7, 8, 9]) \<and> pa_correlation_id a = Some (event_id_of ev))"
    by (rule posted_body_is_written [OF toy_env_ok demo_keypair_env s demo_client_scalar(1)])
       (use demo_resolve_a demo_fs_wf demo_canonical in \<open>simp_all add: side\<close>)
  with got a have "node_at (w_fs (snd (write_handle calm_bus calm_host demo_root False ?got demo_world)))
      (demo_root @ [py ''a'']) = Some (File [7, 8, 9])" by auto
  with got a show ?thesis by blast
qed

text \<open>
  C2: an order's reply reaches its caller. Whatever the database adapter publishes for a received
  order, the row holds the order by then. When what it publishes is sealed and signed by its
  client, with a user key, for recipients among which is the REST service, the service's client accepts it; and
  when a caller still waits there for that order's event, it resolves exactly that caller's
  future, who is answered with status 200 and the payload, which names the order.
\<close>

theorem order_reply_reaches_caller:
  assumes "engine_ok E" and "a \<in> publishes (new_calls w (snd (db_write_handle B H E got w)))"
    and "bus_env_ok V" and "keypair_from_seed (be_lib V) (bc_signing_seed db) = Inr kp"
    and "seal_event V (py ''1.0.0'') a (map (\<lambda>r. JStr (recipient_str (be_lib V) r)) rs) t db = Inr ev"
    and "client_scalar V db" and "scalar_str (event_id (details got))"
    and "msg_data m = to_wire (be_pydantic V) ev"
    and "kp_private_key (bc_encryption_keypair rest) = identity_str (be_lib V) i"
    and "identity_to_public (be_lib V) i \<in> set rs"
    and "lookup_signing_key (be_js V) (be_text_of V) (cfg_service_id (bc_settings db)) (bc_nats rest)
           = (Inr (Some (sk_public_key kp)), n')" and "user_key (be_lib V) (sk_public_key kp)"
    and "dict_get (pr_pending p) (event_id (details got)) = Some f" and "f < length (pr_futures p)"
    and "pr_futures p ! f = Pending"
  shows "\<exists>req now rep. decode_order_created (re_payload got) = Inr req
    \<and> eng_lookup E (w_db (snd (db_write_handle B H E got w))) (or_order_id req) = Some (or_item req, or_quantity req)
    \<and> fst (process_msg V m rest) = Inr rep
    \<and> (case pr_resolve rep p of (found, q) \<Rightarrow> found
        \<and> (\<forall>g. g \<noteq> f \<longrightarrow> pr_futures q ! g = pr_futures p ! g)
        \<and> fst (finish_wait (event_id (details got)) f q)
            = \<lparr>rs_status = 200, rs_body = encode_order_persisted (or_order_id req) None now\<rparr>)"
proof -
  from db_write_publishes [OF assms(1,2)] obtain req now where
    d: "decode_order_created (re_payload got) = Inr req"
    and a: "a = reply_args got ORDER_PERSISTED_SUBJECT ''OrderPersisted'' (encode_order_persisted (or_order_id req) None now)"
    and l: "eng_lookup E (w_db (snd (db_write_handle B H E got w))) (or_order_id req) = Some (or_item req, or_quantity req)"
    by auto
  let ?rep = "\<lparr>re_event = ev, re_payload = pa_payload a, re_msg = m\<rparr>"
  have "args_scalar a" using a assms(7) by (simp add: args_scalar_def reply_args_def opt_scalar_def)
  from sealed_processed [OF assms(3-6) this _ assms(8-12)] have rep: "fst (process_msg V m rest) = Inr ?rep" by simp
  have "correlation_id (details ?rep) = Some (event_id (details got))"
    using assms(5) a by (elim seal_eventE) (simp add: details_def made_details_def reply_args_def)
  moreover have "re_payload ?rep = encode_order_persisted (or_order_id req) None now" using a by (simp add: reply_args_def)
  ultimately have "case pr_resolve ?rep p of (found, q) \<Rightarrow> found
        \<and> (\<forall>g. g \<noteq> f \<longrightarrow> pr_futures q ! g = pr_futures p ! g)
        \<and> fst (finish_wait (event_id (details got)) f q)
            = \<lparr>rs_status = 200, rs_body = encode_order_persisted (or_order_id req) None now\<rparr>"
    using assms(13-15) by (simp add: pr_resolve_def finish_wait_def)
  with d l rep show ?thesis by (intro exI [of _ req] exI [of _ now] exI [of _ ?rep] conjI)
qed

theorem order_reply_reaches_caller_witness:
  "\<exists>rep m now. fst (process_msg toy_env m (demo_client (demo_nats []))) = Inr rep
    \<and> fst (finish_wait (event_id (details demo_order)) 0
        (snd (pr_resolve rep (snd (pr_register (event_id (details demo_order)) pending_replies_init)))))
      = \<lparr>rs_status = 200, rs_body = encode_order_persisted (py ''o-1'') None now\<rparr>"
proof -
  let ?a = "reply_args demo_order ORDER_PERSISTED_SUBJECT ''OrderPersisted'' (encode_order_persisted (py ''o-1'') None 0)"
  let ?p = "snd (pr_register (event_id (details demo_order)) pending_replies_init)"
  let ?b = "demo_client (demo_nats [])"
  have a: "?a \<in> publishes (new_calls demo_db (snd (db_write_handle calm_bus calm_host table_engine demo_order demo_db)))"
    by (simp add: db_write_handle_def demo_order_decodes run_defs demo_upsert demo_db_def publishes_def new_calls_def reply_args_def)
  obtain ev where "seal_event toy_env (py ''1.0.0'') ?a [JStr [263]] 0 (demo_client empty_nats) = Inr ev"
    using demo_seals by blast
  then have s: "seal_event toy_env (py ''1.0.0'') ?a (map (\<lambda>r. JStr (recipient_str (be_lib toy_env) r)) [7]) 0
      (demo_client empty_nats) = Inr ev"
    by (simp add: toy_env_def demo_recipient)
  let ?m = "\<lparr>msg_subject = ORDER_PERSISTED_SUBJECT, msg_data = to_wire plain_pydantic ev, msg_num_delivered = 1, msg_token = 0\<rparr>"
  have id: "scalar_str (event_id (details demo_order))" by (simp add: demo_order_def plain_event_def details_def)
  have wire: "msg_data ?m = to_wire (be_pydantic toy_env) ev" by (simp add: toy_env_def)
  have key: "kp_private_key (bc_encryption_keypair ?b) = identity_str (be_lib toy_env) 7"
      "identity_to_public (be_lib toy_env) 7 \<in> set [7]"
    by (simp_all add: demo_client_def toy_env_def demo_recipient)
  have known: "lookup_signing_key (be_js toy_env) (be_text_of toy_env) (cfg_service_id (bc_settings (demo_client empty_nats)))
      (bc_nats ?b) = (Inr (Some (sk_public_key \<lparr>sk_seed = py ''SU'', sk_public_key = demo_public\<rparr>)), demo_nats [])"
    by (simp add: demo_client_def toy_env_def demo_directory)
  have user: "user_key (be_lib toy_env) (sk_public_key \<lparr>sk_seed = py ''SU'', sk_public_key = demo_public\<rparr>)"
    by (simp add: toy_env_def)
  have waiting: "dict_get (pr_pending ?p) (event_id (details demo_order)) = Some 0"
      "0 < length (pr_futures ?p)" "pr_futures ?p ! 0 = Pending"
    by (simp_all add: pr_register_def pending_replies_init_def Let_def dict_simps)
  obtain req now rep where req: "decode_order_created (re_payload demo_order) = Inr req"
    and rep: "fst (process_msg toy_env ?m ?b) = Inr rep"
    and ans: "case pr_resolve rep ?p of (found, q) \<Rightarrow> found
        \<and> (\<forall>g. g \<noteq> 0 \<longrightarrow> pr_futures q ! g = pr_futures ?p ! g)
        \<and> fst (finish_wait (event_id (details demo_order)) 0 q)
            = \<lparr>rs_status = 200, rs_body = encode_order_persisted (or_order_id req) None now\<rparr>"
    using order_reply_reaches_caller [OF table_engine_ok a toy_env_ok demo_keypair_env s demo_client_scalar(1) id wire key
        known user waiting] by (elim exE conjE) (rule that)
  have "or_order_id req = py ''o-1''" using req by (auto simp: demo_order_decodes)
  obtain found q where r: "pr_resolve rep ?p = (found, q)" by (rule prod.exhaust)
  have "fst (finish_wait (event_id (details demo_order)) 0 q)
      = \<lparr>rs_status = 200, rs_body = encode_order_persisted (or_order_id req) None now\<rparr>"
    using ans unfolding r prod.case by (elim conjE)
  with \<open>or_order_id req = py ''o-1''\<close> have "fst (finish_wait (event_id (details demo_order)) 0 (snd (pr_resolve rep ?p)))
      = \<lparr>rs_status = 200, rs_body = encode_order_persisted (py ''o-1'') None now\<rparr>" by (simp only: r snd_conv)
  with rep show ?thesis by (intro exI [of _ rep] exI [of _ ?m] exI [of _ now] conjI)
qed

end
